(* ===== verification/Prelude.thy ===== *)
theory Prelude
  imports Main "HOL-Library.Word"
begin

text \<open>
  What the components share.

  \<^item> The C data widths, the error numbers of \<open>errno.h\<close> and pointers.
  \<^item> The \<open>world\<close>: the malloc heap (blocks of bytes), \<open>errno\<close>, the answers of the
    environment (malloc, \<open>pthread_mutex_init\<close>, \<open>read\<close>, \<open>write\<close>, randomness) and the bytes
    that have reached each descriptor.
  \<^item> The state and fault monad the C functions are written in. A fault is undefined behaviour
    of C, a self-deadlock or divergence; an error the code itself reports is an ordinary
    \<open>int\<close> result, as in the code.
  \<^item> A weakest-precondition calculus for total correctness (\<open>wp\<close>): a \<open>wp\<close> fact says that the
    run has no fault and that its result meets the postcondition.
  \<^item> The heap frame relation \<open>mframe\<close>.
\<close>

section \<open>Widths, error numbers, pointers\<close>

type_synonym byte = "8 word"
type_synonym u16 = "16 word"
type_synonym u32 = "32 word"
type_synonym size_t = "64 word"

abbreviation (input) EINTR :: int where "EINTR \<equiv> 4"
abbreviation (input) EIO :: int where "EIO \<equiv> 5"
abbreviation (input) EBADF :: int where "EBADF \<equiv> 9"
abbreviation (input) EAGAIN :: int where "EAGAIN \<equiv> 11"
abbreviation (input) ENOMEM :: int where "ENOMEM \<equiv> 12"
abbreviation (input) EACCES :: int where "EACCES \<equiv> 13"
abbreviation (input) EINVAL :: int where "EINVAL \<equiv> 22"
abbreviation (input) EILSEQ :: int where "EILSEQ \<equiv> 84"

text \<open>
  A pointer to bytes: null, an offset into a malloc block, or storage outside the malloc heap
  (a string literal, a local array, an array field of a struct), given by the bytes readable
  from it on.
\<close>

datatype ptr = Null | Ptr nat nat | Lit "byte list"

datatype fault =
    NullDeref        \<comment> \<open>access through the null pointer\<close>
  | UseAfterFree     \<comment> \<open>access to a block that is not allocated\<close>
  | OutOfBounds      \<comment> \<open>access outside the object\<close>
  | ReadOnly         \<comment> \<open>write to a string literal\<close>
  | BadFree          \<comment> \<open>free of a pointer malloc did not return, or twice\<close>
  | DeadLock         \<comment> \<open>a thread locks a mutex it holds\<close>
  | BadUnlock        \<comment> \<open>unlock of a mutex that is not locked\<close>
  | BadVarArg        \<comment> \<open>va_arg past the arguments or with another type\<close>
  | BadMember        \<comment> \<open>read of a union member that was not written\<close>
  | Diverges         \<comment> \<open>a loop that does not end\<close>
  | Exits            \<comment> \<open>the program calls \<open>exit\<close>\<close>

record world =
  blocks  :: "nat \<Rightarrow> byte list option"
  fresh   :: nat
  junk    :: "nat \<Rightarrow> nat \<Rightarrow> byte"
  mallocs :: "bool list"
  minits  :: "int list"
  errno   :: int
  outs    :: "(int + nat) list"
  ins     :: "(int + byte list) list"
  wire    :: "int \<Rightarrow> byte list"
  entropy :: "byte list"
  little  :: bool
  slack   :: nat

text \<open>
  \<open>blocks i\<close> is the malloc block \<open>i\<close> while it is allocated; block numbers from \<open>fresh\<close> on are
  not used yet. \<open>junk i k\<close> is what byte \<open>k\<close> of block \<open>i\<close> holds before it is written. \<open>mallocs\<close>
  says which of the next calls of \<open>malloc\<close> fail (those past its end succeed), \<open>minits\<close> what the
  next calls of \<open>pthread_mutex_init\<close> return (0 past its end), \<open>outs\<close> and \<open>ins\<close> what the next
  calls of \<open>write\<close> and \<open>read\<close> do (an error number, or how many bytes are taken, or which bytes
  arrive). \<open>little\<close> is the byte order of the host. \<open>slack\<close> is how many bytes past the end of a
  local array of \<open>protocol.c\<close> still belong to nothing else in the stack frame.
\<close>

section \<open>Word lemmas\<close>

lemma unat_u32_bound: "unat (n :: u32) < 2 ^ 32"
  using unsigned_less [of n] by simp

lemma unat_size_bound: "unat (n :: size_t) < 2 ^ 64"
  using unsigned_less [of n] by simp

lemma unat_ucast_u32 [simp]: "unat (ucast (n :: u32) :: size_t) = unat n"
  using unat_u32_bound [of n] by (simp add: unsigned_ucast_eq take_bit_nat_eq_self_iff)

lemma unat_plus_no_overflow:
  fixes a b :: size_t
  assumes "unat a + unat b < 2 ^ 64"
  shows "unat (a + b) = unat a + unat b"
  using assms by (simp add: unat_word_ariths)

lemma unat_minus_le:
  fixes a b :: size_t
  assumes "unat b \<le> unat a"
  shows "unat (a - b) = unat a - unat b"
  using assms by (simp add: unat_sub word_le_nat_alt)

section \<open>The monad\<close>

type_synonym 'a cmd = "world \<Rightarrow> fault + ('a \<times> world)"

definition ret :: "'a \<Rightarrow> 'a cmd" where
  "ret x = (\<lambda>w. Inr (x, w))"

definition bind :: "'a cmd \<Rightarrow> ('a \<Rightarrow> 'b cmd) \<Rightarrow> 'b cmd" where
  "bind m f = (\<lambda>w. case m w of Inl e \<Rightarrow> Inl e | Inr (x, w') \<Rightarrow> f x w')"

definition fail :: "fault \<Rightarrow> 'a cmd" where
  "fail e = (\<lambda>_. Inl e)"

definition asks :: "(world \<Rightarrow> 'a) \<Rightarrow> 'a cmd" where
  "asks f = (\<lambda>w. Inr (f w, w))"

definition modify :: "(world \<Rightarrow> world) \<Rightarrow> unit cmd" where
  "modify f = (\<lambda>w. Inr ((), f w))"

definition lift_fault :: "fault + 'a \<Rightarrow> 'a cmd" where
  "lift_fault r = (\<lambda>w. case r of Inl e \<Rightarrow> Inl e | Inr x \<Rightarrow> Inr (x, w))"

definition wp :: "'a cmd \<Rightarrow> ('a \<Rightarrow> world \<Rightarrow> bool) \<Rightarrow> world \<Rightarrow> bool" where
  "wp m Q w = (case m w of Inl _ \<Rightarrow> False | Inr (x, w') \<Rightarrow> Q x w')"

named_theorems wp_simps "weakest preconditions of the primitives, as equations"
named_theorems run_simps "equations that run a command on a concrete world"

lemma bind_ret [simp]: "bind (ret x) f = f x"
  by (simp add: bind_def ret_def)

lemma ret_bind [simp]: "bind m ret = m"
  by (auto simp: bind_def ret_def fun_eq_iff split: sum.splits)

lemma bind_assoc: "bind (bind m f) g = bind m (\<lambda>x. bind (f x) g)"
  by (auto simp: bind_def fun_eq_iff split: sum.splits)

lemma bind_fail [simp]: "bind (fail e) f = fail e"
  by (simp add: bind_def fail_def)

lemma ret_run [run_simps]: "ret x w = Inr (x, w)"
  by (simp add: ret_def)

lemma bind_run [run_simps]:
  "bind m f w = (case m w of Inl e \<Rightarrow> Inl e | Inr (x, w') \<Rightarrow> f x w')"
  by (simp add: bind_def)

lemma fail_run [run_simps]: "fail e w = Inl e"
  by (simp add: fail_def)

lemma asks_run [run_simps]: "asks f w = Inr (f w, w)"
  by (simp add: asks_def)

lemma modify_run [run_simps]: "modify f w = Inr ((), f w)"
  by (simp add: modify_def)

lemma lift_fault_run [run_simps]:
  "lift_fault r w = (case r of Inl e \<Rightarrow> Inl e | Inr x \<Rightarrow> Inr (x, w))"
  by (simp add: lift_fault_def)

lemma bind_Inr: "m w = Inr (x, w') \<Longrightarrow> bind m f w = f x w'"
  by (simp add: bind_def)

lemma bind_InrE:
  assumes "bind m f w = Inr r"
  obtains x w1 where "m w = Inr (x, w1)" and "f x w1 = Inr r"
  using assms by (auto simp: bind_def split: sum.splits)

lemma bind_Inl: "m w = Inl e \<Longrightarrow> bind m f w = Inl e"
  by (simp add: bind_def)

lemma wp_ret [simp, wp_simps]: "wp (ret x) Q = Q x"
  by (simp add: wp_def ret_def fun_eq_iff)

lemma wp_bind [simp, wp_simps]: "wp (bind m f) Q = wp m (\<lambda>x. wp (f x) Q)"
  by (simp add: wp_def bind_def fun_eq_iff split: sum.splits prod.splits)

lemma wp_fail [simp, wp_simps]: "wp (fail e) Q w = False"
  by (simp add: wp_def fail_def)

lemma wp_asks [simp, wp_simps]: "wp (asks f) Q w = Q (f w) w"
  by (simp add: wp_def asks_def)

lemma wp_modify [simp, wp_simps]: "wp (modify f) Q w = Q () (f w)"
  by (simp add: wp_def modify_def)

lemma wp_lift_Inr [simp, wp_simps]: "wp (lift_fault (Inr x)) Q w = Q x w"
  by (simp add: wp_def lift_fault_def)

lemma wp_lift_Inl [simp, wp_simps]: "wp (lift_fault (Inl e)) Q w = False"
  by (simp add: wp_def lift_fault_def)

lemma wp_if: "wp (if c then m else n) Q w = (if c then wp m Q w else wp n Q w)"
  by simp

lemma wp_mono: "wp m P w \<Longrightarrow> (\<And>x w'. P x w' \<Longrightarrow> Q x w') \<Longrightarrow> wp m Q w"
  by (auto simp: wp_def split: sum.splits)

lemma wp_conj: "wp m P w \<Longrightarrow> wp m Q w \<Longrightarrow> wp m (\<lambda>x w'. P x w' \<and> Q x w') w"
  by (auto simp: wp_def split: sum.splits)

lemma wp_iff: "wp m Q w \<longleftrightarrow> (\<exists>x w'. m w = Inr (x, w') \<and> Q x w')"
  by (auto simp: wp_def split: sum.splits)

lemma wpE:
  assumes "wp m Q w"
  obtains x w' where "m w = Inr (x, w')" "Q x w'"
  using assms by (auto simp: wp_iff)

lemma wp_run: "m w = Inr (x, w') \<Longrightarrow> wp m Q w = Q x w'"
  by (simp add: wp_def)

lemma wp_also: "wp m Q w \<Longrightarrow> (\<And>x w'. m w = Inr (x, w') \<Longrightarrow> P x) \<Longrightarrow> wp m (\<lambda>x w'. Q x w' \<and> P x) w"
  by (auto simp: wp_iff)

text \<open>A run that ends in a fault, and how to see it from a prefix that succeeds.\<close>

definition faults :: "'a cmd \<Rightarrow> world \<Rightarrow> bool" where
  "faults m w \<longleftrightarrow> (\<exists>f. m w = Inl f)"

lemma faults_fail [simp]: "faults (fail f) w"
  by (simp add: faults_def fail_def)

lemma faults_first: "faults m w \<Longrightarrow> faults (bind m f) w"
  by (auto simp: faults_def bind_def)

lemma faults_then:
  "(\<And>x w'. m w = Inr (x, w') \<Longrightarrow> faults (f x) w') \<Longrightarrow> faults (bind m f) w"
  by (auto simp: faults_def bind_def split: sum.split)

lemma fault_after: "wp m (\<lambda>x w'. f x w' = Inl e) w \<Longrightarrow> bind m f w = Inl e"
  by (auto simp: wp_iff bind_def)

definition fails :: "fault \<Rightarrow> 'a cmd \<Rightarrow> world \<Rightarrow> bool" where
  "fails e m w \<longleftrightarrow> m w = Inl e"

lemma fails_first: "fails e m w \<Longrightarrow> fails e (bind m f) w"
  by (simp add: fails_def bind_def)

lemma fails_after: "wp m (\<lambda>x. fails e (f x)) w \<Longrightarrow> fails e (bind m f) w"
  by (auto simp: fails_def wp_iff bind_def)

lemma faults_lift [simp]: "faults (lift_fault (Inl f)) w"
  by (simp add: faults_def lift_fault_def)

section \<open>errno, mutexes, the environment\<close>

definition set_errno :: "int \<Rightarrow> unit cmd" where
  "set_errno e = modify (errno_update (\<lambda>_. e))"

text \<open>The macro \<open>excom_return_errno\<close>: returns \<open>errno\<close> and clears it.\<close>

definition excom_return_errno :: "int cmd" where
  "excom_return_errno = bind (asks errno) (\<lambda>err. bind (set_errno 0) (\<lambda>_. ret err))"

text \<open>
  A mutex is the bool "locked by the running thread" (the default, non-recursive kind):
  locking it twice blocks for ever, unlocking it when it is free is undefined.
\<close>

type_synonym mutex = bool

definition mutex_lock :: "mutex \<Rightarrow> mutex cmd" where
  "mutex_lock m = (if m then fail DeadLock else ret True)"

definition mutex_unlock :: "mutex \<Rightarrow> mutex cmd" where
  "mutex_unlock m = (if m then ret False else fail BadUnlock)"

lemma mutex_simps [simp]:
  "mutex_lock False = ret True" "mutex_lock True = fail DeadLock"
  "mutex_unlock True = ret False" "mutex_unlock False = fail BadUnlock"
  by (simp_all add: mutex_lock_def mutex_unlock_def)

definition mutex_init :: "int cmd" where
  "mutex_init = (\<lambda>w. case minits w of [] \<Rightarrow> Inr (0, w) | e # es \<Rightarrow> Inr (e, w\<lparr>minits := es\<rparr>))"

section \<open>The malloc heap\<close>

text \<open>
  An object larger than \<open>PTRDIFF_MAX\<close> is never allocated; otherwise the environment decides.
  A failure sets \<open>errno\<close>.
\<close>

definition excom_malloc :: "size_t \<Rightarrow> ptr cmd" where
  "excom_malloc n = (\<lambda>w.
     let w1 = w\<lparr>mallocs := tl (mallocs w)\<rparr>
     in if 2 ^ 63 \<le> n \<or> (mallocs w \<noteq> [] \<and> hd (mallocs w))
        then Inr (Null, w1\<lparr>errno := ENOMEM\<rparr>)
        else Inr (Ptr (fresh w) 0,
                  w1\<lparr>blocks := (blocks w)(fresh w := Some (map (junk w (fresh w)) [0..<unat n])),
                     fresh := Suc (fresh w)\<rparr>))"

definition excom_free :: "ptr \<Rightarrow> unit cmd" where
  "excom_free p = (\<lambda>w. case p of
       Null \<Rightarrow> Inr ((), w)
     | Ptr i k \<Rightarrow> (if k = 0 \<and> blocks w i \<noteq> None
                   then Inr ((), w\<lparr>blocks := (blocks w)(i := None)\<rparr>) else Inl BadFree)
     | Lit _ \<Rightarrow> Inl BadFree)"

text \<open>
  The two sides of \<open>memcpy\<close>: \<open>n\<close> bytes read at a pointer, bytes written at a pointer. Copying
  no bytes touches nothing, also at a null pointer.
\<close>

definition load :: "ptr \<Rightarrow> nat \<Rightarrow> byte list cmd" where
  "load p n = (\<lambda>w.
     if n = 0 then Inr ([], w)
     else case p of
       Null \<Rightarrow> Inl NullDeref
     | Ptr i k \<Rightarrow> (case blocks w i of
           None \<Rightarrow> Inl UseAfterFree
         | Some bs \<Rightarrow> if k + n \<le> length bs then Inr (take n (drop k bs), w) else Inl OutOfBounds)
     | Lit bs \<Rightarrow> if n \<le> length bs then Inr (take n bs, w) else Inl OutOfBounds)"

definition overwrite :: "byte list \<Rightarrow> nat \<Rightarrow> byte list \<Rightarrow> byte list" where
  "overwrite old k new = take k old @ new @ drop (k + length new) old"

definition store :: "ptr \<Rightarrow> byte list \<Rightarrow> unit cmd" where
  "store p new = (\<lambda>w.
     if new = [] then Inr ((), w)
     else case p of
       Null \<Rightarrow> Inl NullDeref
     | Ptr i k \<Rightarrow> (case blocks w i of
           None \<Rightarrow> Inl UseAfterFree
         | Some bs \<Rightarrow> if k + length new \<le> length bs
                       then Inr ((), w\<lparr>blocks := (blocks w)(i := Some (overwrite bs k new))\<rparr>)
                       else Inl OutOfBounds)
     | Lit _ \<Rightarrow> Inl ReadOnly)"

definition memcpy :: "ptr \<Rightarrow> ptr \<Rightarrow> nat \<Rightarrow> unit cmd" where
  "memcpy dst src n = bind (load src n) (store dst)"

text \<open>Pointer arithmetic.\<close>

primrec ptr_add :: "ptr \<Rightarrow> nat \<Rightarrow> ptr" where
  "ptr_add Null n = Null"
| "ptr_add (Ptr i k) n = Ptr i (k + n)"
| "ptr_add (Lit bs) n = Lit (drop n bs)"

lemma length_overwrite [simp]:
  "k + length new \<le> length old \<Longrightarrow> length (overwrite old k new) = length old"
  by (simp add: overwrite_def)

lemma take_overwrite [simp]:
  "k + length new \<le> length old \<Longrightarrow> n = k + length new \<Longrightarrow> take n (overwrite old k new) = take k old @ new"
  by (simp add: overwrite_def)

lemma take_overwrite_prefix:
  "k + length new \<le> length old \<Longrightarrow> n \<le> k \<Longrightarrow> take n (overwrite old k new) = take n old"
  by (simp add: overwrite_def min_def)


section \<open>Frames of the heap\<close>

text \<open>Blocks that are not handed out yet are not allocated.\<close>

definition hwf :: "world \<Rightarrow> bool" where
  "hwf w \<longleftrightarrow> (\<forall>i \<ge> fresh w. blocks w i = None)"

text \<open>
  From \<open>w\<close> to \<open>w'\<close> only the blocks in \<open>I\<close> and new blocks changed; nothing was read, written or
  drawn from the environment, and an environment in which nothing fails stays one.
\<close>

definition same_env :: "world \<Rightarrow> world \<Rightarrow> bool" where
  "same_env w w' \<longleftrightarrow> wire w' = wire w \<and> outs w' = outs w \<and> ins w' = ins w \<and> entropy w' = entropy w
     \<and> little w' = little w \<and> slack w' = slack w \<and> junk w' = junk w"

definition mframe :: "nat set \<Rightarrow> world \<Rightarrow> world \<Rightarrow> bool" where
  "mframe I w w' \<longleftrightarrow> (hwf w \<longrightarrow> hwf w') \<and> fresh w \<le> fresh w' \<and>
     (\<forall>i. i < fresh w \<longrightarrow> i \<notin> I \<longrightarrow> blocks w' i = blocks w i) \<and> same_env w w' \<and>
     (mallocs w = [] \<longrightarrow> mallocs w' = []) \<and> (minits w = [] \<longrightarrow> minits w' = [])"

lemma same_env_refl [simp]: "same_env w w"
  by (simp add: same_env_def)

lemma same_env_trans: "same_env w w1 \<Longrightarrow> same_env w1 w2 \<Longrightarrow> same_env w w2"
  by (simp add: same_env_def)

lemma mframe_refl [simp]: "mframe I w w"
  by (simp add: mframe_def)

lemma mframe_trans:
  assumes "mframe I w w1" and "mframe J w1 w2" and "\<And>i. i \<in> I \<union> J \<Longrightarrow> i < fresh w \<Longrightarrow> i \<in> K"
  shows "mframe K w w2"
proof -
  have "blocks w2 i = blocks w i" if "i < fresh w" "i \<notin> K" for i
  proof -
    have "i \<notin> I" "i \<notin> J" using assms(3) that by auto
    with assms(1,2) that show ?thesis by (simp add: mframe_def)
  qed
  moreover have "same_env w w2"
    using assms(1,2) by (auto simp: mframe_def intro: same_env_trans)
  ultimately show ?thesis
    using assms(1,2) by (simp add: mframe_def)
qed

lemma mframe_weaken: "mframe I w w' \<Longrightarrow> (\<And>i. i \<in> I \<Longrightarrow> i < fresh w \<Longrightarrow> i \<in> K) \<Longrightarrow> mframe K w w'"
  by (auto simp: mframe_def)

lemma mframe_hwf: "mframe I w w' \<Longrightarrow> hwf w \<Longrightarrow> hwf w'"
  by (simp add: mframe_def)

lemma mframe_blocks: "mframe I w w' \<Longrightarrow> i < fresh w \<Longrightarrow> i \<notin> I \<Longrightarrow> blocks w' i = blocks w i"
  by (simp add: mframe_def)

lemma mframe_fresh: "mframe I w w' \<Longrightarrow> fresh w \<le> fresh w'"
  by (simp add: mframe_def)

lemma mframe_env: "mframe I w w' \<Longrightarrow> same_env w w'"
  by (simp add: mframe_def)

lemma mframe_envD:
  assumes "mframe I w w'"
  shows "wire w' = wire w" "outs w' = outs w" "ins w' = ins w" "entropy w' = entropy w"
    "little w' = little w" "slack w' = slack w" "junk w' = junk w"
  using assms by (simp_all add: mframe_def same_env_def)

lemma mframe_errno [simp]: "mframe I w (w'\<lparr>errno := e\<rparr>) = mframe I w w'"
  by (simp add: mframe_def same_env_def hwf_def)

lemma mframe_errno_left [simp]: "mframe I (w\<lparr>errno := e\<rparr>) w' = mframe I w w'"
  by (simp add: mframe_def same_env_def hwf_def)

lemma hwf_errno [simp]: "hwf (w\<lparr>errno := e\<rparr>) = hwf w"
  by (simp add: hwf_def)

text \<open>An environment in which no allocation and no initialisation fails.\<close>

definition plenty :: "world \<Rightarrow> bool" where
  "plenty w \<longleftrightarrow> mallocs w = [] \<and> minits w = []"

lemma mframe_plenty: "mframe I w w' \<Longrightarrow> plenty w \<Longrightarrow> plenty w'"
  by (simp add: mframe_def plenty_def)

lemma allocated_below_fresh: "hwf w \<Longrightarrow> blocks w i = Some bs \<Longrightarrow> i < fresh w"
  by (metis hwf_def leI option.discI)

text \<open>The same frame, for a run that may also have read, written or drawn from the environment.\<close>

definition ioframe :: "nat set \<Rightarrow> world \<Rightarrow> world \<Rightarrow> bool" where
  "ioframe I w w' \<longleftrightarrow>
     mframe I (w\<lparr>wire := wire w', outs := outs w', ins := ins w', entropy := entropy w'\<rparr>) w'"

lemma io_fields [simp]:
  "hwf (w\<lparr>wire := x, outs := y, ins := z, entropy := e\<rparr>) = hwf w"
  "plenty (w\<lparr>wire := x, outs := y, ins := z, entropy := e\<rparr>) = plenty w"
  by (simp_all add: hwf_def plenty_def)

lemma mframe_ioframe: "mframe I w w' \<Longrightarrow> ioframe I w w'"
  by (simp add: ioframe_def mframe_def same_env_def hwf_def)

lemma ioframe_refl [simp]: "ioframe I w w"
  by (simp add: mframe_ioframe)

lemma ioframe_hwf: "ioframe I w w' \<Longrightarrow> hwf w \<Longrightarrow> hwf w'"
  unfolding ioframe_def by (drule mframe_hwf) simp_all

lemma ioframe_plenty: "ioframe I w w' \<Longrightarrow> plenty w \<Longrightarrow> plenty w'"
  unfolding ioframe_def by (drule mframe_plenty) simp_all

lemma ioframe_blocks: "ioframe I w w' \<Longrightarrow> i < fresh w \<Longrightarrow> i \<notin> I \<Longrightarrow> blocks w' i = blocks w i"
  unfolding ioframe_def by (drule mframe_blocks) simp_all

lemma ioframe_junk: "ioframe I w w' \<Longrightarrow> junk w' = junk w"
  unfolding ioframe_def by (drule mframe_envD(7)) simp

lemma ioframe_fresh: "ioframe I w w' \<Longrightarrow> fresh w \<le> fresh w'"
  unfolding ioframe_def by (drule mframe_fresh) simp

lemma ioframe_trans:
  assumes "ioframe I w w1" and "ioframe J w1 w2" and "\<And>i. i \<in> I \<union> J \<Longrightarrow> i < fresh w \<Longrightarrow> i \<in> K"
  shows "ioframe K w w2"
proof -
  have "blocks w2 i = blocks w i" if "i < fresh w" "i \<notin> K" for i
  proof -
    have "i \<notin> I" "i \<notin> J" using assms(3) that by auto
    with assms(1,2) that show ?thesis by (simp add: ioframe_def mframe_def)
  qed
  moreover have "hwf w \<Longrightarrow> hwf w2"
    using assms(1,2) by (blast intro: ioframe_hwf)
  ultimately show ?thesis
    using assms(1,2) by (simp add: ioframe_def mframe_def same_env_def)
qed

text \<open>The rules of the heap primitives.\<close>

definition malloc_fails :: "size_t \<Rightarrow> world \<Rightarrow> bool" where
  "malloc_fails n w \<longleftrightarrow> 2 ^ 63 \<le> n \<or> (mallocs w \<noteq> [] \<and> hd (mallocs w))"

lemma malloc_fails_errno [simp]: "malloc_fails n (w\<lparr>errno := e\<rparr>) = malloc_fails n w"
  by (simp add: malloc_fails_def)

lemma malloc_small: "\<not> malloc_fails n w \<Longrightarrow> unat n < 2 ^ 63"
  by (simp add: malloc_fails_def word_le_nat_alt)

lemma malloc_wp:
  assumes "\<And>w'. malloc_fails n w \<Longrightarrow> blocks w' = blocks w \<Longrightarrow> fresh w' = fresh w \<Longrightarrow>
      errno w' = ENOMEM \<Longrightarrow> mframe {} w w' \<Longrightarrow> mallocs w' = tl (mallocs w) \<Longrightarrow> Q Null w'"
    and "\<And>w' bs. \<not> malloc_fails n w \<Longrightarrow> length bs = unat n \<Longrightarrow> bs = map (junk w (fresh w)) [0..<unat n] \<Longrightarrow>
      blocks w' = (blocks w)(fresh w \<mapsto> bs) \<Longrightarrow> fresh w' = Suc (fresh w) \<Longrightarrow>
      mframe {} w w' \<Longrightarrow> errno w' = errno w \<Longrightarrow> mallocs w' = tl (mallocs w) \<Longrightarrow> Q (Ptr (fresh w) 0) w'"
  shows "wp (excom_malloc n) Q w"
proof (cases "malloc_fails n w")
  case True
  have "mframe {} w (w\<lparr>mallocs := tl (mallocs w), errno := ENOMEM\<rparr>)"
    by (simp add: mframe_def same_env_def hwf_def)
  with True assms(1) [of "w\<lparr>mallocs := tl (mallocs w), errno := ENOMEM\<rparr>"] show ?thesis
    by (auto simp: wp_def excom_malloc_def malloc_fails_def Let_def)
next
  case False
  let ?w = "w\<lparr>mallocs := tl (mallocs w),
     blocks := (blocks w)(fresh w := Some (map (junk w (fresh w)) [0..<unat n])), fresh := Suc (fresh w)\<rparr>"
  have "mframe {} w ?w"
    by (auto simp: mframe_def same_env_def hwf_def)
  with False assms(2) [of "map (junk w (fresh w)) [0..<unat n]" ?w] show ?thesis
    by (auto simp: wp_def excom_malloc_def malloc_fails_def Let_def)
qed

lemma free_wp:
  assumes "p = Ptr i 0" and "blocks w i \<noteq> None"
    and "\<And>w'. blocks w' = (blocks w)(i := None) \<Longrightarrow> fresh w' = fresh w \<Longrightarrow> mframe {i} w w' \<Longrightarrow>
      errno w' = errno w \<Longrightarrow> mallocs w' = mallocs w \<Longrightarrow> Q () w'"
  shows "wp (excom_free p) Q w"
proof -
  let ?w = "w\<lparr>blocks := (blocks w)(i := None)\<rparr>"
  have "mframe {i} w ?w"
    by (auto simp: mframe_def same_env_def hwf_def)
  with assms show ?thesis
    by (auto simp: wp_def excom_free_def)
qed

lemma free_Null [simp]: "excom_free Null = ret ()"
  by (simp add: excom_free_def ret_def fun_eq_iff)

lemma load_Ptr_wp:
  assumes "blocks w i = Some bs" and "k + n \<le> length bs" and "Q (take n (drop k bs)) w"
  shows "wp (load (Ptr i k) n) Q w"
  using assms by (auto simp: wp_def load_def)

lemma load_Lit [simp]: "n \<le> length bs \<Longrightarrow> load (Lit bs) n = ret (take n bs)"
  by (auto simp: load_def ret_def fun_eq_iff)

lemma load_zero [simp]: "load p 0 = ret []"
  by (simp add: load_def ret_def fun_eq_iff)

lemma store_nil [simp]: "store p [] = ret ()"
  by (simp add: store_def ret_def fun_eq_iff)

lemma store_Ptr_wp:
  assumes "blocks w i = Some bs" and "k + length new \<le> length bs"
    and "\<And>w'. blocks w' = (blocks w)(i := Some (overwrite bs k new)) \<Longrightarrow> fresh w' = fresh w \<Longrightarrow>
      mframe {i} w w' \<Longrightarrow> errno w' = errno w \<Longrightarrow> Q () w'"
  shows "wp (store (Ptr i k) new) Q w"
proof (cases "new = []")
  case True
  have "overwrite bs k [] = bs"
    by (simp add: overwrite_def)
  with True assms show ?thesis
    by (simp add: fun_upd_idem)
next
  case False
  let ?w = "w\<lparr>blocks := (blocks w)(i := Some (overwrite bs k new))\<rparr>"
  have "hwf w \<Longrightarrow> i < fresh w"
    using assms(1) by (simp add: allocated_below_fresh)
  then have "mframe {i} w ?w"
    by (auto simp: mframe_def same_env_def hwf_def)
  with False assms show ?thesis
    by (auto simp: wp_def store_def)
qed

lemma store_whole_wp:
  assumes "blocks w i = Some bs" and "length new = length bs"
    and "\<And>w'. blocks w' = (blocks w)(i := Some new) \<Longrightarrow> fresh w' = fresh w \<Longrightarrow>
      mframe {i} w w' \<Longrightarrow> errno w' = errno w \<Longrightarrow> Q () w'"
  shows "wp (store (Ptr i 0) new) Q w"
  by (rule store_Ptr_wp [OF assms(1)]) (use assms(2,3) in \<open>simp_all add: overwrite_def\<close>)

text \<open>
  \<open>reads w p n bs\<close>: the \<open>n\<close> bytes at \<open>p\<close> can be read in \<open>w\<close> and are \<open>bs\<close>.
\<close>

definition reads :: "world \<Rightarrow> ptr \<Rightarrow> nat \<Rightarrow> byte list \<Rightarrow> bool" where
  "reads w p n bs \<longleftrightarrow> load p n w = Inr (bs, w)"

lemma load_same_world: "load p n w = Inr (bs, w') \<Longrightarrow> w' = w"
  by (auto simp: load_def split: if_splits ptr.splits option.splits)

lemma load_length: "load p n w = Inr (bs, w') \<Longrightarrow> length bs = n"
  by (auto simp: load_def split: if_splits ptr.splits option.splits)

lemma reads_length: "reads w p n bs \<Longrightarrow> length bs = n"
  by (auto simp: reads_def load_def split: if_splits ptr.splits option.splits)

lemma load_wp: "reads w p n bs \<Longrightarrow> Q bs w \<Longrightarrow> wp (load p n) Q w"
  by (simp add: wp_def reads_def)

lemma reads_Lit [simp]: "n \<le> length bs \<Longrightarrow> reads w (Lit bs) n xs \<longleftrightarrow> xs = take n bs"
  by (auto simp: reads_def ret_def)

lemma reads_0 [simp]: "reads w p 0 bs \<longleftrightarrow> bs = []"
  by (auto simp: reads_def ret_def)

lemma reads_Ptr:
  "0 < n \<Longrightarrow> reads w (Ptr i k) n xs \<longleftrightarrow>
     (\<exists>bs. blocks w i = Some bs \<and> k + n \<le> length bs \<and> xs = take n (drop k bs))"
  by (auto simp: reads_def load_def split: option.splits)

lemma reads_Null: "0 < n \<Longrightarrow> \<not> reads w Null n xs"
  by (simp add: reads_def load_def)

lemma reads_new: "blocks w i = Some (bs @ xs) \<Longrightarrow> length bs = n \<Longrightarrow> reads w (Ptr i 0) n bs"
  by (auto simp: reads_def load_def)

lemma reads_errno [simp]: "reads (w\<lparr>errno := e\<rparr>) p n bs = reads w p n bs"
  by (auto simp: reads_def load_def split: ptr.splits option.splits)

text \<open>The block a pointer points into; what can be read there survives a frame that leaves it alone.\<close>

definition pids :: "ptr \<Rightarrow> nat set" where
  "pids p = (case p of Ptr i _ \<Rightarrow> {i} | _ \<Rightarrow> {})"

lemma pids_simps [simp]: "pids Null = {}" "pids (Lit bs) = {}" "pids (Ptr i k) = {i}"
  by (simp_all add: pids_def)

lemma reads_mframe:
  assumes "reads w p n bs" and "mframe I w w'" and "hwf w" and "pids p \<inter> I = {}"
  shows "reads w' p n bs"
proof (cases p)
  case (Ptr i k)
  show ?thesis
  proof (cases "n = 0")
    case True
    then show ?thesis using assms(1) by simp
  next
    case False
    with assms(1) Ptr obtain xs where xs: "blocks w i = Some xs" "k + n \<le> length xs" "bs = take n (drop k xs)"
      by (auto simp: reads_Ptr)
    have "i < fresh w" and "i \<notin> I"
      using assms(3,4) Ptr xs(1) by (auto dest: allocated_below_fresh)
    then have "blocks w' i = blocks w i"
      using assms(2) by (simp add: mframe_blocks)
    with False Ptr xs show ?thesis by (simp add: reads_Ptr)
  qed
qed (use assms(1) in \<open>auto simp: reads_def load_def split: if_splits\<close>)


text \<open>\<open>randombytes_buf\<close>: the next bytes of the entropy of the world, zeros past its end.\<close>

definition randombytes_buf :: "nat \<Rightarrow> byte list cmd" where
  "randombytes_buf n = (\<lambda>w. Inr (take n (entropy w @ replicate n 0), w\<lparr>entropy := drop n (entropy w)\<rparr>))"

definition randomness :: "nat \<Rightarrow> world \<Rightarrow> byte list" where
  "randomness n w = take n (entropy w @ replicate n 0)"

definition drawn :: "nat \<Rightarrow> world \<Rightarrow> world" where
  "drawn n w = w\<lparr>entropy := drop n (entropy w)\<rparr>"

lemma length_randomness [simp]: "length (randomness n w) = n"
  by (simp add: randomness_def)

lemma wp_randombytes [simp]: "wp (randombytes_buf n) Q w = Q (randomness n w) (drawn n w)"
  by (simp add: wp_def randombytes_buf_def randomness_def drawn_def)

lemma drawn_simps [simp]:
  "blocks (drawn n w) = blocks w" "fresh (drawn n w) = fresh w" "errno (drawn n w) = errno w"
  "mallocs (drawn n w) = mallocs w" "wire (drawn n w) = wire w" "outs (drawn n w) = outs w"
  "ins (drawn n w) = ins w" "little (drawn n w) = little w" "slack (drawn n w) = slack w"
  "junk (drawn n w) = junk w" "minits (drawn n w) = minits w" "entropy (drawn n w) = drop n (entropy w)"
  "hwf (drawn n w) = hwf w" "plenty (drawn n w) = plenty w" "malloc_fails k (drawn n w) = malloc_fails k w"
  by (simp_all add: drawn_def hwf_def plenty_def malloc_fails_def)

lemma drawn_drawn [simp]: "drawn m (drawn n w) = drawn (m + n) w"
  by (simp add: drawn_def)

lemma drawn_0 [simp]: "drawn 0 w = w"
  by (simp add: drawn_def)

lemma reads_drawn [simp]: "reads (drawn k w) p n bs = reads w p n bs"
  by (auto simp: reads_def load_def split: ptr.splits option.splits)

lemma ioframe_drawn [simp]: "ioframe I w (drawn n w)"
  by (simp add: ioframe_def mframe_def same_env_def drawn_def hwf_def)

text \<open>All the bytes that can be read from a pointer on, and the length of a C string there.\<close>

definition peek :: "ptr \<Rightarrow> byte list cmd" where
  "peek p = (\<lambda>w. case p of
       Null \<Rightarrow> Inl NullDeref
     | Ptr i k \<Rightarrow> (case blocks w i of
           None \<Rightarrow> Inl UseAfterFree
         | Some bs \<Rightarrow> if k \<le> length bs then Inr (drop k bs, w) else Inl OutOfBounds)
     | Lit bs \<Rightarrow> Inr (bs, w))"

definition strlen :: "ptr \<Rightarrow> nat cmd" where
  "strlen p = bind (peek p) (\<lambda>bs.
     if 0 \<in> set bs then ret (length (takeWhile (\<lambda>c. c \<noteq> 0) bs)) else fail OutOfBounds)"

definition cstr :: "world \<Rightarrow> ptr \<Rightarrow> byte list \<Rightarrow> bool" where
  "cstr w p bs \<longleftrightarrow> 0 \<notin> set bs \<and> reads w p (Suc (length bs)) (bs @ [0])"

lemma reads_take: "reads w p n bs \<Longrightarrow> m \<le> n \<Longrightarrow> reads w p m (take m bs)"
  by (auto simp: reads_def load_def min_def split: if_splits ptr.splits option.splits)

lemma cstr_reads: "cstr w p bs \<Longrightarrow> reads w p (length bs) bs"
  unfolding cstr_def by (elim conjE, drule reads_take [where m = "length bs"]) simp_all

lemma peek_reads:
  assumes "reads w p n bs" and "0 < n"
  shows "\<exists>r. peek p w = Inr (bs @ r, w)"
proof (cases p)
  case (Ptr i k)
  then obtain xs where "blocks w i = Some xs" "k + n \<le> length xs" "bs = take n (drop k xs)"
    using assms by (auto simp: reads_Ptr)
  then show ?thesis
    using Ptr by (intro exI [of _ "drop n (drop k xs)"]) (simp add: peek_def del: drop_drop)
next
  case (Lit xs)
  then have "bs = take n xs"
    using assms by (auto simp: reads_def load_def split: if_splits)
  then show ?thesis
    using Lit by (intro exI [of _ "drop n xs"]) (simp add: peek_def)
qed (use assms in \<open>auto simp: reads_def load_def\<close>)

lemma peek_wp:
  assumes "reads w p n bs" and "0 < n" and "\<And>r. Q (bs @ r) w"
  shows "wp (peek p) Q w"
  using peek_reads [OF assms(1,2)] assms(3) by (auto simp: wp_def)

lemma strlen_wp:
  assumes "cstr w p bs" and "Q (length bs) w"
  shows "wp (strlen p) Q w"
proof -
  have "takeWhile (\<lambda>c. c \<noteq> 0) ((bs @ [0]) @ r) = bs" if "0 \<notin> set bs" for r
    using that by (subst append.assoc, subst takeWhile_append2) auto
  then show ?thesis
    unfolding strlen_def wp_bind using assms
    by (auto simp: cstr_def intro!: peek_wp)
qed

lemma cstr_mframe: "cstr w p bs \<Longrightarrow> mframe I w w' \<Longrightarrow> hwf w \<Longrightarrow> pids p \<inter> I = {} \<Longrightarrow> cstr w' p bs"
  unfolding cstr_def by (blast intro: reads_mframe)

text \<open>
  A concrete world for closed instances: an empty heap, fresh bytes read 170, nothing fails, a
  little-endian host.
\<close>

definition idle_world :: world where
  "idle_world = \<lparr>blocks = (\<lambda>_. None), fresh = 0, junk = (\<lambda>_ _. 170), mallocs = [], minits = [],
     errno = 0, outs = [], ins = [], wire = (\<lambda>_. []), entropy = [], little = True, slack = 1\<rparr>"

lemma idle_world_simps [simp]:
  "blocks idle_world i = None" "fresh idle_world = 0" "junk idle_world i k = 170"
  "mallocs idle_world = []" "minits idle_world = []" "errno idle_world = 0"
  "outs idle_world = []" "ins idle_world = []" "wire idle_world d = []" "entropy idle_world = []"
  "little idle_world" "slack idle_world = 1"
  "hwf idle_world" "plenty idle_world"
  by (simp_all add: idle_world_def hwf_def plenty_def)

lemma malloc_succeeds: "plenty w \<Longrightarrow> n < 2 ^ 63 \<Longrightarrow> \<not> malloc_fails n w"
  by (simp add: malloc_fails_def plenty_def not_le)

end
