(* ===== verification/XString.thy ===== *)
theory XString
  imports Prelude
begin

text \<open>
  The strings of \<open>src/excom/string.c\<close> and \<open>inc/excom/string.h\<close>: a 32-bit size, a pointer to
  the body (not NUL terminated in general) and whether the body may be freed. The functions
  that fill a caller's struct return the new struct; those that allocate also return the error
  code. The lemmas give the exact effect of \<open>excom_string_dup\<close> and \<open>excom_string_dupfill\<close> on
  every branch, the 32-bit overflow of their size computation, and that destroying a duplicate
  gives the heap back.
\<close>

section \<open>Model\<close>

record xstring =
  s_size :: u32
  s_body :: ptr
  s_freeable :: bool

definition excom_string_init :: xstring where
  "excom_string_init = \<lparr>s_size = 0, s_body = Null, s_freeable = False\<rparr>"

definition excom_string_fill :: "xstring \<Rightarrow> u32 \<Rightarrow> ptr \<Rightarrow> xstring" where
  "excom_string_fill string sz body = string\<lparr>s_size := sz, s_body := body\<rparr>"

text \<open>The bytes \<open>excom_string_inspect\<close> prints: the body, then a newline.\<close>

definition excom_string_inspect :: "xstring \<Rightarrow> byte list cmd" where
  "excom_string_inspect string =
     bind (load (s_body string) (unat (s_size string))) (\<lambda>bs. ret (bs @ [10]))"

definition excom_string_dup :: "xstring \<Rightarrow> (int \<times> xstring) cmd" where
  "excom_string_dup string =
     bind (set_errno 0) (\<lambda>_.
     let out = excom_string_init in
     if s_size string = 0 then ret (0, out)
     else
       bind (excom_malloc (ucast (s_size string + 1))) (\<lambda>buf.
       if buf = Null then
         bind (asks errno) (\<lambda>err.
         bind (set_errno 0) (\<lambda>_.
         ret (err, out\<lparr>s_size := 0, s_body := Null\<rparr>)))
       else
         bind (memcpy buf (s_body string) (unat (s_size string))) (\<lambda>_.
         bind (store (ptr_add buf (unat (s_size string))) [0]) (\<lambda>_.
         ret (0, out\<lparr>s_freeable := True, s_size := s_size string, s_body := buf\<rparr>)))))"

definition excom_string_dupfill :: "xstring \<Rightarrow> u32 \<Rightarrow> ptr \<Rightarrow> (int \<times> xstring) cmd" where
  "excom_string_dupfill string sz body =
     (if sz = 0 then ret (0, string\<lparr>s_size := 0, s_body := Null, s_freeable := False\<rparr>)
      else
        bind (excom_malloc (ucast (sz + 1))) (\<lambda>buf.
        if buf = Null then ret (1, string)
        else
          bind (memcpy buf body (unat sz)) (\<lambda>_.
          bind (store (ptr_add buf (unat sz)) [0]) (\<lambda>_.
          ret (0, string\<lparr>s_size := sz, s_body := buf, s_freeable := True\<rparr>)))))"

definition excom_string_destroy :: "xstring \<Rightarrow> unit cmd" where
  "excom_string_destroy string = (if s_freeable string then excom_free (s_body string) else ret ())"

definition excom_string_freeable :: "xstring \<Rightarrow> xstring" where
  "excom_string_freeable str = str\<lparr>s_freeable := True\<rparr>"

definition excom_string_unfreeable :: "xstring \<Rightarrow> xstring" where
  "excom_string_unfreeable str = str\<lparr>s_freeable := False\<rparr>"

definition excom_string_isfreeable :: "xstring \<Rightarrow> bool" where
  "excom_string_isfreeable str = s_freeable str"

section \<open>Library lemmas\<close>

text \<open>\<open>str_val w s bs\<close>: in \<open>w\<close> the string \<open>s\<close> is the bytes \<open>bs\<close>.\<close>

definition str_val :: "world \<Rightarrow> xstring \<Rightarrow> byte list \<Rightarrow> bool" where
  "str_val w s bs \<longleftrightarrow> reads w (s_body s) (unat (s_size s)) bs"

lemma str_val_length: "str_val w s bs \<Longrightarrow> length bs = unat (s_size s)"
  by (simp add: str_val_def reads_length)

lemma str_val_mframe:
  "str_val w s bs \<Longrightarrow> mframe I w w' \<Longrightarrow> hwf w \<Longrightarrow> pids (s_body s) \<inter> I = {} \<Longrightarrow> str_val w' s bs"
  unfolding str_val_def by (rule reads_mframe)

lemma unat_u32_succ:
  fixes n :: u32
  assumes "n \<noteq> - 1"
  shows "unat (n + 1) = Suc (unat n)"
  using assms unatSuc [of n] by (metis add.commute eq_neg_iff_add_eq_0)

lemma u32_succ_small:
  fixes n :: u32
  shows "\<not> 2 ^ 63 \<le> (ucast (n + 1) :: size_t)"
  using unat_u32_bound [of "n + 1"] by (simp add: word_le_nat_alt)

text \<open>The copy both duplicating functions make: the body and a NUL into a new block.\<close>

lemma dup_copy_wp:
  fixes n :: u32
  assumes bs: "reads w body (unat n) bs" and n: "n \<noteq> 0" "n \<noteq> - 1" and wf: "hwf w"
    and oom: "malloc_fails (ucast (n + 1)) w \<Longrightarrow>
      \<forall>w'. blocks w' = blocks w \<longrightarrow> fresh w' = fresh w \<longrightarrow> errno w' = ENOMEM \<longrightarrow> mframe {} w w' \<longrightarrow> wp F Q w'"
    and ok: "\<not> malloc_fails (ucast (n + 1)) w \<Longrightarrow>
      \<forall>w'. blocks w' = (blocks w)(fresh w \<mapsto> bs @ [0]) \<longrightarrow> fresh w' = Suc (fresh w) \<longrightarrow>
        mframe {} w w' \<longrightarrow> errno w' = errno w \<longrightarrow> Q (R (Ptr (fresh w) 0)) w'"
  shows "wp (bind (excom_malloc (ucast (n + 1))) (\<lambda>buf.
           if buf = Null then F
           else bind (memcpy buf body (unat n)) (\<lambda>_.
                bind (store (ptr_add buf (unat n)) [0]) (\<lambda>_. ret (R buf))))) Q w"
  unfolding wp_bind
proof (rule malloc_wp, goal_cases)
  case (1 w')
  then show ?case using oom by simp
next
  case (2 w1 js)
  have js: "length js = Suc (unat n)"
    using 2(2) n by (simp add: unat_u32_succ)
  have len: "length bs = unat n"
    using bs by (rule reads_length)
  have r1: "reads w1 body (unat n) bs"
    using bs 2(6) wf by (rule reads_mframe) simp
  show ?case
    unfolding memcpy_def wp_bind if_not_P [OF ptr.distinct(2)]
  proof (simp, rule load_wp [OF r1], rule store_Ptr_wp [where bs = js], goal_cases)
    case (3 w2)
    show ?case
    proof (rule store_Ptr_wp [where bs = "overwrite js 0 bs"], goal_cases)
      case 1
      show ?case using 3(1) by simp
    next
      case 2
      show ?case using js len by simp
    next
      case (3 w3)
      have eq: "overwrite (overwrite js 0 bs) (unat n) [0] = bs @ [0]"
        using js len by (simp add: overwrite_def)
      have "mframe {} w w2"
        using 2(6) \<open>mframe {fresh w} w1 w2\<close> by (rule mframe_trans) auto
      then have "mframe {} w w3"
        using 3(3) by (rule mframe_trans) auto
      then show ?case
        using ok 2 3 \<open>blocks w2 = _\<close> \<open>fresh w2 = _\<close> \<open>errno w2 = _\<close> eq by simp
    qed
  qed (use 2 js len in auto)
qed


lemma string_dup_step:
  assumes "hwf w" and "str_val w s bs" and "s_size s \<noteq> 0" and "s_size s \<noteq> 0xFFFFFFFF"
  shows "wp (excom_string_dup s) (\<lambda>(r, out) w'.
    if malloc_fails (ucast (s_size s + 1)) w
    then r = ENOMEM \<and> out = excom_string_init \<and> blocks w' = blocks w
    else r = 0 \<and> out = \<lparr>s_size = s_size s, s_body = Ptr (fresh w) 0, s_freeable = True\<rparr> \<and>
         blocks w' = (blocks w)(fresh w \<mapsto> bs @ [0]) \<and> str_val w' out bs \<and> str_val w' s bs) w"
proof -
  let ?w = "w\<lparr>errno := 0\<rparr>"
  have rd: "reads ?w (s_body s) (unat (s_size s)) bs" and max: "s_size s \<noteq> - 1"
    using assms(2,4) by (auto simp: str_val_def)
  note len = str_val_length [OF assms(2)]
  have keep: "reads w' (s_body s) (unat (s_size s)) bs" if "mframe {} w w'" for w'
    using assms(2) that assms(1) unfolding str_val_def by (rule reads_mframe) simp
  show ?thesis
    unfolding excom_string_dup_def set_errno_def Let_def
    using assms(3)
    by (simp only: wp_bind wp_modify if_False)
       (subst wp_bind [symmetric], rule dup_copy_wp [OF rd],
        auto simp: assms max excom_string_init_def set_errno_def keep str_val_def
          intro!: reads_new len)
qed

text \<open>When nothing fails: the string owns a new block, or is empty and owns none.\<close>

definition str_ids :: "xstring \<Rightarrow> nat set" where
  "str_ids s = pids (s_body s)"

lemma dupfill_ready:
  assumes "hwf w" and "plenty w" and "reads w body (unat sz) bs" and "sz \<noteq> 0xFFFFFFFF"
  shows "wp (excom_string_dupfill s sz body) (\<lambda>(r, s') w'. r = 0 \<and> s_size s' = sz \<and> str_val w' s' bs \<and>
    mframe {} w w' \<and> hwf w' \<and> plenty w' \<and> errno w' = errno w \<and> (s_freeable s' \<longleftrightarrow> sz \<noteq> 0) \<and>
    (\<forall>i. fresh w \<le> i \<longrightarrow> i \<notin> str_ids s' \<longrightarrow> blocks w' i = None) \<and>
    (\<forall>i \<in> str_ids s'. fresh w \<le> i \<and> i < fresh w')) w"
proof (cases "sz = 0")
  case True
  then have "bs = []" using assms(3) by simp
  then show ?thesis
    using True assms by (auto simp: excom_string_dupfill_def str_val_def str_ids_def hwf_def)
next
  case False
  have max: "sz \<noteq> - 1" using assms(4) by auto
  have mf: "\<not> malloc_fails (ucast (sz + 1)) w"
    using assms(2) u32_succ_small [of sz] by (intro malloc_succeeds) simp_all
  show ?thesis
    unfolding excom_string_dupfill_def if_not_P [OF False]
  proof (rule dup_copy_wp [OF assms(3) False max assms(1)], goal_cases)
    case 2
    show ?case
    proof (intro allI impI)
      fix w' assume w': "blocks w' = (blocks w)(fresh w \<mapsto> bs @ [0])" "fresh w' = Suc (fresh w)" "mframe {} w w'"
        "errno w' = errno w"
      have "str_val w' (s\<lparr>s_size := sz, s_body := Ptr (fresh w) 0, s_freeable := True\<rparr>) bs"
        using w'(1) reads_length [OF assms(3)] by (auto simp: str_val_def intro!: reads_new)
      then show "(\<lambda>(r, s') w'. r = 0 \<and> s_size s' = sz \<and> str_val w' s' bs \<and>
          mframe {} w w' \<and> hwf w' \<and> plenty w' \<and> errno w' = errno w \<and> (s_freeable s' \<longleftrightarrow> sz \<noteq> 0) \<and>
          (\<forall>i. fresh w \<le> i \<longrightarrow> i \<notin> str_ids s' \<longrightarrow> blocks w' i = None) \<and>
          (\<forall>i \<in> str_ids s'. fresh w \<le> i \<and> i < fresh w'))
        (0, s\<lparr>s_size := sz, s_body := Ptr (fresh w) 0, s_freeable := True\<rparr>) w'"
        using w' False assms(1,2) mframe_hwf [OF w'(3)] mframe_plenty [OF w'(3)]
        by (auto simp: str_ids_def hwf_def)
    qed
  qed (use mf in simp)
qed

section \<open>Properties\<close>

text \<open>
  Duplicating a non-empty string whose body is readable: when malloc fails the result is
  ENOMEM and an empty string, otherwise a freeable string of the same size in a block that
  was not allocated before and that holds the same bytes and a NUL; the original keeps its bytes
  and no other block changes.
\<close>

theorem string_dup_correct:
  assumes "hwf w" and "str_val w s bs" and "s_size s \<noteq> 0" and "s_size s \<noteq> 0xFFFFFFFF"
  shows "wp (excom_string_dup s) (\<lambda>(r, out) w'.
    if malloc_fails (ucast (s_size s + 1)) w
    then r = ENOMEM \<and> out = excom_string_init \<and> blocks w' = blocks w
    else r = 0 \<and> out = \<lparr>s_size = s_size s, s_body = Ptr (fresh w) 0, s_freeable = True\<rparr> \<and>
         blocks w' = (blocks w)(fresh w \<mapsto> bs @ [0]) \<and> str_val w' out bs \<and> str_val w' s bs) w"
  using assms by (rule string_dup_step)

text \<open>
  \<open>excom_string_dupfill\<close> on a non-empty readable body: 1 and the string unchanged when malloc
  fails, otherwise 0 and the string owns a new block with exactly the given bytes and a NUL.
\<close>

theorem string_dupfill_correct:
  assumes "hwf w" and "reads w body (unat sz) bs" and "sz \<noteq> 0" and "sz \<noteq> 0xFFFFFFFF"
  shows "wp (excom_string_dupfill s sz body) (\<lambda>(r, s') w'.
    if malloc_fails (ucast (sz + 1)) w then r = 1 \<and> s' = s \<and> blocks w' = blocks w
    else r = 0 \<and> s_size s' = sz \<and> s_freeable s' \<and> s_body s' = Ptr (fresh w) 0 \<and>
         blocks w' = (blocks w)(fresh w \<mapsto> bs @ [0]) \<and> str_val w' s' bs) w"
proof -
  have max: "sz \<noteq> - 1" using assms(4) by auto
  show ?thesis
    unfolding excom_string_dupfill_def
    using assms(3)
    by (simp only: if_False)
       (rule dup_copy_wp [OF assms(2)],
        auto simp: assms max str_val_def intro!: reads_new reads_length [OF assms(2)])
qed

text \<open>
  A size of 0xFFFFFFFF wraps the allocation size to 0: whatever the body is, unless malloc
  refuses the empty block, \<open>excom_string_dupfill\<close> reads or writes out of bounds.
\<close>

theorem string_dupfill_overflow:
  assumes "\<not> malloc_fails 0 w"
  shows "\<exists>f. excom_string_dupfill s 0xFFFFFFFF body w = Inl f"
  using assms
  by (auto simp: excom_string_dupfill_def bind_def excom_malloc_def malloc_fails_def Let_def memcpy_def
      load_def store_def split: ptr.splits option.splits)

theorem string_dupfill_overflow_witness:
  "\<exists>f. excom_string_dupfill excom_string_init 0xFFFFFFFF (Lit [1, 2, 3]) idle_world = Inl f"
  by (rule string_dupfill_overflow) (simp add: malloc_fails_def)


text \<open>
  Duplicating and destroying the duplicate gives the heap back as it was, also when malloc
  fails or the string is empty: nothing leaks.
\<close>

theorem string_dup_destroy:
  assumes "hwf w" and "str_val w s bs" and "s_size s \<noteq> 0xFFFFFFFF"
  shows "wp (bind (excom_string_dup s) (\<lambda>(r, out). excom_string_destroy out))
           (\<lambda>_ w'. blocks w' = blocks w) w"
proof (cases "s_size s = 0")
  case True
  then show ?thesis
    by (simp add: excom_string_dup_def excom_string_destroy_def excom_string_init_def set_errno_def)
next
  case False
  have undo: "(blocks w)(fresh w := None) = blocks w"
    using assms(1) by (simp add: hwf_def fun_upd_idem)
  show ?thesis
    unfolding wp_bind
    by (rule wp_mono [OF string_dup_step [OF assms(1,2) False assms(3)]])
       (auto simp: excom_string_destroy_def excom_string_init_def undo intro!: free_wp split: if_splits)
qed

text \<open>Instances: the string "abc" held in a literal.\<close>

definition abc_string :: xstring where
  "abc_string = \<lparr>s_size = 3, s_body = Lit [97, 98, 99], s_freeable = False\<rparr>"

lemma abc_string_simps [simp]:
  "s_size abc_string = 3" "s_body abc_string = Lit [97, 98, 99]" "\<not> s_freeable abc_string"
  "str_val w abc_string bs \<longleftrightarrow> bs = [97, 98, 99]"
  by (simp_all add: abc_string_def str_val_def)

theorem string_dup_correct_witness:
  "wp (excom_string_dup abc_string) (\<lambda>(r, out) w'. r = 0 \<and> str_val w' out [97, 98, 99]) idle_world"
  by (rule wp_mono [OF string_dup_correct [of idle_world abc_string "[97, 98, 99]"]])
     (auto simp: malloc_fails_def)

theorem string_dupfill_correct_witness:
  "wp (excom_string_dupfill abc_string 2 (Lit [1, 2, 3])) (\<lambda>(r, s') w'. r = 0 \<and> str_val w' s' [1, 2])
     idle_world"
  by (rule wp_mono [OF string_dupfill_correct [of idle_world "Lit [1, 2, 3]" 2 "[1, 2]"]])
     (auto simp: malloc_fails_def)

theorem string_dup_destroy_witness:
  "wp (bind (excom_string_dup abc_string) (\<lambda>(r, out). excom_string_destroy out))
     (\<lambda>_ w'. blocks w' = (\<lambda>_. None)) idle_world"
  using string_dup_destroy [of idle_world abc_string "[97, 98, 99]"]
  by (simp add: idle_world_def hwf_def)

end
