(* ===== verification/Sink.thy ===== *)
theory Sink
  imports Prelude
begin

text \<open>
  The interface the writers of the wire format rely on: something bytes can be appended to. An
  instance says when it is usable (\<open>ready\<close>), what it holds, how a run on it may change the world
  (\<open>step\<close>, a preorder) and how many bytes it can take (\<open>cap\<close>); the law is that an append
  succeeds, keeps it usable and adds exactly the bytes. The lemma proved from the law is the
  effect of a sequence of appends that stops at the first error. The instance is the buffer, in
  theory \<open>Buffer\<close>.
\<close>

primrec put_all :: "('s \<Rightarrow> byte list \<Rightarrow> (int \<times> 's) cmd) \<Rightarrow> 's \<Rightarrow> byte list list \<Rightarrow> (int \<times> 's) cmd" where
  "put_all put s [] = ret (0, s)"
| "put_all put s (x # xs) = bind (put s x) (\<lambda>(r, s'). if r \<noteq> 0 then ret (r, s') else put_all put s' xs)"

locale byte_sink =
  fixes ready :: "world \<Rightarrow> 's \<Rightarrow> bool" and held :: "world \<Rightarrow> 's \<Rightarrow> byte list"
    and step :: "world \<Rightarrow> 's \<Rightarrow> world \<Rightarrow> 's \<Rightarrow> bool"
    and put :: "'s \<Rightarrow> byte list \<Rightarrow> (int \<times> 's) cmd" and cap :: nat
  assumes step_refl: "ready w s \<Longrightarrow> step w s w s"
    and step_trans: "step w s w1 s1 \<Longrightarrow> step w1 s1 w2 s2 \<Longrightarrow> step w s w2 s2"
    and put_wp: "ready w s \<Longrightarrow> length (held w s) + length bs < cap \<Longrightarrow>
      wp (put s bs) (\<lambda>(r, s') w'. r = 0 \<and> ready w' s' \<and> step w s w' s' \<and> held w' s' = held w s @ bs) w"
begin

lemma put_all_wp:
  assumes "ready w s" and "length (held w s) + length (concat xs) < cap"
  shows "wp (put_all put s xs) (\<lambda>(r, s') w'. r = 0 \<and> ready w' s' \<and> step w s w' s' \<and>
           held w' s' = held w s @ concat xs) w"
  using assms
proof (induction xs arbitrary: w s)
  case Nil
  then show ?case by (simp add: step_refl)
next
  case (Cons x xs)
  have x: "length (held w s) + length x < cap" using Cons.prems(2) by simp
  show ?case
    unfolding put_all.simps wp_bind
  proof (rule wp_mono [OF put_wp [OF Cons.prems(1) x]], clarsimp, goal_cases)
    case (1 s1 w1)
    have "length (held w1 s1) + length (concat xs) < cap" using 1 Cons.prems(2) by simp
    from Cons.IH [OF 1(1) this] show ?case
      by (rule wp_mono) (use 1 in \<open>auto intro: step_trans\<close>)
  qed
qed

end

end
