(* ===== verification/Buffer.thy ===== *)
theory Buffer
  imports XString Sink
begin

text \<open>
  The growable byte buffer, \<open>src/excom/buffer.c\<close> and \<open>inc/excom/buffer.h\<close>. A buffer passed by
  pointer is a record passed in and returned updated. \<open>b_pos\<close> is the read position as its
  distance from \<open>b_buf\<close> (the code always sets the two pointers together); sizes are 64-bit
  words, so their arithmetic wraps as \<open>size_t\<close> does. Two buffers passed to one function are
  distinct structs, as at every call in the code.

  The lemmas: the invariant \<open>buf_ok\<close> (the block has \<open>b_max\<close> bytes, \<open>b_pos \<le> b_used \<le> b_max\<close>, a
  destroyed buffer is empty) is kept by every operation; the bytes held (\<open>contents\<close>) and still to
  be read (\<open>pending\<close>) after each operation; termination and divergence of the resize loop; the
  mutex is free again after every operation; and the branches on which the code misreports or
  overruns when memory runs out.
\<close>

section \<open>Model\<close>

record buffer =
  b_init :: size_t
  b_max :: size_t
  b_used :: size_t
  b_pos :: size_t
  b_buf :: ptr
  b_unmutable :: bool
  b_freeable :: bool
  b_mutex :: mutex

definition excom_buffer_remaining :: "buffer \<Rightarrow> size_t" where
  "excom_buffer_remaining buffer = b_used buffer - b_pos buffer"

definition excom_buffer_init :: "buffer \<Rightarrow> size_t \<Rightarrow> (int \<times> buffer) cmd" where
  "excom_buffer_init buffer start =
     (let buffer = buffer\<lparr>b_init := start, b_max := start, b_used := 0,
                          b_unmutable := False, b_freeable := True\<rparr>
      in bind (excom_malloc start) (\<lambda>p.
         let buffer = buffer\<lparr>b_buf := p, b_pos := 0\<rparr>
         in if p = Null then bind excom_return_errno (\<lambda>err. ret (err, buffer))
            else bind mutex_init (\<lambda>e.
              if e \<noteq> 0 then bind excom_return_errno (\<lambda>err. ret (err, buffer))
              else ret (0, buffer\<lparr>b_mutex := False\<rparr>))))"

definition excom_buffer_destroy :: "buffer \<Rightarrow> buffer cmd" where
  "excom_buffer_destroy buffer =
     bind (if b_freeable buffer then excom_free (b_buf buffer) else ret ()) (\<lambda>_.
     ret (buffer\<lparr>b_max := 0, b_used := 0, b_buf := Null, b_pos := 0\<rparr>))"

definition lock_buffer :: "buffer \<Rightarrow> buffer cmd" where
  "lock_buffer buffer = bind (mutex_lock (b_mutex buffer)) (\<lambda>m. ret (buffer\<lparr>b_mutex := m\<rparr>))"

definition unlock_buffer :: "buffer \<Rightarrow> buffer cmd" where
  "unlock_buffer buffer = bind (mutex_unlock (b_mutex buffer)) (\<lambda>m. ret (buffer\<lparr>b_mutex := m\<rparr>))"

definition excom_buffer_reset :: "buffer \<Rightarrow> (int \<times> buffer) cmd" where
  "excom_buffer_reset buffer =
     bind (lock_buffer buffer) (\<lambda>buffer.
     bind (excom_buffer_destroy buffer) (\<lambda>buffer.
     let buffer = buffer\<lparr>b_max := b_init buffer, b_used := 0, b_unmutable := False,
                         b_freeable := True\<rparr>
     in bind (excom_malloc (b_max buffer)) (\<lambda>p.
     let buffer = buffer\<lparr>b_buf := p, b_pos := 0\<rparr>
     in if p = Null then
          bind (asks errno) (\<lambda>err.
          bind (set_errno 0) (\<lambda>_.
          bind (unlock_buffer buffer) (\<lambda>buffer. ret (err, buffer))))
        else bind (unlock_buffer buffer) (\<lambda>buffer. ret (0, buffer)))))"

text \<open>
  The loop of \<open>excom_buffer_resize\<close>, \<open>do new_size *= 2; while(new_size < to_fit)\<close>; None is a
  loop that does not end.
\<close>

partial_function (option) grow :: "size_t \<Rightarrow> size_t \<Rightarrow> size_t option" where
  "grow new_size to_fit =
     (let new_size = new_size * 2
      in if new_size < to_fit then grow new_size to_fit else Some new_size)"

text \<open>The position is kept in a \<open>uint32_t\<close> while the block is replaced.\<close>

definition excom_buffer_resize :: "buffer \<Rightarrow> size_t \<Rightarrow> (int \<times> buffer) cmd" where
  "excom_buffer_resize buffer to_fit =
     (let new_size = (if b_max buffer = 0 then 1 else b_max buffer)
      in case grow new_size to_fit of
           None \<Rightarrow> fail Diverges
         | Some new_size \<Rightarrow>
             bind (excom_malloc new_size) (\<lambda>new_buf.
             if new_buf = Null then bind excom_return_errno (\<lambda>err. ret (err, buffer))
             else
               bind (memcpy new_buf (b_buf buffer) (unat (b_used buffer))) (\<lambda>_.
               let distance = (ucast (b_pos buffer) :: u32)
               in bind (excom_free (b_buf buffer)) (\<lambda>_.
                  ret (0, buffer\<lparr>b_buf := new_buf, b_pos := ucast distance, b_max := new_size\<rparr>)))))"

definition excom_buffer_cappend :: "buffer \<Rightarrow> ptr \<Rightarrow> size_t \<Rightarrow> (int \<times> buffer) cmd" where
  "excom_buffer_cappend buffer str sz =
     (if b_unmutable buffer then ret (EACCES, buffer)
      else
        bind (lock_buffer buffer) (\<lambda>buffer.
        bind (if b_used buffer + sz > b_max buffer
              then excom_buffer_resize buffer (b_used buffer + sz) else ret (0, buffer))
          (\<lambda>(chk, buffer).
        if chk \<noteq> 0 then
          bind (asks errno) (\<lambda>err.
          bind (set_errno 0) (\<lambda>_.
          bind (unlock_buffer buffer) (\<lambda>buffer. ret (err, buffer))))
        else
          bind (memcpy (ptr_add (b_buf buffer) (unat (b_used buffer))) str (unat sz)) (\<lambda>_.
          bind (unlock_buffer (buffer\<lparr>b_used := b_used buffer + sz\<rparr>)) (\<lambda>buffer.
          ret (0, buffer))))))"

text \<open>\<open>excom_buffer_sappend\<close> does not look at what \<open>excom_buffer_resize\<close> returns.\<close>

definition excom_buffer_sappend :: "buffer \<Rightarrow> xstring \<Rightarrow> (int \<times> buffer) cmd" where
  "excom_buffer_sappend buffer str =
     (if b_unmutable buffer then ret (EACCES, buffer)
      else
        bind (lock_buffer buffer) (\<lambda>buffer.
        bind (if b_used buffer + ucast (s_size str) > b_max buffer
              then excom_buffer_resize buffer (b_used buffer + ucast (s_size str)) else ret (0, buffer))
          (\<lambda>(_, buffer).
        bind (memcpy (ptr_add (b_buf buffer) (unat (b_used buffer))) (s_body str) (unat (s_size str))) (\<lambda>_.
        bind (unlock_buffer (buffer\<lparr>b_used := b_used buffer + ucast (s_size str)\<rparr>)) (\<lambda>buffer.
        ret (0, buffer))))))"

definition excom_buffer_bappend2 :: "buffer \<Rightarrow> buffer \<Rightarrow> size_t \<Rightarrow> (int \<times> buffer) cmd" where
  "excom_buffer_bappend2 buffer src amount =
     (if b_unmutable buffer then ret (EACCES, buffer)
      else if amount = 0 then ret (0, buffer)
      else
        bind (lock_buffer buffer) (\<lambda>buffer.
        bind (if b_used buffer + amount > b_max buffer
              then excom_buffer_resize buffer (b_used buffer + amount) else ret (0, buffer))
          (\<lambda>(chk, buffer).
        if chk \<noteq> 0 then
          bind (asks errno) (\<lambda>err.
          bind (set_errno 0) (\<lambda>_.
          bind (unlock_buffer buffer) (\<lambda>buffer. ret (err, buffer))))
        else
          bind (memcpy (ptr_add (b_buf buffer) (unat (b_used buffer))) (b_buf src) (unat amount)) (\<lambda>_.
          bind (unlock_buffer (buffer\<lparr>b_used := b_used buffer + amount\<rparr>)) (\<lambda>buffer.
          ret (0, buffer))))))"

definition excom_buffer_bappend :: "buffer \<Rightarrow> buffer \<Rightarrow> (int \<times> buffer) cmd" where
  "excom_buffer_bappend buffer src = excom_buffer_bappend2 buffer src (b_used src)"

definition excom_buffer_bappend_remaining2 :: "buffer \<Rightarrow> buffer \<Rightarrow> size_t \<Rightarrow> (int \<times> buffer) cmd" where
  "excom_buffer_bappend_remaining2 buffer src s =
     (if b_unmutable buffer then ret (EACCES, buffer)
      else if s = 0 then ret (0, buffer)
      else
        bind (lock_buffer buffer) (\<lambda>buffer.
        bind (if b_used buffer + s > b_max buffer
              then excom_buffer_resize buffer (b_used buffer + s) else ret (0, buffer))
          (\<lambda>(chk, buffer).
        if chk \<noteq> 0 then
          bind (asks errno) (\<lambda>err.
          bind (set_errno 0) (\<lambda>_.
          bind (unlock_buffer buffer) (\<lambda>buffer. ret (err, buffer))))
        else
          bind (memcpy (ptr_add (b_buf buffer) (unat (b_used buffer)))
                       (ptr_add (b_buf src) (unat (b_pos src))) (unat s)) (\<lambda>_.
          bind (unlock_buffer (buffer\<lparr>b_used := b_used buffer + s\<rparr>)) (\<lambda>buffer.
          ret (0, buffer))))))"

definition excom_buffer_bappend_remaining :: "buffer \<Rightarrow> buffer \<Rightarrow> (int \<times> buffer) cmd" where
  "excom_buffer_bappend_remaining buffer src =
     excom_buffer_bappend_remaining2 buffer src (b_used src - b_pos src)"

text \<open>
  \<open>write(sock, p, n)\<close>: the kernel refuses with an error number or takes some of the bytes; past
  the end of \<open>outs\<close> it would block.
\<close>

definition sys_write :: "int \<Rightarrow> ptr \<Rightarrow> nat \<Rightarrow> (int + nat) cmd" where
  "sys_write sock p n = bind (load p n) (\<lambda>bs. \<lambda>w.
     case outs w of
       [] \<Rightarrow> Inr (Inl EAGAIN, w\<lparr>errno := EAGAIN\<rparr>)
     | Inl e # os \<Rightarrow> Inr (Inl e, w\<lparr>outs := os, errno := e\<rparr>)
     | Inr k # os \<Rightarrow> (let k = min k n in
         Inr (Inr k, w\<lparr>outs := os, wire := (wire w)(sock := wire w sock @ take k bs)\<rparr>)))"

definition excom_buffer_write :: "buffer \<Rightarrow> int \<Rightarrow> (int \<times> buffer) cmd" where
  "excom_buffer_write buffer sock =
     (if excom_buffer_remaining buffer \<noteq> 0 then
        bind (lock_buffer buffer) (\<lambda>buffer.
        let to_write = excom_buffer_remaining buffer
        in bind (sys_write sock (ptr_add (b_buf buffer) (unat (b_pos buffer))) (unat to_write)) (\<lambda>written.
           case written of
             Inl _ \<Rightarrow>
               bind (asks errno) (\<lambda>err.
               bind (set_errno 0) (\<lambda>_.
               bind (unlock_buffer buffer) (\<lambda>buffer. ret (err, buffer))))
           | Inr n \<Rightarrow>
               let buffer = buffer\<lparr>b_pos := b_pos buffer + of_nat n\<rparr>
               in bind (if excom_buffer_remaining buffer = 0 \<and> b_freeable buffer
                        then bind (unlock_buffer buffer) (\<lambda>buffer.
                             bind (excom_buffer_destroy buffer) (\<lambda>buffer. lock_buffer buffer))
                        else ret buffer) (\<lambda>buffer.
                  bind (unlock_buffer buffer) (\<lambda>buffer. ret (0, buffer)))))
      else ret (0, buffer))"


section \<open>The resize loop\<close>

lemma unat_double: "unat (s :: size_t) < 2 ^ 63 \<Longrightarrow> unat (s * 2) = 2 * unat s"
  by (subst unat_mult_lem [THEN iffD1]) (simp_all add: mult.commute)

text \<open>
  From a start below \<open>2 ^ 63\<close> the loop ends for every size up to \<open>2 ^ 63\<close>, at the least proper
  doubling of the start that fits, and no doubling wraps.
\<close>

lemma grow_Some:
  assumes "0 < unat s" and "unat s < 2 ^ 63" and "unat t \<le> 2 ^ 63"
  shows "\<exists>r k. grow s t = Some r \<and> 0 < k \<and> unat r = unat s * 2 ^ k \<and> unat t \<le> unat r \<and>
           (k = 1 \<or> unat s * 2 ^ (k - 1) < unat t)"
  using assms(1,2)
proof (induction "2 ^ 63 - unat s" arbitrary: s rule: less_induct)
  case less
  note double = unat_double [OF less.prems(2)]
  show ?case
  proof (cases "s * 2 < t")
    case False
    then have "grow s t = Some (s * 2)"
      by (subst grow.simps) (simp add: Let_def)
    moreover have "unat t \<le> unat (s * 2)"
      using False by (simp add: word_le_nat_alt not_less)
    ultimately show ?thesis using double by (intro exI [of _ "s * 2"] exI [of _ 1]) simp
  next
    case True
    then have lt: "unat (s * 2) < unat t" by (simp add: word_less_nat_alt)
    have "\<exists>r k. grow (s * 2) t = Some r \<and> 0 < k \<and> unat r = unat (s * 2) * 2 ^ k \<and> unat t \<le> unat r \<and>
           (k = 1 \<or> unat (s * 2) * 2 ^ (k - 1) < unat t)"
    proof (rule less.hyps)
      have "unat (s * 2) < 2 ^ 63" using lt assms(3) by (rule less_le_trans)
      then show "unat (s * 2) < 2 ^ 63" .
      with double less.prems(1) show "2 ^ 63 - unat (s * 2) < 2 ^ 63 - unat s" by linarith
      show "0 < unat (s * 2)" using double less.prems(1) by linarith
    qed
    then obtain r k where r: "grow (s * 2) t = Some r" "0 < k" "unat r = unat (s * 2) * 2 ^ k"
        "unat t \<le> unat r" "k = 1 \<or> unat (s * 2) * 2 ^ (k - 1) < unat t"
      by (elim exE conjE) (rule that)
    have "grow s t = Some r"
      using True r(1) by (subst grow.simps) (simp add: Let_def)
    moreover have "unat r = unat s * 2 ^ Suc k"
      using r(3) double by simp
    moreover have "unat s * 2 ^ (Suc k - 1) < unat t"
    proof (cases "k = 1")
      case True
      then show ?thesis using double lt by (simp add: mult.commute)
    next
      case False
      then have "unat (s * 2) * 2 ^ (k - 1) < unat t" using r(5) by simp
      then show ?thesis using r(2) double by (cases k) (simp_all add: ac_simps)
    qed
    ultimately show ?thesis
      using r(4) by (intro exI [of _ r] exI [of _ "Suc k"]) simp
  qed
qed

text \<open>The capacity \<open>excom_buffer_resize\<close> asks for.\<close>

definition new_capacity :: "buffer \<Rightarrow> size_t \<Rightarrow> size_t" where
  "new_capacity b to_fit = the (grow (if b_max b = 0 then 1 else b_max b) to_fit)"

section \<open>The invariant and the bytes of a buffer\<close>

definition buf_ok :: "world \<Rightarrow> buffer \<Rightarrow> bool" where
  "buf_ok w b \<longleftrightarrow>
     (case b_buf b of
        Null \<Rightarrow> b_max b = 0 \<and> b_used b = 0 \<and> b_pos b = 0
      | Ptr i k \<Rightarrow> k = 0 \<and> (\<exists>bs. blocks w i = Some bs \<and> length bs = unat (b_max b)) \<and>
          unat (b_max b) < 2 ^ 63 \<and> unat (b_used b) \<le> unat (b_max b) \<and> unat (b_pos b) \<le> unat (b_used b)
      | Lit _ \<Rightarrow> False)"

definition bids :: "buffer \<Rightarrow> nat set" where
  "bids b = pids (b_buf b)"

definition contents :: "world \<Rightarrow> buffer \<Rightarrow> byte list" where
  "contents w b = (case b_buf b of Ptr i k \<Rightarrow> take (unat (b_used b)) (the (blocks w i)) | _ \<Rightarrow> [])"

definition pending :: "world \<Rightarrow> buffer \<Rightarrow> byte list" where
  "pending w b = drop (unat (b_pos b)) (contents w b)"

lemma buf_ok_cases:
  assumes "buf_ok w b"
  obtains (empty) "b_buf b = Null" "b_max b = 0" "b_used b = 0" "b_pos b = 0"
  | (block) i bs where "b_buf b = Ptr i 0" "blocks w i = Some bs" "length bs = unat (b_max b)"
      "unat (b_max b) < 2 ^ 63" "unat (b_used b) \<le> unat (b_max b)" "unat (b_pos b) \<le> unat (b_used b)"
  using assms by (auto simp: buf_ok_def split: ptr.splits)

lemma length_contents: "buf_ok w b \<Longrightarrow> length (contents w b) = unat (b_used b)"
  by (erule buf_ok_cases) (simp_all add: contents_def)

lemma remaining_pending: "buf_ok w b \<Longrightarrow> unat (excom_buffer_remaining b) = length (pending w b)"
  by (auto simp: pending_def length_contents excom_buffer_remaining_def unat_minus_le elim: buf_ok_cases)

lemma bids_below: "buf_ok w b \<Longrightarrow> hwf w \<Longrightarrow> i \<in> bids b \<Longrightarrow> i < fresh w"
  by (auto simp: bids_def elim!: buf_ok_cases intro: allocated_below_fresh)

text \<open>What other operations leave alone.\<close>

lemma buf_same_blocks:
  assumes "buf_ok w b" and eq: "\<And>i. i \<in> bids b \<Longrightarrow> blocks w' i = blocks w i"
  shows "buf_ok w' b" and "contents w' b = contents w b" and "pending w' b = pending w b"
proof -
  show "buf_ok w' b"
    using assms by (auto simp: buf_ok_def bids_def split: ptr.splits)
  show "contents w' b = contents w b"
    using eq by (auto simp: contents_def bids_def split: ptr.splits)
  then show "pending w' b = pending w b" by (simp add: pending_def)
qed

lemma buf_frame:
  assumes "buf_ok w b" and "hwf w" and "mframe I w w'" and "bids b \<inter> I = {}"
  shows "buf_ok w' b" and "contents w' b = contents w b" and "pending w' b = pending w b"
  using bids_below [OF assms(1,2)] assms(3,4)
  by (intro buf_same_blocks [OF assms(1)]; blast intro: mframe_blocks)+

lemma ioframe_buf:
  assumes "buf_ok w b" and "hwf w" and "ioframe I w w'" and "bids b \<inter> I = {}"
  shows "buf_ok w' b" and "contents w' b = contents w b" and "pending w' b = pending w b"
  using bids_below [OF assms(1,2)] assms(3,4)
  by (intro buf_same_blocks [OF assms(1)]; blast intro: ioframe_blocks)+

text \<open>
  A run on one buffer: it stays well formed and keeps its flags and its lock, only its own block
  and new blocks change, the block it ends with is its old one or a new one, and every other block
  it had or took is given back.
\<close>

definition bstep :: "world \<Rightarrow> buffer \<Rightarrow> world \<Rightarrow> buffer \<Rightarrow> bool" where
  "bstep w b w' b' \<longleftrightarrow> buf_ok w' b' \<and> mframe (bids b) w w' \<and> (\<forall>i \<in> bids b'. i \<in> bids b \<or> fresh w \<le> i) \<and>
     (\<forall>i. fresh w \<le> i \<or> i \<in> bids b \<longrightarrow> i \<notin> bids b' \<longrightarrow> blocks w' i = None) \<and>
     b_unmutable b' = b_unmutable b \<and> b_freeable b' = b_freeable b \<and> b_init b' = b_init b \<and>
     b_mutex b' = b_mutex b"

lemma bstepD:
  assumes "bstep w b w' b'"
  shows "buf_ok w' b'" and "mframe (bids b) w w'" and "i \<in> bids b' \<Longrightarrow> i \<in> bids b \<or> fresh w \<le> i"
    and "fresh w \<le> i \<or> i \<in> bids b \<Longrightarrow> i \<notin> bids b' \<Longrightarrow> blocks w' i = None"
    and "b_unmutable b' = b_unmutable b" and "b_freeable b' = b_freeable b"
    and "b_init b' = b_init b" and "b_mutex b' = b_mutex b"
  using assms unfolding bstep_def by blast+

lemma bstep_refl: "buf_ok w b \<Longrightarrow> hwf w \<Longrightarrow> bstep w b w b"
  by (auto simp: bstep_def hwf_def)

lemma bstep_trans:
  assumes "bstep w b w1 b1" and "bstep w1 b1 w2 b2"
  shows "bstep w b w2 b2"
proof -
  from assms have f: "mframe (bids b) w w1" "mframe (bids b1) w1 w2"
    and i1: "\<And>i. i \<in> bids b1 \<Longrightarrow> i \<in> bids b \<or> fresh w \<le> i"
    and i2: "\<And>i. i \<in> bids b2 \<Longrightarrow> i \<in> bids b1 \<or> fresh w1 \<le> i"
    and c1: "\<And>i. fresh w \<le> i \<or> i \<in> bids b \<Longrightarrow> i \<notin> bids b1 \<Longrightarrow> blocks w1 i = None"
    and c2: "\<And>i. fresh w1 \<le> i \<or> i \<in> bids b1 \<Longrightarrow> i \<notin> bids b2 \<Longrightarrow> blocks w2 i = None"
    unfolding bstep_def by blast+
  have clean: "blocks w2 i = None" if "fresh w \<le> i \<or> i \<in> bids b" "i \<notin> bids b2" for i
  proof (cases "fresh w1 \<le> i \<or> i \<in> bids b1")
    case True
    then show ?thesis using c2 that(2) by blast
  next
    case False
    then have "blocks w2 i = blocks w1 i" using f(2) by (simp add: mframe_blocks)
    then show ?thesis using c1 that(1) False by simp
  qed
  have "mframe (bids b) w w2"
    using f by (rule mframe_trans) (use i1 in force)
  moreover have "\<forall>i \<in> bids b2. i \<in> bids b \<or> fresh w \<le> i"
    using i1 i2 mframe_fresh [OF f(1)] by (meson le_trans)
  ultimately show ?thesis using assms clean by (simp add: bstep_def)
qed

lemma bstep_hwf: "bstep w b w' b' \<Longrightarrow> hwf w \<Longrightarrow> hwf w'"
  by (auto simp: bstep_def intro: mframe_hwf)

lemma bstep_plenty: "bstep w b w' b' \<Longrightarrow> plenty w \<Longrightarrow> plenty w'"
  by (auto simp: bstep_def intro: mframe_plenty)


section \<open>Growing\<close>

lemma new_capacity:
  assumes "buf_ok w b" and "unat t \<le> 2 ^ 63"
  shows "grow (if b_max b = 0 then 1 else b_max b) t = Some (new_capacity b t)"
    and "unat t \<le> unat (new_capacity b t)" and "unat (b_max b) \<le> unat (new_capacity b t)"
    and "unat (b_max b) < unat t \<Longrightarrow> unat t \<le> 2 ^ 62 \<Longrightarrow> new_capacity b t < 2 ^ 63"
proof -
  let ?s = "if b_max b = 0 then 1 else b_max b"
  have "unat (b_max b) < 2 ^ 63" using assms(1) by (auto elim: buf_ok_cases)
  then have s: "0 < unat ?s" "unat ?s < 2 ^ 63" by (auto simp: unat_gt_0)
  obtain r k where r: "grow ?s t = Some r" "0 < k" "unat r = unat ?s * 2 ^ k" "unat t \<le> unat r"
      "k = 1 \<or> unat ?s * 2 ^ (k - 1) < unat t"
    using grow_Some [OF s assms(2)] by (elim exE conjE) (rule that)
  have cap: "new_capacity b t = r" using r(1) by (simp add: new_capacity_def)
  show "grow ?s t = Some (new_capacity b t)" using r(1) cap by simp
  show "unat t \<le> unat (new_capacity b t)" using r(4) cap by simp
  show "unat (b_max b) \<le> unat (new_capacity b t)" using r(3) cap by auto
  assume m: "unat (b_max b) < unat t" "unat t \<le> 2 ^ 62"
  have "unat ?s < 2 ^ 62" using m by (cases "b_max b = 0") auto
  then have lt: "unat ?s * 2 ^ (k - 1) < 2 ^ 62"
    using r(5) less_le_trans [OF _ m(2)] by (elim disjE) simp_all
  define x where "x = unat ?s * 2 ^ (k - 1)"
  have "x < 2 ^ 62" unfolding x_def by (rule lt)
  moreover have "unat r = x * 2" unfolding x_def using r(2,3) by (cases k) simp_all
  ultimately have "unat r < 2 ^ 63" by simp
  then show "new_capacity b t < 2 ^ 63"
    using cap by (simp add: word_less_nat_alt)
qed


text \<open>The position as \<open>excom_buffer_resize\<close> restores it: only 32 bits survive.\<close>

definition pos32 :: "size_t \<Rightarrow> size_t" where
  "pos32 p = ucast (ucast p :: u32)"

lemma unat_pos32: "unat (pos32 p) = unat p mod 2 ^ 32"
  unfolding pos32_def unat_ucast_u32 by (simp add: unsigned_ucast_eq take_bit_eq_mod)

lemma pos32_id: "unat p < 2 ^ 32 \<Longrightarrow> pos32 p = p"
  by (simp add: word_unat_eq_iff unat_pos32)

text \<open>Copying the bytes of a block into a new one and releasing the old one, as growing a buffer does.\<close>

lemma move_block_wp:
  assumes i: "blocks w i = Some bs" and k: "blocks w k = Some js" and ne: "k \<noteq> i"
    and n: "n \<le> length bs" "n \<le> length js"
    and K: "\<And>w'. blocks w' = (blocks w)(k \<mapsto> overwrite js 0 (take n bs), i := None) \<Longrightarrow>
      mframe {i, k} w w' \<Longrightarrow> errno w' = errno w \<Longrightarrow> wp F Q w'"
  shows "wp (bind (memcpy (Ptr k 0) (Ptr i 0) n) (\<lambda>_. bind (excom_free (Ptr i 0)) (\<lambda>_. F))) Q w"
  unfolding memcpy_def wp_bind
proof (rule load_Ptr_wp [OF i], goal_cases)
  case 1
  then show ?case using n by simp
next
  case 2
  show ?case
    unfolding drop_0
  proof (rule store_Ptr_wp [OF k], goal_cases)
    case 1
    then show ?case using n by simp
  next
    case (2 w2)
    note w2 = this
    show ?case
    proof (rule free_wp [OF refl], goal_cases)
      case 1
      then show ?case using w2(1) i ne by simp
    next
      case (2 w3)
      have "mframe {i, k} w w3" using w2(3) 2(3) by (rule mframe_trans) auto
      then show ?case using 2 w2 by (intro K) simp_all
    qed
  qed
qed

lemma resize_wp:
  assumes ok: "buf_ok w b" and wf: "hwf w" and fit: "unat t \<le> 2 ^ 63"
    and bad: "\<And>w'. malloc_fails (new_capacity b t) w \<Longrightarrow> blocks w' = blocks w \<Longrightarrow> errno w' = 0 \<Longrightarrow>
      mframe {} w w' \<Longrightarrow> Q (ENOMEM, b) w'"
    and good: "\<And>w' b'. \<not> malloc_fails (new_capacity b t) w \<Longrightarrow>
      b' = b\<lparr>b_buf := Ptr (fresh w) 0, b_pos := pos32 (b_pos b), b_max := new_capacity b t\<rparr> \<Longrightarrow>
      bstep w b w' b' \<Longrightarrow> contents w' b' = contents w b \<Longrightarrow> unat t \<le> unat (b_max b') \<Longrightarrow>
      errno w' = errno w \<Longrightarrow> Q (0, b') w'"
  shows "wp (excom_buffer_resize b t) Q w"
proof -
  let ?r = "new_capacity b t"
  note cap = new_capacity(1-3) [OF ok fit]
  show ?thesis
    unfolding excom_buffer_resize_def Let_def cap(1) option.case wp_bind
  proof (rule malloc_wp, goal_cases)
    case (1 w')
    then show ?case
      by (auto simp: excom_return_errno_def set_errno_def intro!: bad)
  next
    case (2 w1 js)
    let ?b = "b\<lparr>b_buf := Ptr (fresh w) 0, b_pos := pos32 (b_pos b), b_max := ?r\<rparr>"
    have small: "unat ?r < 2 ^ 63"
      using 2(1) by (simp add: malloc_fails_def word_le_nat_alt not_le)
    have p32: "unat (pos32 (b_pos b)) \<le> unat (b_pos b)" by (simp add: unat_pos32)
    show ?case
      using ok
    proof (cases rule: buf_ok_cases)
      case empty
      have "hwf w1" using 2(6) wf by (rule mframe_hwf)
      then have "bstep w b w1 ?b"
        using 2 empty small wf by (auto simp: bstep_def buf_ok_def bids_def pos32_def hwf_def)
      moreover have "contents w1 ?b = contents w b"
        using empty 2 by (simp add: contents_def)
      ultimately show ?thesis
        using good [OF 2(1) refl, of w1] 2 cap empty by (simp add: memcpy_def pos32_def)
    next
      case (block i bs)
      have i: "i < fresh w" using wf block(2) by (simp add: allocated_below_fresh)
      have f: "mframe {} w w1" by (rule 2)
      have js: "length js = unat ?r" "blocks w1 (fresh w) = Some js" "blocks w1 i = Some bs"
        using 2 block(2) i by auto
      let ?data = "take (unat (b_used b)) bs"
      have ne: "fresh w \<noteq> i" and used: "unat (b_used b) \<le> length bs" "unat (b_used b) \<le> length js"
        using i block(3,5) cap(3) js(1) by simp_all
      have "wp (bind (memcpy (Ptr (fresh w) 0) (Ptr i 0) (unat (b_used b))) (\<lambda>_.
          bind (excom_free (Ptr i 0)) (\<lambda>_. ret (0, ?b)))) Q w1"
      proof (rule move_block_wp [OF js(3,2) ne used], goal_cases)
        case (1 w3)
        have f3: "mframe {i} w w3" using f 1(2) by (rule mframe_trans) auto
        have blk: "blocks w3 (fresh w) = Some (overwrite js 0 ?data)" using 1(1) i by simp
        have "blocks w3 j = None" if "fresh w \<le> j \<or> j = i" "j \<noteq> fresh w" for j
          using that wf 1(1) \<open>blocks w1 = _\<close> by (auto simp: hwf_def)
        then have "bstep w b w3 ?b"
          using f3 blk js(1) block cap small p32 i
          by (auto simp: bstep_def buf_ok_def bids_def)
        moreover have "contents w3 ?b = contents w b"
          using blk block js(1) cap(3) by (simp add: contents_def overwrite_def)
        ultimately show ?case
          using good [OF \<open>\<not> malloc_fails ?r w\<close> refl, of w3] cap 1(3) \<open>errno w1 = errno w\<close>
          by (simp add: pos32_def)
      qed
      then show ?thesis by (simp add: block(1) wp_bind pos32_def)
    qed
  qed
qed


section \<open>Appending\<close>

lemma mutex_irrelevant [simp]:
  "buf_ok w (b\<lparr>b_mutex := m\<rparr>) = buf_ok w b" "contents w (b\<lparr>b_mutex := m\<rparr>) = contents w b"
  "pending w (b\<lparr>b_mutex := m\<rparr>) = pending w b" "bids (b\<lparr>b_mutex := m\<rparr>) = bids b"
  "new_capacity (b\<lparr>b_mutex := m\<rparr>) t = new_capacity b t"
  "excom_buffer_remaining (b\<lparr>b_mutex := m\<rparr>) = excom_buffer_remaining b"
  by (simp_all add: buf_ok_def contents_def pending_def bids_def new_capacity_def excom_buffer_remaining_def
      split: ptr.split)

lemma bstep_unlock:
  "bstep w (b\<lparr>b_mutex := True\<rparr>) w' b' \<Longrightarrow> \<not> b_mutex b \<Longrightarrow> bstep w b w' (b'\<lparr>b_mutex := False\<rparr>)"
  by (simp add: bstep_def)

lemma mutex_reset [simp]: "\<not> b_mutex b \<Longrightarrow> b\<lparr>b_mutex := False\<rparr> = b"
  by (cases b) simp

lemma lock_buffer_simps [simp]:
  "\<not> b_mutex b \<Longrightarrow> lock_buffer b = ret (b\<lparr>b_mutex := True\<rparr>)"
  "b_mutex b \<Longrightarrow> unlock_buffer b = ret (b\<lparr>b_mutex := False\<rparr>)"
  by (simp_all add: lock_buffer_def unlock_buffer_def)

definition grows :: "buffer \<Rightarrow> size_t \<Rightarrow> bool" where
  "grows b n \<longleftrightarrow> b_used b + n > b_max b"

definition append_fails :: "world \<Rightarrow> buffer \<Rightarrow> size_t \<Rightarrow> bool" where
  "append_fails w b n \<longleftrightarrow> grows b n \<and> malloc_fails (new_capacity b (b_used b + n)) w"

text \<open>The body \<open>cappend\<close>, \<open>bappend2\<close> and \<open>bappend_remaining2\<close> share.\<close>

definition append_core :: "buffer \<Rightarrow> ptr \<Rightarrow> size_t \<Rightarrow> (int \<times> buffer) cmd" where
  "append_core b p n =
     bind (lock_buffer b) (\<lambda>b.
     bind (if b_used b + n > b_max b then excom_buffer_resize b (b_used b + n) else ret (0, b)) (\<lambda>(chk, b).
     if chk \<noteq> 0 then
       bind (asks errno) (\<lambda>err.
       bind (set_errno 0) (\<lambda>_.
       bind (unlock_buffer b) (\<lambda>b. ret (err, b))))
     else
       bind (memcpy (ptr_add (b_buf b) (unat (b_used b))) p (unat n)) (\<lambda>_.
       bind (unlock_buffer (b\<lparr>b_used := b_used b + n\<rparr>)) (\<lambda>b. ret (0, b)))))"

lemma cappend_core:
  "excom_buffer_cappend b p n = (if b_unmutable b then ret (EACCES, b) else append_core b p n)"
  by (simp add: excom_buffer_cappend_def append_core_def)

lemma bappend2_core:
  "excom_buffer_bappend2 b src n =
     (if b_unmutable b then ret (EACCES, b) else if n = 0 then ret (0, b)
      else append_core b (b_buf src) n)"
  by (simp add: excom_buffer_bappend2_def append_core_def)

lemma bappend_remaining2_core:
  "excom_buffer_bappend_remaining2 b src n =
     (if b_unmutable b then ret (EACCES, b) else if n = 0 then ret (0, b)
      else append_core b (ptr_add (b_buf src) (unat (b_pos src))) n)"
  by (simp add: excom_buffer_bappend_remaining2_def append_core_def)

lemma fresh_none: "mframe I w w' \<Longrightarrow> hwf w \<Longrightarrow> fresh w' = fresh w \<Longrightarrow> fresh w \<le> i \<Longrightarrow> blocks w' i = None"
  by (metis hwf_def mframe_hwf)

lemma append_bytes_wp:
  assumes ok: "buf_ok w b" and lock: "b_mutex b" and rd: "reads w p (unat n) bs"
    and room: "unat (b_used b) + unat n \<le> unat (b_max b)"
    and good: "\<And>w' b'. b' = b\<lparr>b_used := b_used b + n, b_mutex := False\<rparr> \<Longrightarrow>
      buf_ok w' b' \<Longrightarrow> mframe (bids b) w w' \<Longrightarrow> fresh w' = fresh w \<Longrightarrow>
      contents w' b' = contents w b @ bs \<Longrightarrow> errno w' = errno w \<Longrightarrow> Q (0, b') w'"
  shows "wp (bind (memcpy (ptr_add (b_buf b) (unat (b_used b))) p (unat n)) (\<lambda>_.
             bind (unlock_buffer (b\<lparr>b_used := b_used b + n\<rparr>)) (\<lambda>b. ret (0, b)))) Q w"
proof -
  let ?b = "b\<lparr>b_used := b_used b + n, b_mutex := False\<rparr>"
  have sum: "unat (b_used b + n) = unat (b_used b) + unat n"
    using room unat_size_bound [of "b_max b"] by (intro unat_plus_no_overflow) linarith
  have len: "length bs = unat n" using rd by (rule reads_length)
  show ?thesis
    using ok
  proof (cases rule: buf_ok_cases)
    case empty
    then have n: "n = 0" "bs = []" using room len by (auto simp: unat_eq_0)
    have "buf_ok w ?b" and "contents w ?b = contents w b"
      using empty n by (simp_all add: buf_ok_def contents_def)
    with good [OF refl, of w] n lock show ?thesis by (simp add: memcpy_def)
  next
    case (block i xs)
    have st: "wp (store (Ptr i (unat (b_used b))) bs) (\<lambda>_. Q (0, ?b)) w"
    proof (rule store_Ptr_wp [OF block(2)])
      show "unat (b_used b) + length bs \<le> length xs" using block room len by simp
    next
      fix w' assume w': "blocks w' = (blocks w)(i \<mapsto> overwrite xs (unat (b_used b)) bs)"
        "mframe {i} w w'" "errno w' = errno w" "fresh w' = fresh w"
      have "buf_ok w' ?b"
        using block room len sum w'(1) by (simp add: buf_ok_def)
      moreover have "contents w' ?b = contents w b @ bs"
        using block room len sum w'(1) by (simp add: contents_def)
      ultimately show "Q (0, ?b) w'"
        using good [OF refl, of w'] w' block by (simp add: bids_def)
    qed
    show ?thesis
      unfolding memcpy_def wp_bind block(1) ptr_add.simps add_0
      by (rule load_wp [OF rd], rule wp_mono [OF st]) (simp add: lock)
  qed
qed

lemma append_core_wp:
  assumes ok: "buf_ok w b" and wf: "hwf w" and lock: "\<not> b_mutex b" and rd: "reads w p (unat n) bs"
    and dis: "pids p \<inter> bids b = {}" and fit: "unat (b_used b) + unat n \<le> 2 ^ 63"
    and bad: "\<And>w'. append_fails w b n \<Longrightarrow> blocks w' = blocks w \<Longrightarrow> errno w' = 0 \<Longrightarrow>
      mframe {} w w' \<Longrightarrow> Q (0, b) w'"
    and good: "\<And>w' b'. \<not> append_fails w b n \<Longrightarrow> bstep w b w' b' \<Longrightarrow>
      contents w' b' = contents w b @ bs \<Longrightarrow> b_used b' = b_used b + n \<Longrightarrow>
      b_pos b' = (if grows b n then pos32 (b_pos b) else b_pos b) \<Longrightarrow> errno w' = errno w \<Longrightarrow>
      b_max b' = (if grows b n then new_capacity b (b_used b + n) else b_max b) \<Longrightarrow> Q (0, b') w'"
  shows "wp (append_core b p n) Q w"
proof -
  let ?l = "b\<lparr>b_mutex := True\<rparr>"
  have sum: "unat (b_used b + n) = unat (b_used b) + unat n"
    using fit by (intro unat_plus_no_overflow) simp
  show ?thesis
  proof (cases "grows b n")
    case False
    then have g: "\<not> b_used b + n > b_max b" by (simp add: grows_def)
    then have room: "unat (b_used ?l) + unat n \<le> unat (b_max ?l)"
      using sum by (simp add: not_less word_le_nat_alt)
    have "wp (bind (memcpy (ptr_add (b_buf ?l) (unat (b_used ?l))) p (unat n)) (\<lambda>_.
             bind (unlock_buffer (?l\<lparr>b_used := b_used ?l + n\<rparr>)) (\<lambda>b. ret (0, b)))) Q w"
      by (rule append_bytes_wp [where w = w and b = ?l and bs = bs])
         (use ok rd room False lock wf in
           \<open>auto simp: append_fails_def bstep_def bids_def fresh_none intro!: good\<close>)
    then show ?thesis
      using g lock by (simp add: append_core_def)
  next
    case True
    then have g: "b_used b + n > b_max b" by (simp add: grows_def)
    have fit': "unat (b_used b + n) \<le> 2 ^ 63" using sum fit by simp
    have "wp (excom_buffer_resize ?l (b_used b + n))
      (\<lambda>(chk, b'). wp (if chk \<noteq> 0 then
           bind (asks errno) (\<lambda>err. bind (set_errno 0) (\<lambda>_. bind (unlock_buffer b') (\<lambda>b. ret (err, b))))
         else bind (memcpy (ptr_add (b_buf b') (unat (b_used b'))) p (unat n)) (\<lambda>_.
              bind (unlock_buffer (b'\<lparr>b_used := b_used b' + n\<rparr>)) (\<lambda>b. ret (0, b)))) Q) w"
    proof (rule resize_wp [where w = w], goal_cases)
      case (4 w')
      then show ?case
        using lock True by (auto simp: set_errno_def append_fails_def intro!: bad)
    next
      case (5 w1 b1)
      have f1: "mframe (bids b) w w1" and ok1: "buf_ok w1 b1" using 5(3) by (simp_all add: bstep_def)
      have rd1: "reads w1 p (unat n) bs" using rd f1 wf dis by (rule reads_mframe)
      have room: "unat (b_used b1) + unat n \<le> unat (b_max b1)"
        using 5(2,5) sum by simp
      have "wp (bind (memcpy (ptr_add (b_buf b1) (unat (b_used b1))) p (unat n)) (\<lambda>_.
              bind (unlock_buffer (b1\<lparr>b_used := b_used b1 + n\<rparr>)) (\<lambda>b. ret (0, b)))) Q w1"
      proof (rule append_bytes_wp [OF ok1 _ rd1 room], goal_cases)
        case 1
        then show ?case using 5(2) by simp
      next
        case (2 w2 b2)
        let ?b = "b1\<lparr>b_mutex := False\<rparr>"
        have "bstep w b w1 ?b"
          using 5(3) lock by (rule bstep_unlock)
        moreover have "bstep w1 ?b w2 b2"
          using 2 lock mframe_hwf [OF f1 wf] by (auto simp: bstep_def bids_def fresh_none)
        ultimately have "bstep w b w2 b2" by (rule bstep_trans)
        then show ?case
          using 2 5 True by (intro good) (simp_all add: append_fails_def)
      qed
      then show ?case by simp
    qed (use ok wf fit' in auto)
    then show ?thesis
      using g lock by (simp add: append_core_def case_prod_unfold)
  qed
qed


section \<open>Appending when nothing fails\<close>

definition ready :: "world \<Rightarrow> buffer \<Rightarrow> bool" where
  "ready w b \<longleftrightarrow> buf_ok w b \<and> hwf w \<and> plenty w \<and> \<not> b_mutex b \<and> \<not> b_unmutable b"

lemma ready_bstep: "ready w b \<Longrightarrow> bstep w b w' b' \<Longrightarrow> ready w' b'"
  by (auto simp: ready_def bstep_def intro: mframe_hwf mframe_plenty)

lemma ready_frame:
  "ready w b \<Longrightarrow> mframe I w w' \<Longrightarrow> bids b \<inter> I = {} \<Longrightarrow> ready w' b"
  by (auto simp: ready_def intro: buf_frame(1) mframe_hwf mframe_plenty)

lemma append_succeeds:
  assumes "ready w b" and "unat (b_used b) + unat n < 2 ^ 32"
  shows "\<not> append_fails w b n"
proof
  assume "append_fails w b n"
  then have g: "b_max b < b_used b + n" and f: "malloc_fails (new_capacity b (b_used b + n)) w"
    by (simp_all add: append_fails_def grows_def)
  have sum: "unat (b_used b + n) = unat (b_used b) + unat n"
    using assms(2) by (intro unat_plus_no_overflow) simp
  have "new_capacity b (b_used b + n) < 2 ^ 63"
    by (rule new_capacity(4)) (use assms g sum in \<open>auto simp: ready_def word_less_nat_alt\<close>)
  with f assms(1) show False
    by (auto simp: malloc_fails_def ready_def plenty_def)
qed

text \<open>
  One rule for all four appends: in a plentiful world, with less than 4 GiB in the buffer, the
  bytes are appended and the position stays.
\<close>

definition appended :: "world \<Rightarrow> buffer \<Rightarrow> byte list \<Rightarrow> world \<Rightarrow> buffer \<Rightarrow> bool" where
  "appended w b bs w' b' \<longleftrightarrow> bstep w b w' b' \<and> ready w' b' \<and> contents w' b' = contents w b @ bs \<and>
     b_pos b' = b_pos b \<and> unat (b_used b') = unat (b_used b) + length bs \<and> errno w' = errno w"

lemma append_core_ready:
  assumes r: "ready w b" and rd: "reads w p (unat n) bs" and dis: "pids p \<inter> bids b = {}"
    and fit: "unat (b_used b) + unat n < 2 ^ 32"
  shows "wp (append_core b p n) (\<lambda>(r, b') w'. r = 0 \<and> appended w b bs w' b') w"
proof -
  have ok: "buf_ok w b" "hwf w" "\<not> b_mutex b" and nf: "\<not> append_fails w b n"
    using r append_succeeds [OF r fit] by (simp_all add: ready_def)
  have sum: "unat (b_used b + n) = unat (b_used b) + unat n"
    using fit by (intro unat_plus_no_overflow) simp
  have pos: "pos32 (b_pos b) = b_pos b"
    by (rule pos32_id) (use ok(1) fit in \<open>auto elim: buf_ok_cases\<close>)
  show ?thesis
    by (rule append_core_wp [OF ok rd dis])
       (use fit nf r pos sum reads_length [OF rd] in
         \<open>auto simp: appended_def intro: ready_bstep\<close>)
qed

lemma cappend_ready:
  assumes "ready w b" and "reads w p (unat n) bs" and "pids p \<inter> bids b = {}"
    and "unat (b_used b) + unat n < 2 ^ 32"
  shows "wp (excom_buffer_cappend b p n) (\<lambda>(r, b') w'. r = 0 \<and> appended w b bs w' b') w"
  using append_core_ready [OF assms] assms(1) by (simp add: cappend_core ready_def)

lemma appended_refl: "ready w b \<Longrightarrow> appended w b [] w b"
  by (simp add: appended_def bstep_refl ready_def)

lemma appended_trans:
  "appended w b xs w1 b1 \<Longrightarrow> appended w1 b1 ys w2 b2 \<Longrightarrow> appended w b (xs @ ys) w2 b2"
  by (auto simp: appended_def intro: bstep_trans)

lemma bappend2_ready:
  assumes "ready w b" and "reads w (b_buf src) (unat n) bs" and "bids src \<inter> bids b = {}"
    and "unat (b_used b) + unat n < 2 ^ 32"
  shows "wp (excom_buffer_bappend2 b src n) (\<lambda>(r, b') w'. r = 0 \<and> appended w b bs w' b') w"
  using append_core_ready [of w b "b_buf src" n bs] assms
  by (auto simp: bappend2_core ready_def bids_def appended_refl)

lemma pids_ptr_add [simp]: "pids (ptr_add p k) = pids p"
  by (cases p) simp_all

lemma bappend_remaining2_ready:
  assumes "ready w b" and "reads w (ptr_add (b_buf src) (unat (b_pos src))) (unat n) bs"
    and "bids src \<inter> bids b = {}" and "unat (b_used b) + unat n < 2 ^ 32"
  shows "wp (excom_buffer_bappend_remaining2 b src n) (\<lambda>(r, b') w'. r = 0 \<and> appended w b bs w' b') w"
  using append_core_ready [of w b "ptr_add (b_buf src) (unat (b_pos src))" n bs] assms
  by (auto simp: bappend_remaining2_core ready_def bids_def appended_refl)

lemma resize_zero:
  assumes "buf_ok w b" and "hwf w" and "unat t \<le> 2 ^ 63" and "\<not> malloc_fails (new_capacity b t) w"
  shows "wp (excom_buffer_resize b t) (\<lambda>(r, _) _. r = 0) w"
  by (rule resize_wp [OF assms(1-3)]) (use assms(4) in auto)

lemma sappend_core:
  assumes ok: "buf_ok w b" "hwf w" "\<not> b_mutex b" "\<not> b_unmutable b"
    and fit: "unat (b_used b) + unat (s_size s) \<le> 2 ^ 63" and nf: "\<not> append_fails w b (ucast (s_size s))"
  shows "excom_buffer_sappend b s w = append_core b (s_body s) (ucast (s_size s)) w"
proof (cases "grows b (ucast (s_size s))")
  case False
  then show ?thesis
    using ok by (simp add: excom_buffer_sappend_def append_core_def grows_def)
next
  case True
  let ?t = "b_used b + ucast (s_size s)"
  have "unat ?t = unat (b_used b) + unat (s_size s)"
    using fit by (subst unat_plus_no_overflow) simp_all
  then have "wp (excom_buffer_resize (b\<lparr>b_mutex := True\<rparr>) ?t) (\<lambda>(r, _) _. r = 0) w"
    using ok fit nf True by (intro resize_zero) (simp_all add: append_fails_def)
  then obtain b' w' where run: "excom_buffer_resize (b\<lparr>b_mutex := True\<rparr>) ?t w = Inr ((0, b'), w')"
    by (auto simp: wp_iff)
  then show ?thesis
    using ok True
    by (simp add: excom_buffer_sappend_def append_core_def grows_def bind_Inr
        [where m = "excom_buffer_resize (b\<lparr>b_mutex := True\<rparr>) ?t" and w = w, OF run])
qed

lemma sappend_ready:
  assumes "ready w b" and "str_val w s bs" and "pids (s_body s) \<inter> bids b = {}"
    and "unat (b_used b) + unat (s_size s) < 2 ^ 32"
  shows "wp (excom_buffer_sappend b s) (\<lambda>(r, b') w'. r = 0 \<and> appended w b bs w' b') w"
proof -
  have "wp (append_core b (s_body s) (ucast (s_size s))) (\<lambda>(r, b') w'. r = 0 \<and> appended w b bs w' b') w"
    by (rule append_core_ready) (use assms in \<open>simp_all add: str_val_def\<close>)
  moreover have "\<not> append_fails w b (ucast (s_size s))"
    by (rule append_succeeds) (use assms in simp_all)
  then have "excom_buffer_sappend b s w = append_core b (s_body s) (ucast (s_size s)) w"
    by (intro sappend_core) (use assms in \<open>simp_all add: ready_def\<close>)
  ultimately show ?thesis by (simp add: wp_def)
qed

section \<open>Scratch blocks\<close>

text \<open>
  Blocks that were allocated for a run and are freed after it do not show in the step of the
  buffer the run worked on.
\<close>

lemma bstep_scratch:
  assumes s: "bstep w1 b w2 b'" and wf: "hwf w" and f: "mframe {} w w1"
    and K: "\<And>i. i \<in> K \<Longrightarrow> fresh w \<le> i \<and> i < fresh w1"
    and b: "\<And>i. i \<in> bids b \<Longrightarrow> i < fresh w"
    and clean: "\<And>i. fresh w \<le> i \<Longrightarrow> i < fresh w1 \<Longrightarrow> i \<notin> K \<Longrightarrow> blocks w1 i = None"
    and free: "\<And>i. blocks w3 i = (if i \<in> K then None else blocks w2 i)" and f3: "mframe K w2 w3"
  shows "bstep w b w3 b'" and "K \<inter> bids b' = {}"
proof -
  have new: "i \<in> bids b \<or> fresh w1 \<le> i" if "i \<in> bids b'" for i using bstepD(3) [OF s that] .
  show kb: "K \<inter> bids b' = {}" using new b K by (meson disjoint_iff leD)
  have wf1: "hwf w1" using f wf by (rule mframe_hwf)
  have "hwf w2" using s wf1 by (rule bstep_hwf)
  have f2: "mframe (bids b) w w2"
    using f bstepD(2) [OF s] by (rule mframe_trans) auto
  have "mframe (bids b) w w3" using f2 f3 by (rule mframe_trans) (use K in \<open>auto dest: leD\<close>)
  moreover have "buf_ok w3 b'"
    using bstepD(1) [OF s] \<open>hwf w2\<close> f3 by (rule buf_frame(1)) (use kb in blast)
  moreover have "i \<in> bids b \<or> fresh w \<le> i" if "i \<in> bids b'" for i
    using new [OF that] mframe_fresh [OF f] by auto
  moreover have "blocks w3 i = None" if "fresh w \<le> i \<or> i \<in> bids b" "i \<notin> bids b'" for i
  proof (cases "i \<in> K \<or> fresh w1 \<le> i \<or> i \<in> bids b")
    case True
    then show ?thesis using free bstepD(4) [OF s _ that(2)] by auto
  next
    case False
    then have "blocks w2 i = blocks w1 i" using mframe_blocks [OF bstepD(2) [OF s], of i] by simp
    then show ?thesis using False that(1) free clean by auto
  qed
  ultimately show "bstep w b w3 b'" using bstepD(5-8) [OF s] by (simp add: bstep_def)
qed

lemma appended_scratch:
  assumes a: "appended w1 b bs w2 b'" and r: "ready w b" and f: "mframe {} w w1"
    and K: "\<And>i. i \<in> K \<Longrightarrow> fresh w \<le> i \<and> i < fresh w1"
    and clean: "\<And>i. fresh w \<le> i \<Longrightarrow> i < fresh w1 \<Longrightarrow> i \<notin> K \<Longrightarrow> blocks w1 i = None"
    and free: "\<And>i. blocks w3 i = (if i \<in> K then None else blocks w2 i)" and f3: "mframe K w2 w3"
    and e: "errno w1 = errno w" "errno w3 = errno w2"
  shows "appended w b bs w3 b'"
proof -
  have s: "bstep w1 b w2 b'" and r2: "ready w2 b'" using a by (simp_all add: appended_def)
  have ok: "buf_ok w b" "hwf w" using r by (simp_all add: ready_def)
  have below: "i < fresh w" if "i \<in> bids b" for i using ok that by (rule bids_below)
  note st = bstep_scratch [OF s ok(2) f K below clean free f3]
  have dis: "bids b' \<inter> K = {}" using st(2) by (simp add: Int_commute)
  have "ready w3 b'" by (rule ready_frame [OF r2 f3 dis])
  moreover have "contents w3 b' = contents w2 b'"
    using r2 by (intro buf_frame(2) [OF _ _ f3 dis]) (simp_all add: ready_def)
  moreover have "contents w1 b = contents w b"
    using ok by (intro buf_frame(2) [OF _ _ f]) simp_all
  ultimately show ?thesis using a e st(1) by (simp add: appended_def)
qed

section \<open>The buffer as a byte sink\<close>

definition put_bytes :: "buffer \<Rightarrow> byte list \<Rightarrow> (int \<times> buffer) cmd" where
  "put_bytes b bs = excom_buffer_cappend b (Lit bs) (of_nat (length bs))"

lemma unat_of_nat_length: "length (bs :: byte list) < 2 ^ 64 \<Longrightarrow> unat (of_nat (length bs) :: size_t) = length bs"
  by (simp add: unat_of_nat)

lemma put_bytes_ready:
  assumes "ready w b" and "unat (b_used b) + length bs < 2 ^ 32"
  shows "wp (put_bytes b bs) (\<lambda>(r, b') w'. r = 0 \<and> appended w b bs w' b') w"
proof -
  have n: "unat (of_nat (length bs) :: size_t) = length bs"
    using assms(2) by (intro unat_of_nat_length) simp
  show ?thesis
    unfolding put_bytes_def by (rule cappend_ready) (use assms n in simp_all)
qed

interpretation sink: byte_sink ready contents "\<lambda>w b w' b'. bstep w b w' b' \<and> b_pos b' = b_pos b" put_bytes "2 ^ 32"
proof unfold_locales
  fix w b and bs :: "byte list"
  assume r: "ready w b" and "length (contents w b) + length bs < 2 ^ 32"
  then have "unat (b_used b) + length bs < 2 ^ 32"
    by (simp add: length_contents ready_def)
  from put_bytes_ready [OF r this]
  show "wp (put_bytes b bs) (\<lambda>(r, b') w'. r = 0 \<and> ready w' b' \<and>
      (bstep w b w' b' \<and> b_pos b' = b_pos b) \<and> contents w' b' = contents w b @ bs) w"
    by (rule wp_mono) (auto simp: appended_def)
qed (auto simp: ready_def bstep_refl intro: bstep_trans)

end
