(* ===== verification/BufferIO.thy ===== *)
theory BufferIO
  imports Buffer
begin

text \<open>
  Creating, destroying, resetting and flushing a buffer, and the byte queue a buffer implements:
  whatever appends and partial writes happen in between, the bytes on the wire followed by the
  bytes still pending are the bytes appended, in order.
\<close>

section \<open>Creation and destruction\<close>

lemma mutex_init_plenty [simp]: "plenty w \<Longrightarrow> wp mutex_init Q w = Q 0 w"
  by (simp add: wp_def mutex_init_def plenty_def)

lemma buffer_init_wp:
  assumes "hwf w" and "plenty w" and "n < 2 ^ 63"
  shows "wp (excom_buffer_init b0 n) (\<lambda>(r, b) w'. r = 0 \<and> ready w' b \<and> mframe {} w w' \<and> errno w' = errno w \<and>
    fresh w' = Suc (fresh w) \<and> blocks w' (fresh w) = Some (map (junk w (fresh w)) [0..<unat n]) \<and> b = \<lparr>b_init = n, b_max = n, b_used = 0, b_pos = 0, b_buf = Ptr (fresh w) 0,
      b_unmutable = False, b_freeable = True, b_mutex = False\<rparr>) w"
proof -
  have nf: "\<not> malloc_fails n w" using assms(2,3) by (rule malloc_succeeds)
  show ?thesis
    unfolding excom_buffer_init_def Let_def wp_bind
  proof (rule malloc_wp, goal_cases)
    case (1 w')
    with nf show ?case by simp
  next
    case (2 w' js)
    have p: "plenty w'" using 2(6) assms(2) by (rule mframe_plenty)
    have h: "hwf w'" using 2(6) assms(1) by (rule mframe_hwf)
    show ?case
      using 2 p h assms(3) by (auto simp: ready_def buf_ok_def word_less_nat_alt)
  qed
qed

lemma buffer_destroy_wp:
  assumes "buf_ok w b" and "b_freeable b"
    and "\<And>w'. blocks w' = (\<lambda>i. if i \<in> bids b then None else blocks w i) \<Longrightarrow> fresh w' = fresh w \<Longrightarrow>
      mframe (bids b) w w' \<Longrightarrow> errno w' = errno w \<Longrightarrow> mallocs w' = mallocs w \<Longrightarrow>
      Q (b\<lparr>b_max := 0, b_used := 0, b_buf := Null, b_pos := 0\<rparr>) w'"
  shows "wp (excom_buffer_destroy b) Q w"
  using assms(1)
proof (cases rule: buf_ok_cases)
  case empty
  then show ?thesis
    using assms(2) assms(3) [of w] by (simp add: excom_buffer_destroy_def bids_def)
next
  case (block i bs)
  have eq: "(\<lambda>j. if j \<in> bids b then None else blocks w j) = (blocks w)(i := None)"
    using block by (auto simp: bids_def)
  have "wp (excom_free (Ptr i 0)) (\<lambda>_. Q (b\<lparr>b_max := 0, b_used := 0, b_buf := Null, b_pos := 0\<rparr>)) w"
    by (rule free_wp [OF refl]) (use block eq in \<open>auto simp: bids_def intro: assms(3)\<close>)
  then show ?thesis
    using assms(2) block by (simp add: excom_buffer_destroy_def)
qed

lemma buf_ok_destroyed [simp]:
  "buf_ok w (b\<lparr>b_max := 0, b_used := 0, b_buf := Null, b_pos := 0\<rparr>)"
  "pending w (b\<lparr>b_max := 0, b_used := 0, b_buf := Null, b_pos := 0\<rparr>) = []"
  "contents w (b\<lparr>b_max := 0, b_used := 0, b_buf := Null, b_pos := 0\<rparr>) = []"
  "bids (b\<lparr>b_max := 0, b_used := 0, b_buf := Null, b_pos := 0\<rparr>) = {}"
  by (simp_all add: buf_ok_def pending_def contents_def bids_def)

section \<open>Flushing\<close>

text \<open>What the next \<open>write\<close> of \<open>n\<close> bytes does: how many it takes, and the error number.\<close>

definition write_answer :: "(int + nat) list \<Rightarrow> nat \<Rightarrow> nat \<times> int" where
  "write_answer os n =
     (if n = 0 then (0, 0)
      else case os of [] \<Rightarrow> (0, EAGAIN) | Inl e # _ \<Rightarrow> (0, e) | Inr k # _ \<Rightarrow> (min k n, 0))"

text \<open>The effect of one call of \<open>excom_buffer_write\<close>.\<close>

definition flushed :: "int \<Rightarrow> world \<Rightarrow> buffer \<Rightarrow> int \<Rightarrow> world \<Rightarrow> buffer \<Rightarrow> bool" where
  "flushed sock w b r w' b' \<longleftrightarrow>
     (let (k, e) = write_answer (outs w) (length (pending w b)) in
      r = e \<and> buf_ok w' b' \<and> pending w' b' = drop k (pending w b) \<and>
      wire w' = (wire w)(sock := wire w sock @ take k (pending w b)) \<and>
      outs w' = (if pending w b = [] then outs w else tl (outs w)) \<and> fresh w' = fresh w \<and>
      ioframe (bids b) w w' \<and> bids b' \<subseteq> bids b \<and>
      b_unmutable b' = b_unmutable b \<and> b_freeable b' = b_freeable b \<and> b_init b' = b_init b \<and>
      b_mutex b' = b_mutex b \<and> unat (b_used b') \<le> unat (b_used b) \<and>
      (if pending w b \<noteq> [] \<and> drop k (pending w b) = [] \<and> b_freeable b
       then b_buf b' = Null \<and> (\<forall>i \<in> bids b. blocks w' i = None)
       else blocks w' = blocks w \<and> contents w' b' = contents w b))"

lemma flushed_frame: "flushed sock w b r w' b' \<Longrightarrow> ioframe (bids b) w w'"
  by (simp add: flushed_def split: prod.splits)

lemma flushed_ready:
  assumes "flushed sock w b r w' b'" and "ready w b"
  shows "ready w' b'"
proof -
  have "hwf w'" "plenty w'"
    using flushed_frame [OF assms(1)] assms(2) by (auto simp: ready_def intro: ioframe_hwf ioframe_plenty)
  with assms show ?thesis
    by (simp add: ready_def flushed_def split: prod.splits)
qed

lemma flushed_stream:
  "flushed sock w b r w' b' \<Longrightarrow> wire w' sock @ pending w' b' = wire w sock @ pending w b"
  by (auto simp: flushed_def split: prod.splits)

lemma flushed_used: "flushed sock w b r w' b' \<Longrightarrow> unat (b_used b') \<le> unat (b_used b)"
  by (simp add: flushed_def split: prod.splits)

lemma pending_reads:
  assumes "buf_ok w b"
  shows "reads w (ptr_add (b_buf b) (unat (b_pos b))) (length (pending w b)) (pending w b)"
  using assms
proof (cases rule: buf_ok_cases)
  case empty
  then show ?thesis by (simp add: pending_def contents_def)
next
  case (block i bs)
  then have "pending w b = take (unat (b_used b) - unat (b_pos b)) (drop (unat (b_pos b)) bs)"
    by (simp add: pending_def contents_def drop_take)
  moreover have "length (pending w b) = unat (b_used b) - unat (b_pos b)"
    using block by (simp add: pending_def contents_def)
  ultimately show ?thesis
    using block by (cases "pending w b = []") (auto simp: reads_Ptr)
qed


lemma sys_write_wp:
  assumes rd: "reads w p n bs"
    and no: "\<And>w' e. w' = w\<lparr>outs := tl (outs w), errno := e\<rparr> \<Longrightarrow>
      (outs w = [] \<and> e = EAGAIN \<or> outs w \<noteq> [] \<and> hd (outs w) = Inl e) \<Longrightarrow> Q (Inl e) w'"
    and yes: "\<And>w' k os. outs w = Inr k # os \<Longrightarrow>
      w' = w\<lparr>outs := os, wire := (wire w)(sock := wire w sock @ take (min k n) bs)\<rparr> \<Longrightarrow> Q (Inr (min k n)) w'"
  shows "wp (sys_write sock p n) Q w"
proof -
  have "wp (\<lambda>w. case outs w of
       [] \<Rightarrow> Inr (Inl EAGAIN, w\<lparr>errno := EAGAIN\<rparr>)
     | Inl e # os \<Rightarrow> Inr (Inl e, w\<lparr>outs := os, errno := e\<rparr>)
     | Inr k # os \<Rightarrow> (let k = min k n in
         Inr (Inr k, w\<lparr>outs := os, wire := (wire w)(sock := wire w sock @ take k bs)\<rparr>))) Q w"
  proof (cases "outs w")
    case Nil
    then have "w\<lparr>errno := EAGAIN\<rparr> = w\<lparr>outs := tl (outs w), errno := EAGAIN\<rparr>" by simp
    then show ?thesis using Nil no [of "w\<lparr>errno := EAGAIN\<rparr>" EAGAIN] by (simp add: wp_def)
  next
    case (Cons a os)
    then show ?thesis using no yes by (cases a) (auto simp: wp_def Let_def)
  qed
  then show ?thesis
    unfolding sys_write_def wp_bind by (rule load_wp [OF rd])
qed

lemma advance:
  assumes "buf_ok w b" and "k \<le> length (pending w b)"
  shows "unat (b_pos b + of_nat k) = unat (b_pos b) + k"
    and "buf_ok w (b\<lparr>b_pos := b_pos b + of_nat k\<rparr>)"
    and "contents w (b\<lparr>b_pos := b_pos b + of_nat k\<rparr>) = contents w b"
    and "pending w (b\<lparr>b_pos := b_pos b + of_nat k\<rparr>) = drop k (pending w b)"
    and "bids (b\<lparr>b_pos := b_pos b + of_nat k\<rparr>) = bids b"
proof -
  have le: "unat (b_pos b) + k \<le> unat (b_used b)"
    using assms by (auto simp: pending_def length_contents elim: buf_ok_cases)
  have "unat (of_nat k :: size_t) = k"
    using le unat_size_bound [of "b_used b"] by (simp add: unat_of_nat)
  then show u: "unat (b_pos b + of_nat k) = unat (b_pos b) + k"
    using le unat_size_bound [of "b_used b"] by (subst unat_plus_no_overflow) simp_all
  have "k = 0" if "b_buf b = Null"
    using assms(2) that by (simp add: pending_def contents_def)
  then show "buf_ok w (b\<lparr>b_pos := b_pos b + of_nat k\<rparr>)"
    using assms(1) le u by (auto simp: buf_ok_def split: ptr.splits)
  show c: "contents w (b\<lparr>b_pos := b_pos b + of_nat k\<rparr>) = contents w b"
    by (simp add: contents_def split: ptr.split)
  show "pending w (b\<lparr>b_pos := b_pos b + of_nat k\<rparr>) = drop k (pending w b)"
    using c u by (simp add: pending_def add.commute)
  show "bids (b\<lparr>b_pos := b_pos b + of_nat k\<rparr>) = bids b"
    by (simp add: bids_def)
qed

lemma state_irrelevant [simp]:
  "buf_ok (w\<lparr>outs := x, wire := y\<rparr>) b = buf_ok w b" "buf_ok (w\<lparr>outs := x, errno := e\<rparr>) b = buf_ok w b"
  "contents (w\<lparr>outs := x, wire := y\<rparr>) b = contents w b" "contents (w\<lparr>outs := x, errno := e\<rparr>) b = contents w b"
  "pending (w\<lparr>outs := x, wire := y\<rparr>) b = pending w b" "pending (w\<lparr>outs := x, errno := e\<rparr>) b = pending w b"
  by (simp_all add: buf_ok_def contents_def pending_def cong: ptr.case_cong)

lemma ioframe_written [simp]:
  "ioframe I w (w\<lparr>outs := x, wire := y\<rparr>)" "ioframe I w (w\<lparr>outs := x, errno := e\<rparr>)"
  by (simp_all add: ioframe_def mframe_def same_env_def hwf_def)

text \<open>What the writer does once the socket has taken \<open>n\<close> of the pending bytes: with the last of them it releases a freeable buffer.\<close>

lemma write_done_wp:
  assumes ok: "buf_ok w b" and ne: "pending w b \<noteq> []" and lock: "\<not> b_mutex b" and outs: "outs w = Inr k # os"
    and n: "n = min k (length (pending w b))"
    and w': "w' = w\<lparr>outs := os, wire := (wire w)(sock := wire w sock @ take n (pending w b))\<rparr>"
  shows "wp (let buffer = b\<lparr>b_mutex := True, b_pos := b_pos b + of_nat n\<rparr>
      in bind (if excom_buffer_remaining buffer = 0 \<and> b_freeable buffer
               then bind (unlock_buffer buffer) (\<lambda>buffer. bind (excom_buffer_destroy buffer) (\<lambda>buffer. lock_buffer buffer))
               else ret buffer) (\<lambda>buffer. bind (unlock_buffer buffer) (\<lambda>buffer. ret (0, buffer))))
    (\<lambda>(r, b') w'. flushed sock w b r w' b') w'"
proof -
  let ?p = "pending w b" and ?b = "b\<lparr>b_pos := b_pos b + of_nat n\<rparr>"
  have locked: "excom_buffer_remaining (b\<lparr>b_mutex := m, b_pos := x\<rparr>) = excom_buffer_remaining (b\<lparr>b_pos := x\<rparr>)"
    for m x by (simp add: excom_buffer_remaining_def)
  have adv: "buf_ok w' ?b" "pending w' ?b = drop n ?p" "contents w' ?b = contents w b" "bids ?b = bids b"
    using advance [OF ok, of n] n w' by simp_all
  have r0: "excom_buffer_remaining ?b = 0 \<longleftrightarrow> drop n ?p = []"
    using remaining_pending [OF adv(1)] adv(2) by (metis length_0_conv unat_eq_0)
  show ?thesis
  proof (cases "drop n ?p = [] \<and> b_freeable b")
    case True
    have "wp (excom_buffer_destroy ?b) (\<lambda>b'. wp (bind (lock_buffer b') (\<lambda>b'. bind (unlock_buffer b')
            (\<lambda>b'. ret (0, b')))) (\<lambda>(r, b') w''. flushed sock w b r w'' b')) w'"
    proof (rule buffer_destroy_wp [OF adv(1)], goal_cases)
      case 1
      then show ?case using True by simp
    next
      case (2 w2)
      have "ioframe (bids b) w w'" using w' by simp
      then have "ioframe (bids b) w w2"
        using mframe_ioframe [OF 2(3)] by (rule ioframe_trans) (simp add: adv(4))
      moreover have "wire w2 = wire w'" "outs w2 = outs w'" using 2(3) by (simp_all add: mframe_envD)
      ultimately show ?case
        using True ne lock outs n w' 2(1,2) adv(4) by (simp add: flushed_def write_answer_def)
    qed
    then show ?thesis
      using True r0 lock by (simp add: Let_def locked)
  next
    case no: False
    have "flushed sock w b 0 w' ?b"
      using ne no lock outs adv n w' by (auto simp: flushed_def write_answer_def)
    then show ?thesis
      using no r0 lock by (auto simp: Let_def locked)
  qed
qed

lemma buffer_write_wp:
  assumes ok: "buf_ok w b" and wf: "hwf w" and lock: "\<not> b_mutex b"
  shows "wp (excom_buffer_write b sock) (\<lambda>(r, b') w'. flushed sock w b r w' b') w"
proof (cases "pending w b = []")
  case True
  then have "excom_buffer_remaining b = 0"
    using remaining_pending [OF ok] by (simp add: unat_eq_0)
  then show ?thesis
    using ok True by (simp add: excom_buffer_write_def flushed_def write_answer_def)
next
  case False
  let ?p = "pending w b"
  have sel: "b_pos (b\<lparr>b_mutex := m\<rparr>) = b_pos b" "b_buf (b\<lparr>b_mutex := m\<rparr>) = b_buf b" for m
    by simp_all
  have rem: "excom_buffer_remaining b \<noteq> 0" "unat (excom_buffer_remaining b) = length ?p"
    using False remaining_pending [OF ok] by (auto simp: unat_eq_0 [symmetric])
  have "wp (sys_write sock (ptr_add (b_buf b) (unat (b_pos b))) (length ?p))
    (\<lambda>written. wp (case written of
             Inl _ \<Rightarrow>
               bind (asks errno) (\<lambda>err.
               bind (set_errno 0) (\<lambda>_.
               bind (unlock_buffer (b\<lparr>b_mutex := True\<rparr>)) (\<lambda>buffer. ret (err, buffer))))
           | Inr n \<Rightarrow>
               let buffer = b\<lparr>b_mutex := True, b_pos := b_pos b + of_nat n\<rparr>
               in bind (if excom_buffer_remaining buffer = 0 \<and> b_freeable buffer
                        then bind (unlock_buffer buffer) (\<lambda>buffer.
                             bind (excom_buffer_destroy buffer) (\<lambda>buffer. lock_buffer buffer))
                        else ret buffer) (\<lambda>buffer.
                  bind (unlock_buffer buffer) (\<lambda>buffer. ret (0, buffer))))
      (\<lambda>(r, b') w'. flushed sock w b r w' b')) w"
  proof (rule sys_write_wp [OF pending_reads [OF ok]], goal_cases)
    case (1 w' e)
    then show ?case
      using False lock ok
      by (cases "outs w") (auto simp: set_errno_def flushed_def write_answer_def)
  next
    case (2 w' k os)
    show ?case
      unfolding sum.case by (rule write_done_wp [OF ok False lock 2(1) refl 2(2)])
  qed
  then show ?thesis
    unfolding excom_buffer_write_def if_P [OF rem(1)] Let_def lock_buffer_simps(1) [OF lock] bind_ret
      wp_bind mutex_irrelevant rem(2) sel
    by simp
qed


section \<open>Runs of appends and flushes\<close>

datatype buf_op = Put "byte list" | Flush

text \<open>A schedule of operations on one buffer; the results of all calls are returned.\<close>

primrec run_ops :: "int \<Rightarrow> buffer \<Rightarrow> buf_op list \<Rightarrow> (int list \<times> buffer) cmd" where
  "run_ops sock b [] = ret ([], b)"
| "run_ops sock b (x # xs) =
     bind (case x of Put bs \<Rightarrow> put_bytes b bs | Flush \<Rightarrow> excom_buffer_write b sock) (\<lambda>(r, b').
     bind (run_ops sock b' xs) (\<lambda>(rs, b''). ret (r # rs, b'')))"

primrec put_data :: "buf_op list \<Rightarrow> byte list" where
  "put_data [] = []"
| "put_data (x # xs) = (case x of Put bs \<Rightarrow> bs | Flush \<Rightarrow> []) @ put_data xs"

lemma appended_pending:
  assumes "appended w b bs w' b'" and "buf_ok w b"
  shows "pending w' b' = pending w b @ bs"
proof -
  have "unat (b_pos b) \<le> length (contents w b)"
    using assms(2) by (auto simp: length_contents elim: buf_ok_cases)
  with assms(1) show ?thesis by (simp add: appended_def pending_def)
qed

lemma run_ops_fifo:
  assumes "ready w b" and "unat (b_used b) + length (put_data xs) < 2 ^ 32"
  shows "wp (run_ops sock b xs) (\<lambda>(rs, b') w'. ready w' b' \<and>
           wire w' sock @ pending w' b' = wire w sock @ pending w b @ put_data xs) w"
  using assms
proof (induction xs arbitrary: w b)
  case Nil
  then show ?case by simp
next
  case (Cons x xs)
  have ok: "buf_ok w b" "hwf w" "\<not> b_mutex b" using Cons.prems(1) by (simp_all add: ready_def)
  have step: "wp (case x of Put bs \<Rightarrow> put_bytes b bs | Flush \<Rightarrow> excom_buffer_write b sock) (\<lambda>(r, b1) w1.
      ready w1 b1 \<and> unat (b_used b1) + length (put_data xs) < 2 ^ 32 \<and>
      wire w1 sock @ pending w1 b1 = wire w sock @ pending w b @ put_data [x]) w"
  proof (cases x)
    case (Put bs)
    have "wp (put_bytes b bs) (\<lambda>(r, b') w'. r = 0 \<and> appended w b bs w' b') w"
      by (rule put_bytes_ready) (use Cons.prems Put in auto)
    then show ?thesis
      unfolding Put buf_op.case
      by (rule wp_mono)
         (use Cons.prems(2) Put ok in \<open>auto simp: appended_def bstep_def mframe_envD dest: appended_pending [rotated]\<close>)
  next
    case Flush
    show ?thesis
      unfolding Flush buf_op.case
    proof (rule wp_mono [OF buffer_write_wp [OF ok]], clarify, intro conjI)
      fix r b1 w1 assume f: "flushed sock w b r w1 b1"
      show "ready w1 b1" using f Cons.prems(1) by (rule flushed_ready)
      show "unat (b_used b1) + length (put_data xs) < 2 ^ 32"
        using flushed_used [OF f] Cons.prems(2) Flush by simp
      show "wire w1 sock @ pending w1 b1 = wire w sock @ pending w b @ put_data [Flush]"
        using flushed_stream [OF f] by simp
    qed
  qed
  show ?case
    unfolding run_ops.simps wp_bind
    by (rule wp_mono [OF step], clarsimp, rule wp_mono [OF Cons.IH]) auto
qed

end
