(* ===== verification/Format.thy ===== *)
theory Format
  imports BufferIO
begin

text \<open>
  Formatted output into a buffer, \<open>excom_buffer_format\<close> of \<open>src/excom/buffer.c\<close>. The format is
  the list of its bytes before the NUL; a read past the NUL is a fault. The variable arguments
  are a list of tagged values, and \<open>va_arg\<close> with another type than the next argument has, or
  past the last one, is a fault. The code asks for them in the order of the directives.

  The specification \<open>render\<close> says which bytes a format and its arguments stand for; the lemma
  \<open>format_loop_ready\<close> shows that the loop appends just these.
\<close>

section \<open>Model\<close>

datatype fmt_arg = ArgStr ptr | ArgString xstring | ArgU32 u32

definition va_string :: "fmt_arg list \<Rightarrow> (ptr \<times> fmt_arg list) cmd" where
  "va_string va = (case va of ArgStr p # va' \<Rightarrow> ret (p, va') | _ \<Rightarrow> fail BadVarArg)"

definition va_xstring :: "fmt_arg list \<Rightarrow> (xstring \<times> fmt_arg list) cmd" where
  "va_xstring va = (case va of ArgString s # va' \<Rightarrow> ret (s, va') | _ \<Rightarrow> fail BadVarArg)"

definition va_u32 :: "fmt_arg list \<Rightarrow> (u32 \<times> fmt_arg list) cmd" where
  "va_u32 va = (case va of ArgU32 n # va' \<Rightarrow> ret (n, va') | _ \<Rightarrow> fail BadVarArg)"

text \<open>The switch on the directive. An unknown one is reported on stderr and skipped.\<close>

definition format_directive :: "buffer \<Rightarrow> byte \<Rightarrow> fmt_arg list \<Rightarrow> (int \<times> buffer \<times> fmt_arg list) cmd" where
  "format_directive out c va =
     (if c = 115 then
        bind (va_string va) (\<lambda>(tmp, va).
        bind (strlen tmp) (\<lambda>n.
        bind (excom_buffer_cappend out tmp (of_nat n)) (\<lambda>(err, out). ret (err, out, va))))
      else if c = 83 then
        bind (va_xstring va) (\<lambda>(str, va).
        bind (excom_buffer_sappend out str) (\<lambda>(err, out). ret (err, out, va)))
      else if c = 98 then
        bind (va_u32 va) (\<lambda>(s, va).
        bind (va_string va) (\<lambda>(tmp, va).
        bind (excom_buffer_cappend out tmp (ucast s)) (\<lambda>(err, out). ret (err, out, va))))
      else if c = 37 then
        bind (excom_buffer_cappend out (Lit [37, 0]) 1) (\<lambda>(err, out). ret (err, out, va))
      else ret (0, out, va))"

lemma dropWhile_shorter: "dropWhile P xs = y # ys \<Longrightarrow> length ys < length xs"
  by (metis length_Cons length_dropWhile_le less_eq_Suc_le)

text \<open>
  The loop: \<open>cur\<close> is the rest of the format. The part up to the next percent sign is appended,
  then the directive after it is carried out; after a percent sign at the end of the format the
  directive is the NUL, and \<open>cur = pos + 2\<close> is past it.
\<close>

function format_loop :: "buffer \<Rightarrow> byte list \<Rightarrow> fmt_arg list \<Rightarrow> (int \<times> buffer) cmd" where
  "format_loop out cur va =
     (let lit = takeWhile (\<lambda>c. c \<noteq> 37) cur in
      case dropWhile (\<lambda>c. c \<noteq> 37) cur of
        [] \<Rightarrow>
          (if cur \<noteq> [] then excom_buffer_cappend out (Lit (cur @ [0])) (of_nat (length cur))
           else ret (0, out))
      | _ # rest \<Rightarrow>
          bind (if lit \<noteq> [] then excom_buffer_cappend out (Lit (cur @ [0])) (of_nat (length lit))
                else ret (0, out)) (\<lambda>(err, out).
          if err \<noteq> 0 then ret (err, out)
          else (case rest of
              [] \<Rightarrow> fail OutOfBounds
            | c # cur' \<Rightarrow>
                bind (format_directive out c va) (\<lambda>(err, out, va).
                if err \<noteq> 0 then ret (err, out) else format_loop out cur' va))))"
  by pat_completeness auto

termination
  by (relation "measure (\<lambda>(out, cur, va). length cur)") (auto dest!: dropWhile_shorter)

declare format_loop.simps [simp del]

definition excom_buffer_format :: "buffer \<Rightarrow> byte list \<Rightarrow> fmt_arg list \<Rightarrow> (int \<times> buffer) cmd" where
  "excom_buffer_format out format va =
     (if b_unmutable out then ret (EACCES, out) else format_loop out format va)"

section \<open>What a format stands for\<close>

text \<open>The value of an argument in a world, and the bytes a format yields on such values.\<close>

datatype fmt_val = ValStr "byte list" | ValString "byte list" | ValU32 u32

definition arg_val :: "world \<Rightarrow> fmt_arg \<Rightarrow> fmt_val \<Rightarrow> bool" where
  "arg_val w a v \<longleftrightarrow>
     (case a of
        ArgStr p \<Rightarrow> (\<exists>bs. v = ValStr bs \<and> cstr w p bs)
      | ArgString s \<Rightarrow> (\<exists>bs. v = ValString bs \<and> str_val w s bs)
      | ArgU32 n \<Rightarrow> v = ValU32 n)"

lemma arg_val_simps [simp]:
  "arg_val w a (ValStr bs) \<longleftrightarrow> (\<exists>p. a = ArgStr p \<and> cstr w p bs)"
  "arg_val w a (ValString bs) \<longleftrightarrow> (\<exists>s. a = ArgString s \<and> str_val w s bs)"
  "arg_val w a (ValU32 n) \<longleftrightarrow> a = ArgU32 n"
  by (auto simp: arg_val_def split: fmt_arg.splits)

definition arg_ids :: "fmt_arg \<Rightarrow> nat set" where
  "arg_ids a = (case a of ArgStr p \<Rightarrow> pids p | ArgString s \<Rightarrow> pids (s_body s) | ArgU32 _ \<Rightarrow> {})"

definition render_directive :: "byte \<Rightarrow> fmt_val list \<Rightarrow> (byte list \<times> fmt_val list) option" where
  "render_directive c vs =
     (if c = 115 then (case vs of ValStr bs # vs' \<Rightarrow> Some (bs, vs') | _ \<Rightarrow> None)
      else if c = 83 then (case vs of ValString bs # vs' \<Rightarrow> Some (bs, vs') | _ \<Rightarrow> None)
      else if c = 98 then
        (case vs of ValU32 n # ValStr bs # vs' \<Rightarrow>
           if unat n \<le> length bs then Some (take (unat n) bs, vs') else None | _ \<Rightarrow> None)
      else if c = 37 then Some ([37], vs)
      else Some ([], vs))"

function render :: "byte list \<Rightarrow> fmt_val list \<Rightarrow> byte list option" where
  "render cur vs =
     (case dropWhile (\<lambda>c. c \<noteq> 37) cur of
        [] \<Rightarrow> Some cur
      | [_] \<Rightarrow> None
      | _ # c # cur' \<Rightarrow>
          (case render_directive c vs of None \<Rightarrow> None
           | Some (bs, vs') \<Rightarrow>
               map_option (\<lambda>r. takeWhile (\<lambda>c. c \<noteq> 37) cur @ bs @ r) (render cur' vs')))"
  by pat_completeness auto
termination
  by (relation "measure (\<lambda>(cur, vs). length cur)") (auto dest!: dropWhile_shorter)

declare render.simps [simp del]

section \<open>The loop appends what the format stands for\<close>

lemma takeWhile_of_nat:
  fixes bs :: "byte list"
  assumes "length bs < 2 ^ 32"
  shows "unat (of_nat (length bs) :: size_t) = length bs"
  using assms by (intro unat_of_nat_length) simp

lemma append_lit_ready:
  assumes "ready w b" and "length bs \<le> length xs" and "take (length bs) xs = bs"
    and "unat (b_used b) + length bs < 2 ^ 32"
  shows "wp (excom_buffer_cappend b (Lit xs) (of_nat (length bs))) (\<lambda>(r, b') w'. r = 0 \<and> appended w b bs w' b') w"
  by (rule cappend_ready) (use assms takeWhile_of_nat [of bs] in simp_all)

lemma args_frame:
  assumes "list_all2 (arg_val w) va vs" and "appended w b bs w' b'" and "hwf w"
    and "\<forall>a \<in> set va. arg_ids a \<inter> bids b = {} \<and> (\<forall>i \<in> arg_ids a. i < fresh w)"
  shows "list_all2 (arg_val w') va vs"
    and "\<forall>a \<in> set va. arg_ids a \<inter> bids b' = {} \<and> (\<forall>i \<in> arg_ids a. i < fresh w')"
proof -
  have f: "mframe (bids b) w w'" and n: "\<And>i. i \<in> bids b' \<Longrightarrow> i \<in> bids b \<or> fresh w \<le> i"
    using assms(2) by (auto simp: appended_def bstep_def)
  have one: "arg_val w' a v" if "arg_val w a v" "arg_ids a \<inter> bids b = {}" for a v
  proof (cases a)
    case (ArgStr p)
    then show ?thesis
      using that cstr_mframe [OF _ f assms(3), of p] by (auto simp: arg_val_def arg_ids_def)
  next
    case (ArgString s)
    then show ?thesis
      using that str_val_mframe [OF _ f assms(3), of s] by (auto simp: arg_val_def arg_ids_def)
  next
    case (ArgU32 n)
    then show ?thesis using that by (simp add: arg_val_def)
  qed
  show "list_all2 (arg_val w') va vs"
    using assms(1,4) by (induction rule: list_all2_induct) (auto intro: one)
  show "\<forall>a \<in> set va. arg_ids a \<inter> bids b' = {} \<and> (\<forall>i \<in> arg_ids a. i < fresh w')"
  proof (intro ballI conjI)
    fix a i assume a: "a \<in> set va"
    then have old: "arg_ids a \<inter> bids b = {}" "\<And>i. i \<in> arg_ids a \<Longrightarrow> i < fresh w"
      using assms(4) by auto
    then show "arg_ids a \<inter> bids b' = {}" using n by (meson disjoint_iff not_le)
    assume "i \<in> arg_ids a"
    then show "i < fresh w'" using old(2) mframe_fresh [OF f] by (meson less_le_trans)
  qed
qed

lemma directive_ready:
  assumes r: "ready w b" and vs: "list_all2 (arg_val w) va vs" and d: "render_directive c vs = Some (bs, vs')"
    and sep: "\<forall>a \<in> set va. arg_ids a \<inter> bids b = {} \<and> (\<forall>i \<in> arg_ids a. i < fresh w)"
    and fit: "unat (b_used b) + length bs < 2 ^ 32"
  shows "wp (format_directive b c va) (\<lambda>(r, b', va') w'. r = 0 \<and> appended w b bs w' b' \<and>
    list_all2 (arg_val w) va' vs' \<and> set va' \<subseteq> set va) w"
proof -
  have lit: "wp (excom_buffer_cappend b p (of_nat (length xs))) (\<lambda>(r, b') w'. r = 0 \<and> appended w b xs w' b') w"
    if "cstr w p xs" "pids p \<inter> bids b = {}" "unat (b_used b) + length xs < 2 ^ 32" for p xs
    by (rule cappend_ready) (use r that takeWhile_of_nat [of xs] in \<open>auto intro: cstr_reads\<close>)
  consider (s) "c = 115" | (S) "c = 83" | (b) "c = 98" | (pc) "c = 37" | (other) "c \<notin> {115, 83, 98, 37}"
    by auto
  then show ?thesis
  proof cases
    case s
    with d obtain p va1 where va: "va = ArgStr p # va1" "cstr w p bs" "list_all2 (arg_val w) va1 vs'"
      using vs by (auto simp: render_directive_def list_all2_Cons2 split: list.splits fmt_val.splits)
    have sp: "pids p \<inter> bids b = {}" using sep va(1) by (simp add: arg_ids_def)
    show ?thesis
      using s va
      by (auto simp: format_directive_def va_string_def intro!: strlen_wp wp_mono [OF lit [OF va(2) sp fit]])
  next
    case S
    with d obtain str va1 where va: "va = ArgString str # va1" "str_val w str bs" "list_all2 (arg_val w) va1 vs'"
      using vs by (auto simp: render_directive_def list_all2_Cons2 split: list.splits fmt_val.splits)
    have "wp (excom_buffer_sappend b str) (\<lambda>(r, b') w'. r = 0 \<and> appended w b bs w' b') w"
      by (rule sappend_ready) (use r va sep fit in \<open>auto simp: arg_ids_def str_val_length\<close>)
    then show ?thesis
      using S va by (auto simp: format_directive_def va_xstring_def elim!: wp_mono)
  next
    case b
    with d obtain n xs vs1 where v: "vs = ValU32 n # ValStr xs # vs1" "unat n \<le> length xs"
        "bs = take (unat n) xs" "vs' = vs1"
      by (auto simp: render_directive_def split: list.splits fmt_val.splits if_splits)
    then obtain p va1 where va: "va = ArgU32 n # ArgStr p # va1" "cstr w p xs" "list_all2 (arg_val w) va1 vs'"
      using vs by (auto simp: list_all2_Cons2)
    have rd: "reads w p (unat (ucast n :: size_t)) bs"
      using reads_take [OF cstr_reads [OF va(2)] v(2)] v(3) by simp
    have "wp (excom_buffer_cappend b p (ucast n)) (\<lambda>(r, b') w'. r = 0 \<and> appended w b bs w' b') w"
      by (rule cappend_ready [OF r rd]) (use va sep fit v in \<open>auto simp: arg_ids_def\<close>)
    then show ?thesis
      using b va by (auto simp: format_directive_def va_string_def va_u32_def elim!: wp_mono)
  next
    case pc
    then have bs: "bs = [37]" "vs' = vs" using d by (simp_all add: render_directive_def)
    have "wp (excom_buffer_cappend b (Lit [37, 0]) 1) (\<lambda>(r, b') w'. r = 0 \<and> appended w b bs w' b') w"
      by (rule cappend_ready [OF r]) (use bs fit in simp_all)
    then show ?thesis
      using pc vs bs by (auto simp: format_directive_def elim!: wp_mono)
  next
    case other
    then show ?thesis
      using d vs r by (auto simp: render_directive_def format_directive_def appended_refl)
  qed
qed

text \<open>The bytes before the next directive.\<close>

lemma literal_ready:
  fixes cur :: "byte list"
  defines "lit \<equiv> takeWhile (\<lambda>c. c \<noteq> 37) cur"
  assumes r: "ready w b" and fit: "unat (b_used b) + length lit < 2 ^ 32"
  shows "wp (if lit \<noteq> [] then excom_buffer_cappend b (Lit (cur @ [0])) (of_nat (length lit)) else ret (0, b))
    (\<lambda>(r, b') w'. r = 0 \<and> appended w b lit w' b') w"
proof (cases "lit = []")
  case True
  then show ?thesis using r by (simp add: appended_refl)
next
  case False
  have "cur @ [0] = lit @ (dropWhile (\<lambda>c. c \<noteq> 37) cur @ [0])" by (simp add: lit_def)
  then have "take (length lit) (cur @ [0]) = lit" by (metis append_eq_conv_conj)
  then have "wp (excom_buffer_cappend b (Lit (cur @ [0])) (of_nat (length lit))) (\<lambda>(r, b') w'. r = 0 \<and> appended w b lit w' b') w"
    using fit by (intro append_lit_ready [OF r]) (simp_all add: lit_def length_takeWhile_le le_SucI)
  then show ?thesis using False by (simp only: not_False_eq_True if_True)
qed

lemma format_loop_ready:
  assumes "ready w b" and "list_all2 (arg_val w) va vs" and "render cur vs = Some bs"
    and "\<forall>a \<in> set va. arg_ids a \<inter> bids b = {} \<and> (\<forall>i \<in> arg_ids a. i < fresh w)"
    and "unat (b_used b) + length bs < 2 ^ 32"
  shows "wp (format_loop b cur va) (\<lambda>(r, b') w'. r = 0 \<and> appended w b bs w' b') w"
  using assms
proof (induction "length cur" arbitrary: cur w b va vs bs rule: less_induct)
  case less
  note r = less.prems(1) and vs = less.prems(2) and sep = less.prems(4) and fit = less.prems(5)
  show ?case
  proof (cases "dropWhile (\<lambda>c. c \<noteq> 37) cur")
    case Nil
    then have "bs = cur" using less.prems(3) by (simp add: render.simps [of cur vs] del: dropWhile_eq_Nil_conv)
    then show ?thesis
      using r fit append_lit_ready [OF r, of cur "cur @ [0]"]
      by (subst format_loop.simps) (simp add: Nil appended_refl del: dropWhile_eq_Nil_conv)
  next
    case (Cons d rest)
    let ?lit = "takeWhile (\<lambda>c. c \<noteq> 37) cur"
    obtain c cur' where rest: "rest = c # cur'"
      using less.prems(3) Cons by (cases rest) (simp_all add: render.simps)
    obtain ds vs' xs where x: "render_directive c vs = Some (ds, vs')" "render cur' vs' = Some xs"
        "bs = ?lit @ ds @ xs"
      using less.prems(3) Cons rest by (subst (asm) render.simps) (auto split: option.splits)
    have shorter: "length cur' < length cur"
      using dropWhile_shorter [OF Cons] rest by simp
    have room: "unat (b_used b) + length ?lit < 2 ^ 32" using fit x(3) by simp
    note first = literal_ready [OF r room]
    show ?thesis
      unfolding format_loop.simps [of b cur va] Cons rest Let_def list.case wp_bind
    proof (rule wp_mono [OF first], clarsimp, goal_cases)
      case (1 b1 w1)
      have h: "hwf w" using r by (simp add: ready_def)
      note a1 = args_frame [OF vs 1 h sep]
      have r1: "ready w1 b1" and u1: "unat (b_used b1) = unat (b_used b) + length ?lit"
        using 1 by (simp_all add: appended_def)
      have fit1: "unat (b_used b1) + length ds < 2 ^ 32" using u1 fit x(3) by simp
      show ?case
      proof (rule wp_mono [OF directive_ready [OF r1 a1(1) x(1) a1(2) fit1]], clarsimp, goal_cases)
        case (1 b2 va2 w2)
        have h1: "hwf w1" using r1 by (simp add: ready_def)
        have sep1: "\<forall>a \<in> set va2. arg_ids a \<inter> bids b1 = {} \<and> (\<forall>i \<in> arg_ids a. i < fresh w1)"
          using a1(2) 1(3) by blast
        note a2 = args_frame [OF 1(2,1) h1 sep1]
        have r2: "ready w2 b2" and "unat (b_used b2) = unat (b_used b1) + length ds"
          using 1(1) by (simp_all add: appended_def)
        then have fit2: "unat (b_used b2) + length xs < 2 ^ 32" using u1 fit x(3) by simp
        have all: "appended w b (?lit @ ds) w2 b2"
          using \<open>appended w b ?lit w1 b1\<close> 1(1) by (rule appended_trans)
        show ?case
          by (rule wp_mono [OF less.hyps [OF shorter r2 a2(1) x(2) a2(2) fit2]])
             (use appended_trans [OF all] x(3) in auto)
      qed
    qed
  qed
qed

end
