(* ===== verification/BufferProps.thy ===== *)
theory BufferProps
  imports BufferIO Format
begin

text \<open>The properties of the buffer, from the rules of the theories \<open>Buffer\<close> and \<open>BufferIO\<close>.\<close>

section \<open>Concrete buffers\<close>

text \<open>A world whose heap is one block, and a buffer on it.\<close>

definition block_world :: "byte list \<Rightarrow> world" where
  "block_world bs = idle_world\<lparr>blocks := [0 \<mapsto> bs], fresh := 1\<rparr>"

definition block_buffer :: "size_t \<Rightarrow> size_t \<Rightarrow> size_t \<Rightarrow> buffer" where
  "block_buffer cap used pos = \<lparr>b_init = cap, b_max = cap, b_used = used, b_pos = pos, b_buf = Ptr 0 0,
     b_unmutable = False, b_freeable = True, b_mutex = False\<rparr>"

lemma block_world_simps [simp]:
  "blocks (block_world bs) = [0 \<mapsto> bs]" "fresh (block_world bs) = 1" "hwf (block_world bs)"
  "plenty (block_world bs)" "mallocs (block_world bs) = []" "outs (block_world bs) = []"
  "wire (block_world bs) d = []" "entropy (block_world bs) = []"
  "little (block_world bs)" "slack (block_world bs) = 1"
  by (simp_all add: block_world_def hwf_def plenty_def)

lemma block_buffer_simps [simp]:
  "b_init (block_buffer c u p) = c" "b_max (block_buffer c u p) = c" "b_used (block_buffer c u p) = u"
  "b_pos (block_buffer c u p) = p" "b_buf (block_buffer c u p) = Ptr 0 0"
  "\<not> b_unmutable (block_buffer c u p)" "b_freeable (block_buffer c u p)" "\<not> b_mutex (block_buffer c u p)"
  "bids (block_buffer c u p) = {0}"
  by (simp_all add: block_buffer_def bids_def)

lemma block_buffer_ok [simp]:
  "buf_ok (block_world bs) (block_buffer c u p) \<longleftrightarrow>
     length bs = unat c \<and> unat c < 2 ^ 63 \<and> unat u \<le> unat c \<and> unat p \<le> unat u"
  "ready (block_world bs) (block_buffer c u p) \<longleftrightarrow>
     length bs = unat c \<and> unat c < 2 ^ 63 \<and> unat u \<le> unat c \<and> unat p \<le> unat u"
  "contents (block_world bs) (block_buffer c u p) = take (unat u) bs"
  "pending (block_world bs) (block_buffer c u p) = drop (unat p) (take (unat u) bs)"
  by (simp_all add: buf_ok_def ready_def contents_def pending_def)

section \<open>The resize loop\<close>

text \<open>
  C29. The loop of \<open>excom_buffer_resize\<close> ends for every current size below \<open>2 ^ 63\<close> and every
  request up to \<open>2 ^ 63\<close>: at the least proper doubling of the current size that holds the
  request, with no doubling wrapping around. The size doubles at least once, also when the
  request already fits.
\<close>

theorem resize_loop_terminates:
  assumes "0 < unat s" and "unat s < 2 ^ 63" and "unat t \<le> 2 ^ 63"
  shows "\<exists>r k. grow s t = Some r \<and> 0 < k \<and> unat r = unat s * 2 ^ k \<and> unat t \<le> unat r \<and>
           (k = 1 \<or> unat s * 2 ^ (k - 1) < unat t)"
  using assms by (rule grow_Some)

theorem resize_loop_terminates_witness:
  "\<exists>r k. grow 32 100 = Some r \<and> 0 < k \<and> unat r = 32 * 2 ^ k \<and> 100 \<le> unat r \<and> (k = 1 \<or> 32 * 2 ^ (k - 1) < (100::nat))"
  using resize_loop_terminates [of 32 100] by simp

text \<open>A power of two, or the 0 that doubling \<open>2 ^ 63\<close> wraps to, never exceeds \<open>2 ^ 63\<close>.\<close>

definition pow2z :: "size_t \<Rightarrow> bool" where
  "pow2z x \<longleftrightarrow> x = 0 \<or> (\<exists>k<64. unat x = 2 ^ k)"

lemma pow2z_double: "pow2z x \<Longrightarrow> pow2z (x * 2)"
proof (cases "x = 0")
  case False
  assume "pow2z x"
  with False obtain k where k: "k < 64" "unat x = 2 ^ k" by (auto simp: pow2z_def)
  show "pow2z (x * 2)"
  proof (cases "k = 63")
    case True
    then have "unat (x * 2) = 0" using k by (simp add: unat_word_ariths)
    then show ?thesis by (simp add: pow2z_def unat_eq_0)
  next
    case False
    then have "(2::nat) ^ k < 2 ^ 63" using k(1) by (intro power_strict_increasing) simp_all
    then have "unat (x * 2) = 2 ^ Suc k" using k(2) by (simp add: unat_double)
    then show ?thesis using False k(1) unfolding pow2z_def by (intro disjI2 exI [of _ "Suc k"]) simp
  qed
qed (simp add: pow2z_def)

lemma pow2z_le: "pow2z x \<Longrightarrow> unat x \<le> 2 ^ 63"
proof -
  assume "pow2z x"
  then consider "x = 0" | k where "k < 64" "unat x = 2 ^ k" by (auto simp: pow2z_def)
  then show ?thesis
  proof cases
    case 2
    then have "(2::nat) ^ k \<le> 2 ^ 63" by (intro power_increasing) simp_all
    with 2 show ?thesis by simp
  qed simp
qed

lemma grow_result: "grow s t = Some r \<Longrightarrow> pow2z s \<longrightarrow> pow2z r \<and> \<not> r < t"
proof (erule grow.raw_induct [rotated, where P = "\<lambda>s t r. pow2z s \<longrightarrow> pow2z r \<and> \<not> r < t"])
  fix f s t r
  assume IH: "\<And>s t r. f s t = Some r \<Longrightarrow> pow2z s \<longrightarrow> pow2z r \<and> \<not> r < t"
    and eq: "(let new_size = s * 2 in if new_size < t then f new_size t else Some new_size) = Some r"
  show "pow2z s \<longrightarrow> pow2z r \<and> \<not> r < t"
    using IH eq pow2z_double [of s] by (auto simp: Let_def split: if_splits)
qed

lemma grow_None:
  assumes "pow2z s" and "2 ^ 63 < unat t"
  shows "grow s t = None"
proof (cases "grow s t")
  case (Some r)
  then have "pow2z r" "\<not> r < t" using grow_result assms(1) by auto
  then have "unat r \<le> 2 ^ 63" "unat t \<le> unat r"
    using pow2z_le [of r] by (simp_all add: not_less word_le_nat_alt)
  with assms(2) show ?thesis by simp
qed simp

text \<open>
  For a buffer whose size is a power of two, as the code creates all of them, a request above
  \<open>2 ^ 63\<close> makes the loop run for ever: the size wraps to 0 and stays there.
\<close>

theorem resize_loop_diverges:
  assumes "unat (b_max b) = 2 ^ k" and "k < 64" and "2 ^ 63 < unat t"
  shows "excom_buffer_resize b t w = Inl Diverges"
proof -
  have p: "pow2z (b_max b)" using assms(1,2) by (auto simp: pow2z_def)
  have "b_max b \<noteq> 0" using assms(1) by (auto simp: unat_eq_0 [symmetric])
  then have "grow (if b_max b = 0 then 1 else b_max b) t = None"
    using grow_None [OF p assms(3)] by simp
  then show ?thesis by (simp add: excom_buffer_resize_def fail_def)
qed

theorem resize_loop_diverges_witness:
  "excom_buffer_resize (block_buffer 32 0 0) 0x8000000000000001 idle_world = Inl Diverges"
  by (rule resize_loop_diverges [of _ 5]) simp_all


section \<open>Appending\<close>

lemma same_blocks:
  assumes "blocks w' = blocks w"
  shows "buf_ok w' b = buf_ok w b" "contents w' b = contents w b" "pending w' b = pending w b"
  using assms by (simp_all add: buf_ok_def contents_def pending_def cong: ptr.case_cong)

text \<open>
  C27. \<open>excom_buffer_cappend\<close> on a usable buffer and readable bytes outside it never faults, keeps
  the buffer well formed and its mutex free, and always returns 0: it appends exactly the bytes,
  but when growing the buffer runs out of memory it returns 0 as well, with nothing appended and
  \<open>errno\<close> cleared (the error number was taken from \<open>errno\<close> after \<open>excom_buffer_resize\<close> had
  cleared it).
\<close>

theorem buffer_cappend_correct:
  assumes "buf_ok w b" and "hwf w" and "\<not> b_mutex b" and "\<not> b_unmutable b"
    and "reads w p (unat n) bs" and "pids p \<inter> bids b = {}" and "unat (b_used b) + unat n \<le> 2 ^ 63"
  shows "wp (excom_buffer_cappend b p n) (\<lambda>(r, b') w'. r = 0 \<and> buf_ok w' b' \<and> \<not> b_mutex b' \<and>
    (if append_fails w b n
     then b' = b \<and> blocks w' = blocks w \<and> contents w' b' = contents w b \<and> errno w' = 0
     else contents w' b' = contents w b @ bs \<and> unat (b_used b') = unat (b_used b) + unat n)) w"
proof -
  have sum: "unat (b_used b + n) = unat (b_used b) + unat n"
    using assms(7) by (intro unat_plus_no_overflow) simp
  have c: "cappend = append_core b p n" if "cappend = excom_buffer_cappend b p n" for cappend
    using that assms(4) by (simp add: cappend_core)
  show ?thesis
    unfolding c [OF refl]
  proof (rule append_core_wp [OF assms(1-3,5-7)], goal_cases)
    case (1 w')
    then show ?case using assms(1,3) same_blocks [OF 1(2)] by simp
  next
    case (2 w' b')
    then show ?case using assms(3) sum by (simp add: bstep_def)
  qed
qed

theorem buffer_cappend_correct_witness:
  "wp (excom_buffer_cappend (block_buffer 2 1 0) (Lit [7, 8, 9]) 3)
     (\<lambda>(r, b') w'. r = 0 \<and> contents w' b' = [1, 7, 8, 9]) (block_world [1, 2])
   \<and> append_fails (block_world [1, 2]\<lparr>mallocs := [True]\<rparr>) (block_buffer 2 1 0) 3"
proof
  have "\<not> append_fails (block_world [1, 2]) (block_buffer 2 1 0) 3"
    by (rule append_succeeds) simp_all
  then show "wp (excom_buffer_cappend (block_buffer 2 1 0) (Lit [7, 8, 9]) 3)
     (\<lambda>(r, b') w'. r = 0 \<and> contents w' b' = [1, 7, 8, 9]) (block_world [1, 2])"
    by (intro wp_mono [OF buffer_cappend_correct [where bs = "[7, 8, 9]"]]) auto
  show "append_fails (block_world [1, 2]\<lparr>mallocs := [True]\<rparr>) (block_buffer 2 1 0) 3"
    by (simp add: append_fails_def grows_def malloc_fails_def)
qed

text \<open>A resize for which malloc fails, whatever the request.\<close>

lemma resize_oom:
  assumes "malloc_fails (new_capacity b t) w" and "excom_buffer_resize b t w = Inr x"
  shows "x = ((ENOMEM, b), w\<lparr>mallocs := tl (mallocs w), errno := 0\<rparr>)"
proof (cases "grow (if b_max b = 0 then 1 else b_max b) t")
  case None
  then show ?thesis using assms(2) by (simp add: excom_buffer_resize_def fail_def)
next
  case (Some c)
  then have "malloc_fails c w" using assms(1) by (simp add: new_capacity_def)
  then have "excom_malloc c w = Inr (Null, w\<lparr>mallocs := tl (mallocs w), errno := ENOMEM\<rparr>)"
    by (auto simp: excom_malloc_def malloc_fails_def Let_def)
  then show ?thesis
    using assms(2) unfolding excom_buffer_resize_def Let_def Some option.case
    by (simp add: bind_Inr [where m = "excom_malloc c"])
       (simp add: excom_return_errno_def asks_def set_errno_def modify_def ret_def bind_def)
qed

text \<open>
  \<open>excom_buffer_sappend\<close> ignores a failed resize: when growing the buffer runs out of memory
  it copies the string past the end of the block (or through the null pointer of a destroyed
  buffer) whenever the string is not empty.
\<close>

theorem buffer_sappend_overflow:
  assumes "buf_ok w b" and "hwf w" and "\<not> b_mutex b" and "\<not> b_unmutable b"
    and "str_val w s bs" and "s_size s \<noteq> 0" and "append_fails w b (ucast (s_size s))"
  shows "\<exists>f. excom_buffer_sappend b s w = Inl f"
proof -
  let ?n = "ucast (s_size s) :: size_t"
  let ?t = "b_used b + ?n" and ?l = "b\<lparr>b_mutex := True\<rparr>"
  have g: "b_max b < ?t" and mf: "malloc_fails (new_capacity b ?t) w"
    using assms(7) by (simp_all add: append_fails_def grows_def)
  have "unat ?t = unat (b_used b) + unat (s_size s)"
    using unat_u32_bound [of "s_size s"] assms(1)
    by (subst unat_plus_no_overflow) (auto elim!: buf_ok_cases)
  then have over: "unat (b_max b) < unat (b_used b) + unat (s_size s)"
    using g by (simp add: word_less_nat_alt)
  have pos: "0 < unat (s_size s)" using assms(6) by (simp add: unat_gt_0)
  have copy: "\<exists>f. memcpy (ptr_add (b_buf b) (unat (b_used b))) (s_body s) (unat (s_size s)) w' = Inl f"
    if "blocks w' = blocks w" for w'
  proof (cases "load (s_body s) (unat (s_size s)) w'")
    case (Inl f)
    then show ?thesis by (simp add: memcpy_def bind_Inl)
  next
    case (Inr x)
    then obtain a where a: "load (s_body s) (unat (s_size s)) w' = Inr (a, w')" "length a = unat (s_size s)"
      using load_length load_same_world by (cases x) fastforce
    have ne: "a \<noteq> []" using a(2) pos by auto
    have "\<exists>f. store (ptr_add (b_buf b) (unat (b_used b))) a w' = Inl f"
      using assms(1) over that a(2) ne by (cases rule: buf_ok_cases) (auto simp: store_def)
    then show ?thesis using a(1) by (simp add: memcpy_def bind_Inr)
  qed
  show ?thesis
  proof (cases "excom_buffer_resize ?l ?t w")
    case (Inl e)
    then show ?thesis
      using assms(3,4) g by (simp add: excom_buffer_sappend_def bind_Inl [where m = "excom_buffer_resize ?l ?t"])
  next
    case (Inr x)
    then have "x = ((ENOMEM, ?l), w\<lparr>mallocs := tl (mallocs w), errno := 0\<rparr>)"
      using resize_oom [of ?l ?t] mf by simp
    with Inr obtain f where "memcpy (ptr_add (b_buf b) (unat (b_used b))) (s_body s) (unat (s_size s))
        (w\<lparr>mallocs := tl (mallocs w), errno := 0\<rparr>) = Inl f"
      using copy [of "w\<lparr>mallocs := tl (mallocs w), errno := 0\<rparr>"] by auto
    then show ?thesis
      using assms(3,4) g Inr \<open>x = _\<close>
      by (simp add: excom_buffer_sappend_def bind_Inr [where m = "excom_buffer_resize ?l ?t"]
          bind_Inl [where m = "memcpy (ptr_add (b_buf b) (unat (b_used b))) (s_body s) (unat (s_size s))"])
  qed
qed

theorem buffer_sappend_overflow_witness:
  "\<exists>f. excom_buffer_sappend (block_buffer 2 2 0) abc_string (block_world [1, 2]\<lparr>mallocs := [True]\<rparr>) = Inl f"
  by (rule buffer_sappend_overflow [where bs = "[97, 98, 99]"])
     (simp_all add: append_fails_def grows_def malloc_fails_def buf_ok_def hwf_def)


text \<open>
  A resize keeps the bytes and every flag. On success the capacity is the one the doubling loop
  computed, and the read position is the old one modulo \<open>2 ^ 32\<close>: the code keeps it in a
  \<open>uint32_t\<close> while it moves the block, so it is lost in a buffer read past 4 GiB. When malloc
  fails the buffer is unchanged and the error is ENOMEM.
\<close>

theorem buffer_resize_correct:
  assumes "buf_ok w b" and "hwf w" and "unat t \<le> 2 ^ 63"
  shows "wp (excom_buffer_resize b t) (\<lambda>(r, b') w'. contents w' b' = contents w b \<and> buf_ok w' b' \<and>
    (if malloc_fails (new_capacity b t) w then r = ENOMEM \<and> b' = b \<and> errno w' = 0
     else r = 0 \<and> b_max b' = new_capacity b t \<and> unat t \<le> unat (b_max b') \<and> b_used b' = b_used b \<and>
          unat (b_pos b') = unat (b_pos b) mod 2 ^ 32)) w"
proof (rule resize_wp [OF assms], goal_cases)
  case (1 w')
  then show ?case using same_blocks [OF 1(2)] assms(1) by simp
next
  case (2 w' b')
  then show ?case by (simp add: bstep_def unat_pos32)
qed

theorem buffer_resize_correct_witness:
  "wp (excom_buffer_resize (block_buffer 2 2 1) 3) (\<lambda>(r, b') w'. contents w' b' = [5, 6] \<and> buf_ok w' b')
     (block_world [5, 6])"
  by (rule wp_mono [OF buffer_resize_correct]) auto

text \<open>
  \<open>excom_buffer_bappend_remaining\<close> appends exactly what is still to be read in the source,
  which it leaves as it was, on buffers with different blocks and less than 4 GiB in total.
\<close>

theorem buffer_drain_correct:
  assumes "ready w b" and "buf_ok w src" and "bids src \<inter> bids b = {}"
    and "unat (b_used b) + length (pending w src) < 2 ^ 32"
  shows "wp (excom_buffer_bappend_remaining b src) (\<lambda>(r, b') w'. r = 0 \<and> ready w' b' \<and>
    contents w' b' = contents w b @ pending w src \<and> contents w' src = contents w src) w"
proof -
  have n: "unat (b_used src - b_pos src) = length (pending w src)"
    using remaining_pending [OF assms(2)] by (simp add: excom_buffer_remaining_def)
  have rd: "reads w (ptr_add (b_buf src) (unat (b_pos src))) (unat (b_used src - b_pos src)) (pending w src)"
    unfolding n by (rule pending_reads [OF assms(2)])
  have h: "hwf w" using assms(1) by (simp add: ready_def)
  show ?thesis
    unfolding excom_buffer_bappend_remaining_def
  proof (rule wp_mono [OF bappend_remaining2_ready [OF assms(1) rd assms(3) assms(4) [folded n]]], clarsimp, goal_cases)
    case (1 b' w')
    then have f: "mframe (bids b) w w'" by (simp add: appended_def bstep_def)
    show ?case
      using 1 buf_frame(2) [OF assms(2) h f assms(3)] by (simp add: appended_def)
  qed
qed

theorem buffer_drain_correct_witness:
  "wp (excom_buffer_bappend_remaining (block_buffer 2 1 0)
         \<lparr>b_init = 3, b_max = 3, b_used = 3, b_pos = 1, b_buf = Ptr 1 0, b_unmutable = False,
          b_freeable = True, b_mutex = False\<rparr>)
     (\<lambda>(r, b') w'. contents w' b' = [5, 8, 9]) (idle_world\<lparr>blocks := [0 \<mapsto> [5, 6], 1 \<mapsto> [7, 8, 9]], fresh := 2\<rparr>)"
  by (rule wp_mono [OF buffer_drain_correct])
     (auto simp: ready_def buf_ok_def bids_def pending_def contents_def hwf_def plenty_def)

text \<open>
  C26. Formatted output: when the directives of the format match the arguments, the strings can be
  read and lie outside the buffer, \<open>excom_buffer_format\<close> returns 0 and appends exactly what the
  format stands for (\<open>render\<close>): the literal parts, C strings, \<open>excom_string_t\<close> bodies, counted
  bytes and percent signs, in order.
\<close>

theorem buffer_format_correct:
  assumes "ready w b" and "list_all2 (arg_val w) va vs" and "render fmt vs = Some bs"
    and "\<forall>a \<in> set va. arg_ids a \<inter> bids b = {} \<and> (\<forall>i \<in> arg_ids a. i < fresh w)"
    and "unat (b_used b) + length bs < 2 ^ 32"
  shows "wp (excom_buffer_format b fmt va) (\<lambda>(r, b') w'. r = 0 \<and> ready w' b' \<and>
    contents w' b' = contents w b @ bs \<and> b_pos b' = b_pos b) w"
  using wp_mono [OF format_loop_ready [OF assms]] assms(1)
  by (simp add: excom_buffer_format_def ready_def appended_def case_prod_unfold)

theorem buffer_format_correct_witness:
  "wp (excom_buffer_format (block_buffer 2 0 0) [65, 37, 115, 37, 37, 37, 83] [ArgStr (Lit [66, 67, 0]), ArgString abc_string])
     (\<lambda>(r, b') w'. contents w' b' = [65, 66, 67, 37, 97, 98, 99]) (block_world [0, 0])"
  by (rule wp_mono [OF buffer_format_correct
        [where vs = "[ValStr [66, 67], ValString [97, 98, 99]]" and bs = "[65, 66, 67, 37, 97, 98, 99]"]])
     (auto simp: render.simps render_directive_def cstr_def arg_ids_def)

section \<open>The life of a buffer\<close>

text \<open>
  C12. A buffer is a byte queue. For every schedule of appends and of flushes, and whatever each
  \<open>write\<close> does (an error, a short count, all of it), the bytes that reached the descriptor
  followed by the bytes still pending are the bytes that were there before followed by the bytes
  appended, in order: nothing is lost, repeated or reordered, and the buffer stays usable.
\<close>

theorem buffer_fifo:
  assumes "ready w b" and "unat (b_used b) + length (put_data xs) < 2 ^ 32"
  shows "wp (run_ops sock b xs) (\<lambda>(rs, b') w'. ready w' b' \<and>
           wire w' sock @ pending w' b' = wire w sock @ pending w b @ put_data xs) w"
  using assms by (rule run_ops_fifo)

theorem buffer_fifo_witness:
  "wp (run_ops 7 (block_buffer 2 0 0) [Put [1, 2, 3], Flush, Put [4], Flush])
     (\<lambda>(rs, b') w'. wire w' 7 @ pending w' b' = [1, 2, 3, 4])
     (block_world [0, 0]\<lparr>outs := [Inr 2, Inl EAGAIN]\<rparr>)"
  by (rule wp_mono [OF buffer_fifo])
     (auto simp: ready_def buf_ok_def hwf_def plenty_def pending_def contents_def block_world_def)

lemma destroyed_blocks:
  assumes "bstep w1 b w2 b'" and "hwf w" and "mframe {} w w1" and "fresh w1 = Suc (fresh w)"
    and "bids b = {fresh w}"
  shows "(\<lambda>i. if i \<in> bids b' then None else blocks w2 i) = blocks w"
proof
  fix i
  have f: "mframe {fresh w} w1 w2" using assms(1,5) by (simp add: bstep_def)
  have split: "fresh w1 \<le> i \<or> i \<in> bids b \<longleftrightarrow> fresh w \<le> i"
    unfolding assms(4,5) singleton_iff by arith
  have c: "fresh w \<le> i \<Longrightarrow> i \<notin> bids b' \<Longrightarrow> blocks w2 i = None"
    and n: "i \<in> bids b' \<Longrightarrow> fresh w \<le> i"
    using bstepD(3,4) [OF assms(1), of i] split by blast+
  show "(if i \<in> bids b' then None else blocks w2 i) = blocks w i"
  proof (cases "i < fresh w")
    case True
    then have "blocks w2 i = blocks w1 i" "blocks w1 i = blocks w i"
      using assms(4) by (simp_all add: mframe_blocks [OF f] mframe_blocks [OF assms(3)])
    moreover have "i \<notin> bids b'" using True n by fastforce
    ultimately show ?thesis by simp
  next
    case False
    then have "blocks w i = None" using assms(2) by (simp add: hwf_def)
    then show ?thesis using c False by auto
  qed
qed

text \<open>
  C28. Creating a buffer, appending any sequence of byte strings (with the resizes this takes) and
  destroying it gives the heap back as it was: no block leaks and none that was there is touched.
\<close>

theorem buffer_lifecycle:
  assumes "hwf w" and "plenty w" and "n < 2 ^ 63" and "length (concat xs) < 2 ^ 32"
  shows "wp (bind (excom_buffer_init b0 n) (\<lambda>(_, b). bind (put_all put_bytes b xs) (\<lambda>(r, b).
           bind (excom_buffer_destroy b) (\<lambda>b. ret (r, b))))) (\<lambda>(r, b) w'. r = 0 \<and> blocks w' = blocks w) w"
  unfolding wp_bind
proof (rule wp_mono [OF buffer_init_wp [OF assms(1-3)]], clarsimp, goal_cases)
  case (1 w1)
  let ?b = "\<lparr>b_init = n, b_max = n, b_used = 0, b_pos = 0, b_buf = Ptr (fresh w) 0,
     b_unmutable = False, b_freeable = True, b_mutex = False\<rparr>"
  have fit: "length (contents w1 ?b) + length (concat xs) < 2 ^ 32"
    using assms(4) by (simp add: contents_def)
  show ?case
  proof (rule wp_mono [OF sink.put_all_wp [OF 1(1) fit]], clarsimp, goal_cases)
    case (1 b2 w2)
    have ok: "buf_ok w2 b2" "b_freeable b2" using 1 by (simp_all add: bstep_def)
    have id: "bids ?b = {fresh w}" by (simp add: bids_def)
    show ?case
      by (rule buffer_destroy_wp [OF ok])
         (use destroyed_blocks [OF 1(2) assms(1) \<open>mframe {} w w1\<close> \<open>fresh w1 = _\<close> id] in simp)
  qed
qed

theorem buffer_lifecycle_witness:
  "wp (bind (excom_buffer_init (block_buffer 0 0 0) 2) (\<lambda>(_, b). bind (put_all put_bytes b [[1], [2, 3]]) (\<lambda>(r, b).
     bind (excom_buffer_destroy b) (\<lambda>b. ret (r, b))))) (\<lambda>(r, b) w'. r = 0 \<and> blocks w' = [0 \<mapsto> [9]]) (block_world [9])"
  by (rule wp_mono [OF buffer_lifecycle]) (auto simp del: wp_bind)


lemma null_append:
  assumes "b_buf b = Null" and "\<not> b_unmutable b" and "\<not> b_mutex b" and "b_used b = 0"
    and "0 < unat n" and "unat n \<le> unat (b_max b)"
  shows "\<exists>f. excom_buffer_cappend b p n w = Inl f"
proof (cases "load p (unat n) w")
  case (Inl f)
  then show ?thesis
    using assms by (simp add: excom_buffer_cappend_def memcpy_def bind_def word_less_nat_alt ret_def)
next
  case (Inr x)
  then have "fst x \<noteq> []" using assms(5) load_length [of p "unat n" w "fst x" "snd x"] by auto
  then show ?thesis
    using assms Inr
    by (cases x) (simp add: excom_buffer_cappend_def memcpy_def bind_def word_less_nat_alt ret_def store_def)
qed

text \<open>
  Resetting a freeable buffer. When malloc succeeds the buffer is empty, well formed, mutable
  again, of its first capacity and in a block of its own, and the old block is free. When malloc
  fails the result is ENOMEM, but the buffer claims its first capacity with no block behind it:
  the next append that seems to fit goes through the null pointer.
\<close>

theorem buffer_reset_correct:
  assumes "buf_ok w b" and "hwf w" and "b_freeable b" and "\<not> b_mutex b"
    and "0 < unat n" and "unat n \<le> unat (b_init b)"
  shows "wp (excom_buffer_reset b) (\<lambda>(r, b') w'. \<not> b_mutex b' \<and> \<not> b_unmutable b' \<and> b_max b' = b_init b \<and>
    (\<forall>i \<in> bids b. blocks w' i = None) \<and>
    (if malloc_fails (b_init b) w
     then r = ENOMEM \<and> (\<exists>f. excom_buffer_cappend b' p n w' = Inl f)
     else r = 0 \<and> buf_ok w' b' \<and> contents w' b' = [] \<and> bids b' \<inter> bids b = {})) w"
proof -
  let ?l = "b\<lparr>b_mutex := True\<rparr>"
  have ok: "buf_ok w ?l" "b_freeable ?l" using assms(1,3) by simp_all
  have step: "wp (excom_buffer_destroy ?l) (\<lambda>b'. wp
     (let b' = b'\<lparr>b_max := b_init b', b_used := 0, b_unmutable := False, b_freeable := True\<rparr>
     in bind (excom_malloc (b_max b')) (\<lambda>q.
     let b' = b'\<lparr>b_buf := q, b_pos := 0\<rparr>
     in if q = Null then
          bind (asks errno) (\<lambda>err.
          bind (set_errno 0) (\<lambda>_.
          bind (unlock_buffer b') (\<lambda>b'. ret (err, b'))))
        else bind (unlock_buffer b') (\<lambda>b'. ret (0, b'))))
     (\<lambda>(r, b') w'. \<not> b_mutex b' \<and> \<not> b_unmutable b' \<and> b_max b' = b_init b \<and>
       (\<forall>i \<in> bids b. blocks w' i = None) \<and>
       (if malloc_fails (b_init b) w
        then r = ENOMEM \<and> (\<exists>f. excom_buffer_cappend b' p n w' = Inl f)
        else r = 0 \<and> buf_ok w' b' \<and> contents w' b' = [] \<and> bids b' \<inter> bids b = {}))) w"
  proof (rule buffer_destroy_wp [OF ok], goal_cases)
    case (1 w1)
    have same: "malloc_fails m w1 = malloc_fails m w" for m
      using 1(5) by (simp add: malloc_fails_def)
    have old: "i < fresh w1" if "i \<in> bids b" for i
      using bids_below [OF assms(1,2) that] 1(2) by simp
    show ?case
      unfolding Let_def wp_bind
    proof (rule malloc_wp, goal_cases)
      case (1 w2)
      note w2 = this
      let ?b = "b\<lparr>b_max := b_init b, b_used := 0, b_unmutable := False, b_freeable := True,
         b_buf := Null, b_pos := 0, b_mutex := False\<rparr>"
      have "\<exists>f. excom_buffer_cappend ?b p n v = Inl f" for v
        by (rule null_append) (use assms(5,6) in simp_all)
      then show ?case
        using w2 same \<open>blocks w1 = _\<close> by (simp add: set_errno_def)
    next
      case (2 w2 js)
      have "unat (b_init b) < 2 ^ 63"
        using malloc_small [OF 2(1)] by simp
      then show ?case
        using 2 same \<open>blocks w1 = _\<close> old assms(2) by (auto simp: buf_ok_def contents_def bids_def)
    qed
  qed
  then show ?thesis
    using assms(4) by (simp add: excom_buffer_reset_def)
qed


theorem buffer_reset_correct_witness:
  "wp (excom_buffer_reset (block_buffer 2 2 1)) (\<lambda>(r, b') w'. r = ENOMEM \<and>
     (\<exists>f. excom_buffer_cappend b' (Lit [1]) 1 w' = Inl f)) (block_world [5, 6]\<lparr>mallocs := [True]\<rparr>)"
  by (rule wp_mono [OF buffer_reset_correct [where n = 1 and p = "Lit [1]"]])
     (auto simp: malloc_fails_def buf_ok_def hwf_def)

end
