(* ===== verification/Encryption.thy ===== *)
theory Encryption
  imports BufferIO
begin

text \<open>
  Public-key encryption of buffers, \<open>src/excom/encryption.c\<close>. The NaCl functions and constants the
  code calls come from libsodium and are a parameter of the model (\<open>sodium\<close>); what its
  documentation promises of them is the predicate \<open>sodium_ok\<close>, and \<open>xor_sodium\<close> is a concrete
  instance that meets it.

  The lemmas: what the two buffer functions append on every successful run, that they free the
  two blocks they allocate, and that decryption inverts encryption between two parties that have
  each other's public key.
\<close>

section \<open>libsodium\<close>

record sodium =
  box_NONCEBYTES :: nat
  box_ZEROBYTES :: nat
  box_PUBLICKEYBYTES :: nat
  box_SECRETKEYBYTES :: nat
  box_BEFORENMBYTES :: nat
  secretbox_KEYBYTES :: nat
  box_public :: "byte list \<Rightarrow> byte list"
  box_beforenm :: "byte list \<Rightarrow> byte list \<Rightarrow> byte list"
  box_afternm :: "byte list \<Rightarrow> byte list \<Rightarrow> byte list \<Rightarrow> byte list option"
  box_open_afternm :: "byte list \<Rightarrow> byte list \<Rightarrow> byte list \<Rightarrow> byte list option"

text \<open>
  The documented constants; a message that starts with the zero bytes encrypts to a ciphertext of
  its length, which opens to the message under the same nonce and key; nothing shorter than the
  zero bytes opens; the shared key of two pairs is the same on both sides.
\<close>

definition sodium_ok :: "sodium \<Rightarrow> bool" where
  "sodium_ok S \<longleftrightarrow>
     box_NONCEBYTES S = 24 \<and> box_ZEROBYTES S = 32 \<and> box_PUBLICKEYBYTES S = 32 \<and>
     box_SECRETKEYBYTES S = 32 \<and> box_BEFORENMBYTES S = 32 \<and> secretbox_KEYBYTES S = 32 \<and>
     (\<forall>s. length (box_public S s) = 32) \<and>
     (\<forall>p s. length (box_beforenm S p s) = 32) \<and>
     (\<forall>a b. length a = 32 \<longrightarrow> length b = 32 \<longrightarrow>
        box_beforenm S (box_public S a) b = box_beforenm S (box_public S b) a) \<and>
     (\<forall>m n k. take 32 m = replicate 32 0 \<longrightarrow> length n = 24 \<longrightarrow> length k = 32 \<longrightarrow>
        (\<exists>c. box_afternm S m n k = Some c \<and> length c = length m \<and> box_open_afternm S c n k = Some m)) \<and>
     (\<forall>c n k m. box_open_afternm S c n k = Some m \<longrightarrow> length m = length c \<and> 32 \<le> length c)"

section \<open>Model\<close>

record encrypt_pair =
  ep_pkey :: "byte list"
  ep_skey :: "byte list"

record encrypt =
  e_remote_active :: bool
  e_remote_pkey :: "byte list"
  e_local :: "encrypt_pair option"
  e_nm_active :: bool
  e_nm_kkey :: "byte list"
  e_active :: bool
  e_key :: "byte list"

definition excom_encrypt_init :: "sodium \<Rightarrow> encrypt" where
  "excom_encrypt_init S =
     \<lparr>e_remote_active = False, e_remote_pkey = replicate (box_PUBLICKEYBYTES S) 0, e_local = None,
      e_nm_active = False, e_nm_kkey = replicate (box_BEFORENMBYTES S) 0,
      e_active = False, e_key = replicate (secretbox_KEYBYTES S) 0\<rparr>"

definition excom_encrypt_pair_fill :: "sodium \<Rightarrow> encrypt_pair cmd" where
  "excom_encrypt_pair_fill S =
     bind (randombytes_buf (box_SECRETKEYBYTES S)) (\<lambda>sk. ret \<lparr>ep_pkey = box_public S sk, ep_skey = sk\<rparr>)"

definition excom_encrypt_prep :: "sodium \<Rightarrow> encrypt \<Rightarrow> encrypt cmd" where
  "excom_encrypt_prep S enc =
     (if e_nm_active enc then ret enc
      else case e_local enc of
             None \<Rightarrow> fail NullDeref
           | Some l \<Rightarrow> ret (enc\<lparr>e_nm_active := True,
               e_nm_kkey := box_beforenm S (e_remote_pkey enc) (ep_skey l)\<rparr>))"

definition free_unless_null :: "ptr \<Rightarrow> unit cmd" where
  "free_unless_null p = (if p \<noteq> Null then excom_free p else ret ())"

definition excom_pencrypt_buffer2 ::
    "sodium \<Rightarrow> encrypt \<Rightarrow> buffer \<Rightarrow> buffer \<Rightarrow> size_t \<Rightarrow> (int \<times> encrypt \<times> buffer) cmd" where
  "excom_pencrypt_buffer2 S enc buf out use =
     (if use = 0 then ret (0, enc, out)
      else if b_unmutable out then ret (EACCES, enc, out)
      else
        bind (lock_buffer out) (\<lambda>out.
        let m_len = use + of_nat (box_ZEROBYTES S); c_len = m_len in
        bind (randombytes_buf (box_NONCEBYTES S)) (\<lambda>nonce.
        bind (excom_malloc m_len) (\<lambda>message.
        bind (excom_malloc c_len) (\<lambda>crypt.
        if crypt = Null \<or> message = Null then
          bind (free_unless_null message) (\<lambda>_.
          bind (free_unless_null crypt) (\<lambda>_.
          bind (unlock_buffer out) (\<lambda>out. ret (ENOMEM, enc, out))))
        else
          bind (store message (replicate (box_ZEROBYTES S) 0)) (\<lambda>_.
          bind (memcpy (ptr_add message (box_ZEROBYTES S)) (ptr_add (b_buf buf) (unat (b_pos buf))) (unat use)) (\<lambda>_.
          bind (unlock_buffer out) (\<lambda>out.
          bind (excom_encrypt_prep S enc) (\<lambda>enc.
          bind (load message (unat m_len)) (\<lambda>m.
          case box_afternm S m nonce (e_nm_kkey enc) of
            None \<Rightarrow>
              bind (excom_free message) (\<lambda>_.
              bind (excom_free crypt) (\<lambda>_. ret (-1, enc, out)))
          | Some c \<Rightarrow>
              bind (store crypt c) (\<lambda>_.
              bind (excom_free message) (\<lambda>_.
              bind (excom_buffer_cappend out (Lit nonce) (of_nat (box_NONCEBYTES S))) (\<lambda>(_, out).
              bind (excom_buffer_cappend out crypt c_len) (\<lambda>(_, out).
              bind (excom_free crypt) (\<lambda>_. ret (0, enc, out))))))))))))))))"

definition excom_pencrypt_buffer ::
    "sodium \<Rightarrow> encrypt \<Rightarrow> buffer \<Rightarrow> buffer \<Rightarrow> (int \<times> encrypt \<times> buffer) cmd" where
  "excom_pencrypt_buffer S enc buf out =
     excom_pencrypt_buffer2 S enc buf out (excom_buffer_remaining buf)"

definition excom_pdecrypt_buffer2 ::
    "sodium \<Rightarrow> encrypt \<Rightarrow> buffer \<Rightarrow> buffer \<Rightarrow> size_t \<Rightarrow> (int \<times> encrypt \<times> buffer \<times> buffer) cmd" where
  "excom_pdecrypt_buffer2 S enc buf out use =
     (if use = 0 then ret (0, enc, buf, out)
      else if b_unmutable out then ret (EACCES, enc, buf, out)
      else
        bind (lock_buffer out) (\<lambda>out.
        bind (load (ptr_add (b_buf buf) (unat (b_pos buf))) (box_NONCEBYTES S)) (\<lambda>nonce.
        let c_len = use - of_nat (box_NONCEBYTES S); m_len = c_len;
            buf = buf\<lparr>b_pos := b_pos buf + of_nat (box_NONCEBYTES S)\<rparr> in
        bind (excom_malloc c_len) (\<lambda>crypt.
        bind (excom_malloc m_len) (\<lambda>message.
        if crypt = Null \<or> message = Null then
          bind (free_unless_null message) (\<lambda>_.
          bind (free_unless_null crypt) (\<lambda>_.
          bind (unlock_buffer out) (\<lambda>out. ret (ENOMEM, enc, buf, out))))
        else
          bind (memcpy crypt (ptr_add (b_buf buf) (unat (b_pos buf))) (unat c_len)) (\<lambda>_.
          bind (unlock_buffer out) (\<lambda>out.
          bind (excom_encrypt_prep S enc) (\<lambda>enc.
          bind (set_errno 0) (\<lambda>_.
          bind (load crypt (unat c_len)) (\<lambda>c.
          case box_open_afternm S c nonce (e_nm_kkey enc) of
            None \<Rightarrow>
              bind (excom_free crypt) (\<lambda>_.
              bind (excom_free message) (\<lambda>_. ret (-1, enc, buf, out)))
          | Some m \<Rightarrow>
              bind (store message m) (\<lambda>_.
              bind (excom_free crypt) (\<lambda>_.
              bind (excom_buffer_cappend out (ptr_add message (box_ZEROBYTES S))
                      (m_len - of_nat (box_ZEROBYTES S))) (\<lambda>(_, out).
              bind (excom_free message) (\<lambda>_. ret (0, enc, buf, out)))))))))))))))"

definition excom_pdecrypt_buffer ::
    "sodium \<Rightarrow> encrypt \<Rightarrow> buffer \<Rightarrow> buffer \<Rightarrow> (int \<times> encrypt \<times> buffer \<times> buffer) cmd" where
  "excom_pdecrypt_buffer S enc buf out =
     excom_pdecrypt_buffer2 S enc buf out (excom_buffer_remaining buf)"


section \<open>An instance of the parameter\<close>

text \<open>Every byte is combined with the first byte of the key.\<close>

definition pad32 :: "byte list \<Rightarrow> byte list" where
  "pad32 bs = take 32 (bs @ replicate 32 0)"

definition xor_bytes :: "byte list \<Rightarrow> byte list \<Rightarrow> byte list" where
  "xor_bytes k m = List.map (Bit_Operations.xor (hd (pad32 k))) m"

definition xor_sodium :: sodium where
  "xor_sodium = \<lparr>box_NONCEBYTES = 24, box_ZEROBYTES = 32, box_PUBLICKEYBYTES = 32, box_SECRETKEYBYTES = 32,
     box_BEFORENMBYTES = 32, secretbox_KEYBYTES = 32,
     box_public = pad32,
     box_beforenm = (\<lambda>p s. map2 (+) (pad32 p) (pad32 s)),
     box_afternm = (\<lambda>m n k. if take 32 m = replicate 32 0 then Some (xor_bytes k m) else None),
     box_open_afternm = (\<lambda>c n k. if take 32 (xor_bytes k c) = replicate 32 0 then Some (xor_bytes k c) else None)\<rparr>"

lemma pad32_simps [simp]: "length (pad32 bs) = 32" "length bs = 32 \<Longrightarrow> pad32 bs = bs"
  by (simp_all add: pad32_def)

lemma xor_bytes_simps [simp]: "length (xor_bytes k m) = length m" "xor_bytes k (xor_bytes k m) = m"
  by (simp_all add: xor_bytes_def comp_def flip: xor.assoc)

lemma xor_sodium_ok [simp]: "sodium_ok xor_sodium"
proof -
  have "map2 (+) a b = map2 (+) b a" for a b :: "byte list"
    by (rule nth_equalityI) (simp_all add: add.commute)
  moreover have "32 \<le> length c" if "take 32 (xor_bytes k c) = replicate 32 0" for k c
    using arg_cong [OF that, of length] by simp
  ultimately show ?thesis
    by (auto simp: sodium_ok_def xor_sodium_def)
qed

section \<open>The laws, as rules\<close>

lemma sodium_constants:
  assumes "sodium_ok S"
  shows "box_NONCEBYTES S = 24" "box_ZEROBYTES S = 32" "box_PUBLICKEYBYTES S = 32"
    "box_SECRETKEYBYTES S = 32" "box_BEFORENMBYTES S = 32" "secretbox_KEYBYTES S = 32"
  using assms by (simp_all add: sodium_ok_def)

lemma box_seals:
  assumes "sodium_ok S" and "length n = 24" and "length k = 32"
  obtains c where "box_afternm S (replicate 32 0 @ m) n k = Some c" "length c = 32 + length m"
    "box_open_afternm S c n k = Some (replicate 32 0 @ m)"
proof -
  have "take 32 (replicate 32 0 @ m) = replicate 32 (0::byte)" by simp
  then have "\<exists>c. box_afternm S (replicate 32 0 @ m) n k = Some c \<and> length c = length (replicate 32 (0::byte) @ m) \<and>
      box_open_afternm S c n k = Some (replicate 32 0 @ m)"
    using assms unfolding sodium_ok_def by blast
  then show ?thesis using that by auto
qed

lemma box_opens: "sodium_ok S \<Longrightarrow> box_open_afternm S c n k = Some m \<Longrightarrow> length m = length c \<and> 32 \<le> length c"
  unfolding sodium_ok_def by blast

text \<open>The key pair state after \<open>excom_encrypt_prep\<close>: the shared key is computed once.\<close>

definition prepped :: "sodium \<Rightarrow> encrypt \<Rightarrow> encrypt" where
  "prepped S enc =
     (if e_nm_active enc then enc
      else enc\<lparr>e_nm_active := True,
             e_nm_kkey := box_beforenm S (e_remote_pkey enc) (ep_skey (the (e_local enc)))\<rparr>)"

text \<open>The state is set up: the local pair is there, and a shared key has the right length.\<close>

definition enc_ok :: "sodium \<Rightarrow> encrypt \<Rightarrow> bool" where
  "enc_ok S enc \<longleftrightarrow> e_local enc \<noteq> None \<and> (e_nm_active enc \<longrightarrow> length (e_nm_kkey enc) = 32)"

lemma encrypt_prep [simp]: "enc_ok S enc \<Longrightarrow> excom_encrypt_prep S enc = ret (prepped S enc)"
  by (auto simp: excom_encrypt_prep_def prepped_def enc_ok_def)

lemma prepped_ok [simp]:
  "sodium_ok S \<Longrightarrow> enc_ok S enc \<Longrightarrow> enc_ok S (prepped S enc)"
  "sodium_ok S \<Longrightarrow> enc_ok S enc \<Longrightarrow> length (e_nm_kkey (prepped S enc)) = 32"
  "prepped S (prepped S enc) = prepped S enc"
  "e_remote_active (prepped S enc) = e_remote_active enc"
  "e_remote_pkey (prepped S enc) = e_remote_pkey enc" "e_local (prepped S enc) = e_local enc"
  by (auto simp: prepped_def enc_ok_def sodium_ok_def)

section \<open>Two scratch blocks\<close>

lemma two_blocks_wp:
  assumes "hwf w" and "plenty w" and "n < 2 ^ 63"
    and "\<And>w' js js'. length js = unat n \<Longrightarrow> length js' = unat n \<Longrightarrow>
      blocks w' = (blocks w)(fresh w \<mapsto> js, Suc (fresh w) \<mapsto> js') \<Longrightarrow> fresh w' = Suc (Suc (fresh w)) \<Longrightarrow>
      mframe {} w w' \<Longrightarrow> errno w' = errno w \<Longrightarrow> wp (F (Ptr (fresh w) 0) (Ptr (Suc (fresh w)) 0)) Q w'"
  shows "wp (bind (excom_malloc n) (\<lambda>p. bind (excom_malloc n) (\<lambda>q.
           if q = Null \<or> p = Null then G p q else F p q))) Q w"
  unfolding wp_bind
proof (rule malloc_wp, goal_cases)
  case (1 w1)
  then show ?case using malloc_succeeds [OF assms(2,3)] by simp
next
  case (2 w1 js)
  note w1 = this
  have p1: "plenty w1" using 2(6) assms(2) by (rule mframe_plenty)
  show ?case
  proof (rule malloc_wp, goal_cases)
    case (1 w2)
    then show ?case using malloc_succeeds [OF p1 assms(3)] by simp
  next
    case (2 w2 js')
    have "mframe {} w w2" using w1(6) 2(6) by (rule mframe_trans) auto
    then show ?case
      using 2 w1 by (auto intro!: assms(4))
  qed
qed

lemma appended_temp:
  assumes a: "appended w1 b bs w2 b'" and r: "ready w b" and f: "mframe {} w w1" and k: "fresh w \<le> k" "k < fresh w1"
    and clean: "\<And>i. fresh w \<le> i \<Longrightarrow> i \<noteq> k \<Longrightarrow> blocks w1 i = None"
    and free: "blocks w3 = (blocks w2)(k := None)" and f3: "mframe {k} w2 w3"
    and e: "errno w1 = errno w" "errno w3 = errno w2"
  shows "appended w b bs w3 b'"
  by (rule appended_scratch [OF a r f, where K = "{k}"]) (use assms in auto)

section \<open>Encrypting\<close>

text \<open>The ciphertext of some data under the shared key of a state.\<close>

definition sealed :: "sodium \<Rightarrow> encrypt \<Rightarrow> byte list \<Rightarrow> byte list \<Rightarrow> byte list" where
  "sealed S enc nonce data = the (box_afternm S (replicate 32 0 @ data) nonce (e_nm_kkey (prepped S enc)))"

lemma sealed:
  assumes "sodium_ok S" and "enc_ok S enc" and "length nonce = 24"
  shows "box_afternm S (replicate 32 0 @ data) nonce (e_nm_kkey (prepped S enc)) = Some (sealed S enc nonce data)"
    and "length (sealed S enc nonce data) = 32 + length data"
    and "box_open_afternm S (sealed S enc nonce data) nonce (e_nm_kkey (prepped S enc)) =
      Some (replicate 32 0 @ data)"
proof -
  have "length (e_nm_kkey (prepped S enc)) = 32" using assms(1,2) by simp
  from box_seals [OF assms(1,3) this, of data] obtain c where
    c: "box_afternm S (replicate 32 0 @ data) nonce (e_nm_kkey (prepped S enc)) = Some c"
    "length c = 32 + length data"
    "box_open_afternm S c nonce (e_nm_kkey (prepped S enc)) = Some (replicate 32 0 @ data)" .
  have eq: "sealed S enc nonce data = c" unfolding sealed_def c(1) by simp
  show "box_afternm S (replicate 32 0 @ data) nonce (e_nm_kkey (prepped S enc)) = Some (sealed S enc nonce data)"
    unfolding eq by (rule c(1))
  show "length (sealed S enc nonce data) = 32 + length data" unfolding eq by (rule c(2))
  show "box_open_afternm S (sealed S enc nonce data) nonce (e_nm_kkey (prepped S enc)) =
      Some (replicate 32 0 @ data)" unfolding eq by (rule c(3))
qed

lemma block_pids: "blocks w i \<noteq> None \<Longrightarrow> hwf w \<Longrightarrow> i < fresh w"
  by (auto intro: allocated_below_fresh)

lemma ready_below: "ready w b \<Longrightarrow> i \<in> bids b \<Longrightarrow> i < fresh w"
  by (auto simp: ready_def intro: bids_below)

lemma ready_drawn [simp]: "ready (drawn n w) b = ready w b" "buf_ok (drawn n w) b = buf_ok w b"
  "contents (drawn n w) b = contents w b" "pending (drawn n w) b = pending w b"
  by (simp_all add: ready_def buf_ok_def contents_def pending_def cong: ptr.case_cong)

text \<open>The message in its block: the zero bytes, then the data.\<close>

lemma fill_message_wp:
  assumes "blocks w i = Some js" and "length js = 32 + n" and "reads w p n data" and "pids p \<inter> {i} = {}" and "hwf w"
    and "\<And>w'. blocks w' = (blocks w)(i \<mapsto> replicate 32 0 @ data) \<Longrightarrow> fresh w' = fresh w \<Longrightarrow>
      mframe {i} w w' \<Longrightarrow> errno w' = errno w \<Longrightarrow> wp F Q w'"
  shows "wp (bind (store (Ptr i 0) (replicate 32 0)) (\<lambda>_. bind (memcpy (ptr_add (Ptr i 0) 32) p n) (\<lambda>_. F))) Q w"
proof -
  have len: "length data = n" using assms(3) by (rule reads_length)
  show ?thesis
    unfolding wp_bind
  proof (rule store_Ptr_wp [OF assms(1)], goal_cases)
    case 1
    then show ?case using assms(2) by simp
  next
    case (2 w1)
    note w1 = this
    have rd: "reads w1 p n data" using assms(3) 2(3) assms(5,4) by (rule reads_mframe)
    let ?js = "overwrite js 0 (replicate 32 0)"
    have js: "blocks w1 i = Some ?js" "length ?js = 32 + n" using 2 assms(2) by simp_all
    show ?case
      unfolding memcpy_def wp_bind ptr_add.simps add_0
    proof (rule load_wp [OF rd], rule store_Ptr_wp [OF js(1)], goal_cases)
      case 1
      then show ?case using js(2) len by simp
    next
      case (2 w2)
      have "overwrite ?js 32 data = replicate 32 0 @ data"
        using assms(2) len by (simp add: overwrite_def)
      then have "blocks w2 = (blocks w)(i \<mapsto> replicate 32 0 @ data)" using 2(1) w1(1) by simp
      moreover have "mframe {i} w w2" using w1(3) 2(3) by (rule mframe_trans) auto
      ultimately show ?case using 2 w1 by (intro assms(6)) simp_all
    qed
  qed
qed

lemma cappend_block_ready:
  assumes "ready w b" and "blocks w i = Some bs" and "n = of_nat (length bs)" and "length bs < 2 ^ 32" and "i \<notin> bids b"
    and "unat (b_used b) + length bs < 2 ^ 32"
  shows "wp (excom_buffer_cappend b (Ptr i 0) n) (\<lambda>(r, b') w'. r = 0 \<and> appended w b bs w' b') w"
proof (rule cappend_ready [OF assms(1)])
  have n: "unat n = length bs"
    unfolding assms(3) using assms(4) by (intro unat_of_nat_length) simp
  show "reads w (Ptr i 0) (unat n) bs" using assms(2) n by (auto simp: reads_def load_def)
  show "unat (b_used b) + unat n < 2 ^ 32" using n assms(6) by simp
qed (use assms(5) in simp)

text \<open>
  Appending bytes of a temporary block \<open>g\<close>, the only one allocated since \<open>w\<close>, and releasing it: what is left is an append
  to the buffer of \<open>w\<close>.
\<close>

lemma emit_temp_wp:
  assumes pre: "appended w1 b pre w2 b'" and r: "ready w b" and f: "mframe {} w w1"
    and blk: "blocks w1 = (blocks w)(g \<mapsto> c)" and g: "fresh w \<le> g" "fresh w1 = Suc g" and e: "errno w1 = errno w"
    and rd: "\<And>w'. blocks w' g = Some c \<Longrightarrow> reads w' p (unat n) bs" and p: "pids p = {g}"
    and fit: "unat (b_used b') + unat n < 2 ^ 32"
    and K: "\<And>w3 b3. appended w b (pre @ bs) w3 b3 \<Longrightarrow> wp (K b3) Q w3"
  shows "wp (bind (excom_buffer_cappend b' p n) (\<lambda>(_, b'). bind (excom_free (Ptr g 0)) (\<lambda>_. K b'))) Q w2"
proof -
  have gb: "g \<notin> bids b" using ready_below [OF r, of g] g(1) by auto
  have s2: "bstep w1 b w2 b'" and r2: "ready w2 b'" using pre by (simp_all add: appended_def)
  have gb': "g \<notin> bids b'" using bstepD(3) [OF s2, of g] gb g by auto
  have g2: "blocks w2 g = Some c" using mframe_blocks [OF bstepD(2) [OF s2], of g] gb g blk by simp
  have sep: "pids p \<inter> bids b' = {}" using p gb' by simp
  show ?thesis
    unfolding wp_bind
  proof (rule wp_mono [OF cappend_ready [OF r2 rd [OF g2] sep fit]], goal_cases)
    case (1 x w3)
    obtain r b3 where x: "x = (r, b3)" by (cases x)
    have all: "appended w1 b (pre @ bs) w3 b3" using 1 pre unfolding x by (auto intro: appended_trans)
    then have s3: "bstep w1 b w3 b3" by (simp add: appended_def)
    show ?case
      unfolding x prod.case wp_bind
    proof (rule free_wp [OF refl], goal_cases)
      case 1
      then show ?case using mframe_blocks [OF bstepD(2) [OF s3], of g] gb g blk by simp
    next
      case (2 w4)
      show ?case
      proof (rule K, rule appended_temp [OF all assms(2) f, where k = g])
        show "blocks w4 = (blocks w3)(g := None)" "mframe {g} w3 w4" "errno w4 = errno w3" by fact+
      qed (use g blk r e assms(2) in \<open>auto simp: hwf_def ready_def\<close>)
    qed
  qed
qed

text \<open>
  The end of both operations: of the two blocks \<open>f\<close> and \<open>g\<close> allocated since \<open>w\<close>, the second takes the result and the
  first is released.
\<close>

lemma fill_free_wp:
  assumes f_def: "f = fresh w" and g_def: "g = Suc (fresh w)" and h: "hwf w"
    and blk: "blocks w2 = (blocks w)(f \<mapsto> m, g \<mapsto> js)" and c: "length c = length js"
    and fr: "fresh w2 = Suc g" and fm: "mframe {} w w2"
    and F: "\<And>w4. blocks w4 = (blocks w)(g \<mapsto> c) \<Longrightarrow> fresh w4 = Suc g \<Longrightarrow> mframe {} w w4 \<Longrightarrow> errno w4 = errno w2 \<Longrightarrow>
      wp F Q w4"
  shows "wp (bind (store (Ptr g 0) c) (\<lambda>_. bind (excom_free (Ptr f 0)) (\<lambda>_. F))) Q w2"
proof -
  have g2: "blocks w2 g = Some js" using blk by (simp add: g_def)
  show ?thesis
    unfolding wp_bind
  proof (rule store_whole_wp [OF g2 c], goal_cases)
    case (1 w3)
    note w3 = this
    show ?case
    proof (rule free_wp [OF refl], goal_cases)
      case 1
      then show ?case using w3(1) blk by (simp add: f_def g_def)
    next
      case (2 w4)
      have "blocks w4 = (blocks w)(g \<mapsto> c)"
        using 2(1) w3(1) blk h by (auto simp: fun_eq_iff hwf_def f_def g_def)
      moreover have "mframe {} w w3" using fm w3(3) by (rule mframe_trans) (simp add: g_def)
      then have "mframe {} w w4" using 2(3) by (rule mframe_trans) (simp add: f_def)
      ultimately show ?case using 2 w3 fr by (intro F) simp_all
    qed
  qed
qed

lemma seal_tail_wp:
  assumes f_def: "f = fresh w" and g_def: "g = Suc (fresh w)" and r: "ready w out"
    and blk: "blocks w2 = (blocks w)(f \<mapsto> m, g \<mapsto> js)" and c: "length c = length js" "unat n = length c"
    and fr: "fresh w2 = Suc g" and fm: "mframe {} w w2" and e: "errno w2 = errno w" and nonce: "length nonce = 24"
    and fit: "unat (b_used out) + 24 + length c < 2 ^ 32"
    and K: "\<And>out' w'. appended w out (nonce @ c) w' out' \<Longrightarrow> wp (K out') Q w'"
  shows "wp (bind (store (Ptr g 0) c) (\<lambda>_. bind (excom_free (Ptr f 0)) (\<lambda>_.
    bind (excom_buffer_cappend out (Lit nonce) 24) (\<lambda>(_, out).
    bind (excom_buffer_cappend out (Ptr g 0) n) (\<lambda>(_, out). bind (excom_free (Ptr g 0)) (\<lambda>_. K out)))))) Q w2"
proof -
  have h: "hwf w" using r by (simp add: ready_def)
  show ?thesis
  proof (rule fill_free_wp [OF f_def g_def h blk c(1) fr fm], goal_cases)
    case (1 w4)
    have r4: "ready w4 out" by (rule ready_frame [OF r 1(3)]) simp
    have e4: "errno w4 = errno w" using 1(4) e by simp
    show ?case
      unfolding wp_bind [of "excom_buffer_cappend out (Lit nonce) 24"]
    proof (rule wp_mono [OF cappend_ready [OF r4, where bs = nonce]], goal_cases)
      case (4 x w5)
      then obtain b5 where b5: "x = (0, b5)" "appended w4 out nonce w5 b5" by auto
      have used: "unat (b_used b5) + unat n < 2 ^ 32" using b5(2) nonce c fit by (simp add: appended_def)
      have rc: "reads w' (Ptr g 0) (unat n) c" if "blocks w' g = Some c" for w'
        using that c(2) by (auto simp: reads_def load_def)
      show ?case
        unfolding b5(1) prod.case
        by (rule emit_temp_wp [OF b5(2) r 1(3,1) _ 1(2) e4 rc _ used]) (simp_all add: g_def K)
    qed (use fit nonce in simp_all)
  qed
qed

lemma pencrypt_ready:
  assumes S: "sodium_ok S" and E: "enc_ok S enc" and r: "ready w out" and ok: "buf_ok w buf"
    and sep: "bids buf \<inter> bids out = {}" and use: "use \<noteq> 0" "unat use \<le> length (pending w buf)"
    and fit: "unat (b_used out) + 56 + unat use < 2 ^ 32"
    and data: "data = take (unat use) (pending w buf)"
  shows "wp (excom_pencrypt_buffer2 S enc buf out use) (\<lambda>(r, enc', out') w'. r = 0 \<and> enc' = prepped S enc \<and>
    appended (drawn 24 w) out (randomness 24 w @ sealed S enc (randomness 24 w) data) w' out') w"
proof -
  note c = sodium_constants [OF S]
  let ?n = "randomness 24 w" let ?c = "sealed S enc ?n data"
  note box = sealed [OF S E length_randomness [of 24 w], of data]
  have m: "unat (use + 32) = 32 + unat use"
    using fit by (subst unat_plus_no_overflow) simp_all
  then have m63: "use + 32 < 2 ^ 63" using fit by (simp add: word_less_nat_alt)
  have rd: "reads w (ptr_add (b_buf buf) (unat (b_pos buf))) (unat use) data"
    unfolding data by (rule reads_take [OF pending_reads [OF ok] use(2)])
  have len: "length data = unat use" "length ?c = unat (use + 32)" using rd box(2) m by (simp_all add: reads_length)
  have h: "hwf (drawn 24 w)" "plenty (drawn 24 w)" and ul: "\<not> b_unmutable out" "\<not> b_mutex out"
    using r by (simp_all add: ready_def)
  have below: "i < fresh w" if "i \<in> bids buf" for i
    using ok r that by (auto simp: ready_def intro: bids_below)
  have unlock: "unlock_buffer (out\<lparr>b_mutex := True\<rparr>) = ret out" using ul(2) by simp
  show ?thesis
    unfolding excom_pencrypt_buffer2_def if_not_P [OF use(1)] if_not_P [OF ul(1)] lock_buffer_simps(1) [OF ul(2)]
      bind_ret Let_def c wp_bind [of "randombytes_buf 24"] wp_randombytes of_nat_numeral unlock encrypt_prep [OF E]
  proof (rule two_blocks_wp [OF h m63], goal_cases)
    case (1 w1 js js')
    let ?f = "fresh w" and ?g = "Suc (fresh w)"
    have h1: "hwf w1" using 1(5) h(1) by (rule mframe_hwf)
    have rd1: "reads w1 (ptr_add (b_buf buf) (unat (b_pos buf))) (unat use) data"
      using 1(5) h(1) by (intro reads_mframe [OF _ 1(5) h(1)]) (use rd in simp_all)
    have b1: "blocks w1 (fresh (drawn 24 w)) = Some js" "length js = 32 + unat use" using 1 m by simp_all
    have p1: "pids (ptr_add (b_buf buf) (unat (b_pos buf))) \<inter> {fresh (drawn 24 w)} = {}"
      using below by (auto simp: bids_def)
    show ?case
    proof (rule fill_message_wp [OF b1 rd1 p1 h1], goal_cases)
      case (1 w2)
      note w2 = this
      have l: "reads w2 (Ptr ?f 0) (unat (use + 32)) (replicate 32 0 @ data)"
        using w2(1) m len(1) by (intro reads_new [where xs = "[]"]) simp_all
      have m2: "mframe {} (drawn 24 w) w2" using \<open>mframe {} (drawn 24 w) w1\<close> w2(3) by (rule mframe_trans) auto
      have r0: "ready (drawn 24 w) out" using r by simp
      have room: "unat (b_used out) + 24 + length ?c < 2 ^ 32" using fit len(2) m by simp
      have blk: "blocks w2 = (blocks (drawn 24 w))(?f \<mapsto> replicate 32 0 @ data, ?g \<mapsto> js')"
        using w2(1) \<open>blocks w1 = _\<close> by (simp add: fun_upd_twist)
      have lc: "length ?c = length js'" "unat (use + 32) = length ?c" using len(2) \<open>length js' = _\<close> by simp_all
      show ?case
        unfolding wp_bind [of "load _ _"] drawn_simps
      proof (rule load_wp [OF l], unfold box(1) option.case, goal_cases)
        case 1
        show ?case
          by (rule seal_tail_wp [where w = "drawn 24 w", OF _ _ r0 blk lc _ m2 _ length_randomness room])
            (use w2 \<open>fresh w1 = _\<close> \<open>errno w1 = _\<close> in simp_all)
      qed
    qed
  qed
qed


section \<open>Decrypting\<close>

lemma errno_simps [simp]:
  "ready (w\<lparr>errno := e\<rparr>) b = ready w b" "buf_ok (w\<lparr>errno := e\<rparr>) b = buf_ok w b"
  "contents (w\<lparr>errno := e\<rparr>) b = contents w b" "pending (w\<lparr>errno := e\<rparr>) b = pending w b"
  by (simp_all add: ready_def buf_ok_def contents_def pending_def plenty_def cong: ptr.case_cong)

text \<open>The whole of a source copied into a new block.\<close>

lemma fill_copy_wp:
  assumes "blocks w i = Some js" and "length js = n" and "reads w p n data" and "hwf w"
    and "\<And>w'. blocks w' = (blocks w)(i \<mapsto> data) \<Longrightarrow> fresh w' = fresh w \<Longrightarrow>
      mframe {i} w w' \<Longrightarrow> errno w' = errno w \<Longrightarrow> wp F Q w'"
  shows "wp (bind (memcpy (Ptr i 0) p n) (\<lambda>_. F)) Q w"
  unfolding memcpy_def wp_bind
  by (rule load_wp [OF assms(3)], rule store_whole_wp [OF assms(1)])
     (use assms(2,5) reads_length [OF assms(3)] in auto)

lemma two_blocks_wp2:
  assumes "hwf w" and "plenty w" and "n < 2 ^ 63"
    and "\<And>w' js js'. length js = unat n \<Longrightarrow> length js' = unat n \<Longrightarrow>
      blocks w' = (blocks w)(fresh w \<mapsto> js, Suc (fresh w) \<mapsto> js') \<Longrightarrow> fresh w' = Suc (Suc (fresh w)) \<Longrightarrow>
      mframe {} w w' \<Longrightarrow> errno w' = errno w \<Longrightarrow> wp (F (Ptr (fresh w) 0) (Ptr (Suc (fresh w)) 0)) Q w'"
  shows "wp (bind (excom_malloc n) (\<lambda>p. bind (excom_malloc n) (\<lambda>q.
           if p = Null \<or> q = Null then G p q else F p q))) Q w"
  using two_blocks_wp [OF assms(1-3), of F Q G] assms(4) by (simp only: disj_commute)

text \<open>The part of decryption after the ciphertext has been copied.\<close>

lemma open_tail_wp:
  assumes f_def: "f = fresh w" and g_def: "g = Suc (fresh w)" and S: "sodium_ok S" and r: "ready w out"
    and blk: "blocks w2 = (blocks w)(f \<mapsto> c, g \<mapsto> js)" and js: "length js = length c"
    and fr: "fresh w2 = Suc g" and fm: "mframe {} w w2" and e: "errno w2 = 0"
    and n: "unat n = length c" and fit: "unat (b_used out) + length c < 2 ^ 32"
  shows "wp (case box_open_afternm S c nonce k of
      None \<Rightarrow> bind (excom_free (Ptr f 0)) (\<lambda>_. bind (excom_free (Ptr g 0)) (\<lambda>_. ret (-1, enc, buf, out)))
    | Some m \<Rightarrow>
        bind (store (Ptr g 0) m) (\<lambda>_.
        bind (excom_free (Ptr f 0)) (\<lambda>_.
        bind (excom_buffer_cappend out (ptr_add (Ptr g 0) 32) (n - 32)) (\<lambda>(_, out).
        bind (excom_free (Ptr g 0)) (\<lambda>_. ret (0, enc, buf, out))))))
    (\<lambda>(r, enc', buf', out') w'. enc' = enc \<and> buf' = buf \<and>
      (case box_open_afternm S c nonce k of
         None \<Rightarrow> r = -1 \<and> out' = out \<and> blocks w' = blocks w \<and> mframe {} w w'
       | Some m \<Rightarrow> r = 0 \<and> appended (w\<lparr>errno := 0\<rparr>) out (drop 32 m) w' out')) w2"
proof (cases "box_open_afternm S c nonce k")
  case None
  have fg: "blocks w2 f = Some c" "blocks w2 g = Some js" using blk by (simp_all add: f_def g_def)
  have h: "hwf w" using r by (simp add: ready_def)
  show ?thesis
    unfolding None option.case wp_bind
  proof (rule free_wp [OF refl], goal_cases)
    case 1
    then show ?case using fg by simp
  next
    case (2 w3)
    note w3 = this
    show ?case
    proof (rule free_wp [OF refl], goal_cases)
      case 1
      then show ?case using fg w3(1) by (simp add: f_def g_def)
    next
      case (2 w4)
      have "blocks w4 = blocks w"
        using 2(1) w3(1) blk h by (auto simp: fun_eq_iff hwf_def f_def g_def)
      moreover have "mframe {} w w3" using fm w3(3) by (rule mframe_trans) (simp add: f_def)
      then have "mframe {} w w4" using 2(3) by (rule mframe_trans) (simp add: g_def)
      ultimately show ?case by simp
    qed
  qed
next
  case (Some m)
  let ?w = "w\<lparr>errno := 0\<rparr>"
  have h: "hwf w" using r by (simp add: ready_def)
  have fg: "blocks w2 g = Some js" using blk by (simp add: g_def)
  have lm: "length m = length js" "32 \<le> length c" using box_opens [OF S Some] js by simp_all
  have n32: "unat (n - 32) = length (drop 32 m)" using n lm js by (subst unat_minus_le) simp_all
  have gout: "g \<notin> bids out" using ready_below [OF r, of g] by (auto simp: g_def)
  show ?thesis
    unfolding Some option.case
  proof (rule fill_free_wp [OF f_def g_def h blk lm(1) fr fm], goal_cases)
    case (1 w4)
    have f4: "mframe {} ?w w4" using 1(3) by simp
    have e4: "errno w4 = errno ?w" and blk4: "blocks w4 = (blocks ?w)(g \<mapsto> m)" using 1 e by simp_all
    have r4: "ready w4 out" by (rule ready_frame [OF _ f4]) (use r in simp_all)
    have rd: "reads w' (ptr_add (Ptr g 0) 32) (unat (n - 32)) (drop 32 m)" if "blocks w' g = Some m" for w'
      using that n32 lm js by (cases "length m = 32") (simp_all add: reads_Ptr)
    have rw: "ready ?w out" and used: "unat (b_used out) + unat (n - 32) < 2 ^ 32" using r n32 lm js fit by simp_all
    show ?case
      by (rule emit_temp_wp [OF appended_refl [OF r4] rw f4 blk4 _ 1(2) e4 rd _ used]) (simp_all add: g_def)
  qed
qed

text \<open>The nonce and the ciphertext at the start of what is pending.\<close>

lemma pending_split:
  assumes ok: "buf_ok w buf" and use: "unat use \<le> length (pending w buf)"
    and data: "take (unat use) (pending w buf) = nonce @ c" "length nonce = 24"
  shows "unat use = 24 + length c"
    and "reads w (ptr_add (b_buf buf) (unat (b_pos buf))) 24 nonce"
    and "reads w (ptr_add (b_buf buf) (unat (b_pos buf + 24))) (length c) c"
proof -
  show len: "unat use = 24 + length c"
    using arg_cong [OF data(1), of length] data(2) use by simp
  have src: "reads w (ptr_add (b_buf buf) (unat (b_pos buf))) (24 + length c) (nonce @ c)"
    using reads_take [OF pending_reads [OF ok] use] len data(1) by simp
  show "reads w (ptr_add (b_buf buf) (unat (b_pos buf))) 24 nonce"
    using reads_take [OF src, of 24] data(2) by simp
  have pos: "unat (b_pos buf + 24) = unat (b_pos buf) + 24"
    using advance(1) [OF ok, of 24] use len by simp
  show "reads w (ptr_add (b_buf buf) (unat (b_pos buf + 24))) (length c) c"
  proof (cases "c = []")
    case False
    obtain i bs where b: "b_buf buf = Ptr i 0" "blocks w i = Some bs"
        "unat (b_pos buf) + (24 + length c) \<le> length bs" "nonce @ c = take (24 + length c) (drop (unat (b_pos buf)) bs)"
      using src ok len by (cases rule: buf_ok_cases [OF ok]) (auto simp: reads_Ptr reads_Null)
    have "drop 24 (nonce @ c) = drop 24 (take (24 + length c) (drop (unat (b_pos buf)) bs))" using b(4) by simp
    then have "c = take (length c) (drop (unat (b_pos buf) + 24) bs)"
      using data(2) by (simp add: drop_take add.commute)
    then show ?thesis
      using False b pos by (auto simp: reads_Ptr)
  qed simp
qed

lemma pdecrypt_ready:
  assumes S: "sodium_ok S" and E: "enc_ok S enc" and r: "ready w out" and ok: "buf_ok w buf"
    and sep: "bids buf \<inter> bids out = {}" and use: "unat use \<le> length (pending w buf)"
    and data: "take (unat use) (pending w buf) = nonce @ c" "length nonce = 24"
    and fit: "unat (b_used out) + unat use < 2 ^ 32"
  shows "wp (excom_pdecrypt_buffer2 S enc buf out use) (\<lambda>(r, enc', buf', out') w'. enc' = prepped S enc \<and>
    buf' = buf\<lparr>b_pos := b_pos buf + 24\<rparr> \<and>
    (case box_open_afternm S c nonce (e_nm_kkey (prepped S enc)) of
       None \<Rightarrow> r = -1 \<and> out' = out \<and> blocks w' = blocks w \<and> mframe {} w w'
     | Some m \<Rightarrow> r = 0 \<and> appended (w\<lparr>errno := 0\<rparr>) out (drop 32 m) w' out')) w"
proof -
  note cs = sodium_constants [OF S]
  let ?k = "e_nm_kkey (prepped S enc)"
  note split = pending_split [OF ok use data]
  note len = split(1) and rn = split(2) and rc = split(3)
  have nz: "use \<noteq> 0" using len by auto
  have u: "unat (use - 24) = length c" using len by (subst unat_minus_le) simp_all
  then have m63: "use - 24 < 2 ^ 63" using fit len by (simp add: word_less_nat_alt)
  have h: "hwf w" "plenty w" and ul: "\<not> b_unmutable out" "\<not> b_mutex out"
    using r by (simp_all add: ready_def)
  have unlock: "unlock_buffer (out\<lparr>b_mutex := True\<rparr>) = ret out" using ul(2) by simp
  have sel: "b_buf (buf\<lparr>b_pos := x\<rparr>) = b_buf buf" "b_pos (buf\<lparr>b_pos := x\<rparr>) = x" for x by simp_all
  have below: "i < fresh w" if "i \<in> pids (ptr_add (b_buf buf) x)" for i x
    using bids_below [OF ok h(1), of i] that by (simp add: bids_def)
  show ?thesis
    unfolding excom_pdecrypt_buffer2_def if_not_P [OF nz] if_not_P [OF ul(1)] lock_buffer_simps(1) [OF ul(2)]
      bind_ret Let_def cs wp_bind [of "load _ _"] of_nat_numeral unlock encrypt_prep [OF E] sel
  proof (rule load_wp [OF rn], rule two_blocks_wp2 [OF h m63], goal_cases)
    case (1 w1 js js')
    let ?f = "fresh w" and ?g = "Suc (fresh w)"
    have h1: "hwf w1" using 1(5) h(1) by (rule mframe_hwf)
    have rc1: "reads w1 (ptr_add (b_buf buf) (unat (b_pos buf + 24))) (unat (use - 24)) c"
      unfolding u by (rule reads_mframe [OF rc 1(5) h(1)]) simp
    have b1: "blocks w1 ?f = Some js" "length js = unat (use - 24)" using 1 by simp_all
    show ?case
    proof (rule fill_copy_wp [OF b1 rc1 h1], goal_cases)
      case (1 w2)
      note w2 = this
      let ?w2 = "w2\<lparr>errno := 0\<rparr>"
      have l: "reads ?w2 (Ptr ?f 0) (unat (use - 24)) c"
        using w2(1) u by (intro reads_new [where xs = "[]"]) simp_all
      have fg: "blocks w2 ?f = Some c" "blocks w2 ?g = Some js'" using w2(1) \<open>blocks w1 = _\<close> by simp_all
      have f2: "mframe {} w w2" using \<open>mframe {} w w1\<close> w2(3) by (rule mframe_trans) auto
      show ?case
        unfolding wp_bind set_errno_def wp_modify
      proof (rule load_wp [OF l], rule open_tail_wp [OF refl refl S r, where js = js'], goal_cases)
        case 1
        show ?case using w2(1) \<open>blocks w1 = _\<close> by (simp add: fun_upd_twist)
      next
        case 3
        show ?case using w2(2) \<open>fresh w1 = _\<close> by simp
      qed (use f2 u fit len \<open>length js' = _\<close> in simp_all)
    qed
  qed
qed

end
