(* ===== verification/EncryptionProps.thy ===== *)
theory EncryptionProps
  imports Encryption BufferProps
begin

text \<open>The properties of the encryption component, from the rules of theory \<open>Encryption\<close>.\<close>

text \<open>Two parties that hold each other's public key.\<close>

definition peers :: "sodium \<Rightarrow> encrypt \<Rightarrow> encrypt \<Rightarrow> bool" where
  "peers S a b \<longleftrightarrow>
     (case (e_local a, e_local b) of
        (Some la, Some lb) \<Rightarrow>
          length (ep_skey la) = 32 \<and> length (ep_skey lb) = 32 \<and>
          e_remote_pkey a = box_public S (ep_skey lb) \<and> e_remote_pkey b = box_public S (ep_skey la) \<and>
          \<not> e_nm_active a \<and> \<not> e_nm_active b
      | _ \<Rightarrow> False)"

lemma peers_ok:
  assumes "sodium_ok S" and "peers S a b"
  shows "enc_ok S a" and "enc_ok S b" and "e_nm_kkey (prepped S a) = e_nm_kkey (prepped S b)"
proof -
  from assms(2) obtain la lb where l: "e_local a = Some la" "e_local b = Some lb"
      "length (ep_skey la) = 32" "length (ep_skey lb) = 32"
      "e_remote_pkey a = box_public S (ep_skey lb)" "e_remote_pkey b = box_public S (ep_skey la)"
      "\<not> e_nm_active a" "\<not> e_nm_active b"
    by (auto simp: peers_def split: option.splits)
  then show "enc_ok S a" "enc_ok S b" by (simp_all add: enc_ok_def)
  have "box_beforenm S (box_public S (ep_skey lb)) (ep_skey la) =
        box_beforenm S (box_public S (ep_skey la)) (ep_skey lb)"
    using assms(1) l(3,4) unfolding sodium_ok_def by blast
  then show "e_nm_kkey (prepped S a) = e_nm_kkey (prepped S b)"
    using l by (simp add: prepped_def)
qed

text \<open>What the sender leaves for the receiver; buffers that are not the receiver's stay.\<close>

lemma encrypt_for_peer:
  assumes "sodium_ok S" and "enc_ok S a" and "ready w mid" and "buf_ok w src" and "bids src \<inter> bids mid = {}"
    and "b_used mid = b_pos mid" and "pending w src \<noteq> []" and "unat (b_used mid) + 56 + length (pending w src) < 2 ^ 32"
    and dst: "ready w dst" "bids mid \<inter> bids dst = {}"
  shows "wp (excom_pencrypt_buffer S a src mid) (\<lambda>(r, _, mid') w1. r = 0 \<and> ready w1 mid' \<and>
    pending w1 mid' = randomness 24 w @ sealed S a (randomness 24 w) (pending w src) \<and>
    ready w1 dst \<and> contents w1 dst = contents w dst \<and> bids mid' \<inter> bids dst = {}) w"
proof -
  let ?data = "pending w src" and ?n = "randomness 24 w"
  have rem: "unat (excom_buffer_remaining src) = length ?data" using assms(4) by (rule remaining_pending)
  then have use: "excom_buffer_remaining src \<noteq> 0" using assms(7) by auto
  have enc: "wp (excom_pencrypt_buffer S a src mid) (\<lambda>(r, _, mid') w1. r = 0 \<and>
      appended (drawn 24 w) mid (?n @ sealed S a ?n ?data) w1 mid') w"
    unfolding excom_pencrypt_buffer_def
    by (rule wp_mono [OF pencrypt_ready [OF assms(1-5) use, of ?data]]) (use rem assms(8) in auto)
  show ?thesis
  proof (rule wp_mono [OF enc], clarsimp, goal_cases)
    case (1 mid' w1)
    have r: "ready w1 mid'" and s: "bstep (drawn 24 w) mid w1 mid'" using 1 by (simp_all add: appended_def)
    have "pending w mid = []"
      using remaining_pending [of w mid] assms(3,6) by (simp add: excom_buffer_remaining_def ready_def)
    then have pm: "pending w1 mid' = ?n @ sealed S a ?n ?data"
      using appended_pending [OF 1] assms(3) by (simp add: ready_def)
    have f: "mframe (bids mid) (drawn 24 w) w1" using bstepD(2) [OF s] .
    have hd: "buf_ok (drawn 24 w) dst" "hwf (drawn 24 w)" "bids dst \<inter> bids mid = {}"
      using dst by (auto simp: ready_def)
    have rd: "ready w1 dst" by (rule ready_frame [OF _ f]) (use dst hd in simp_all)
    have "i \<notin> bids dst" if "i \<in> bids mid'" for i
      using bstepD(3) [OF s that] ready_below [OF dst(1), of i] dst(2) by auto
    then show ?case using r pm rd buf_frame(2) [OF hd(1,2) f hd(3)] by auto
  qed
qed

text \<open>
  C14. Decryption inverts encryption: when each side has the other's public key, encrypting what is
  pending in one buffer into an empty one and decrypting that into a third appends exactly the
  plaintext there, with both results 0. (Nothing pending is nothing appended.)
\<close>

theorem encrypt_roundtrip:
  assumes "sodium_ok S" and "peers S a b" and "ready w mid" and "ready w dst" and "buf_ok w src"
    and "bids src \<inter> bids mid = {}" and "bids src \<inter> bids dst = {}" and "bids mid \<inter> bids dst = {}"
    and "b_used mid = b_pos mid" and "unat (b_used mid) + 56 + length (pending w src) < 2 ^ 32"
    and "unat (b_used dst) + 56 + length (pending w src) < 2 ^ 32"
  shows "wp (bind (excom_pencrypt_buffer S a src mid) (\<lambda>(r1, _, mid).
           bind (excom_pdecrypt_buffer S b mid dst) (\<lambda>(r2, _, _, dst). ret (r1, r2, dst))))
         (\<lambda>(r1, r2, dst') w'. r1 = 0 \<and> r2 = 0 \<and> contents w' dst' = contents w dst @ pending w src) w"
proof (cases "pending w src = []")
  case True
  then have "excom_buffer_remaining src = 0" "excom_buffer_remaining mid = 0"
    using remaining_pending [OF assms(5)] assms(9) by (simp_all add: unat_eq_0 excom_buffer_remaining_def)
  with True show ?thesis
    by (simp add: excom_pencrypt_buffer_def excom_pdecrypt_buffer_def excom_pencrypt_buffer2_def
        excom_pdecrypt_buffer2_def)
next
  case False
  let ?data = "pending w src" and ?n = "randomness 24 w"
  let ?c = "sealed S a ?n ?data"
  note E = peers_ok [OF assms(1,2)]
  have box: "length ?c = 32 + length ?data"
      "box_open_afternm S ?c ?n (e_nm_kkey (prepped S b)) = Some (replicate 32 0 @ ?data)"
    using sealed [OF assms(1) E(1) length_randomness [of 24 w], of ?data] E(3) by simp_all
  show ?thesis
    unfolding wp_bind
  proof (rule wp_mono [OF encrypt_for_peer [OF assms(1) E(1) assms(3,5,6,9) False assms(10,4,8)]], clarsimp, goal_cases)
    case (1 mid' w1)
    have okm: "buf_ok w1 mid'" using 1(1) by (simp add: ready_def)
    have rm: "unat (excom_buffer_remaining mid') = 56 + length ?data"
      using remaining_pending [OF okm] 1(2) box(1) by simp
    have dec: "wp (excom_pdecrypt_buffer2 S b mid' dst (excom_buffer_remaining mid'))
        (\<lambda>(r, enc', buf', out') w'. r = 0 \<and> appended (w1\<lparr>errno := 0\<rparr>) dst ?data w' out') w1"
      by (rule wp_mono [OF pdecrypt_ready [OF assms(1) E(2) 1(3) okm 1(5), where nonce = ?n and c = ?c]])
         (use rm 1(2) box assms(11) in auto)
    show ?case
      unfolding excom_pdecrypt_buffer_def
      by (rule wp_mono [OF dec]) (auto simp: appended_def 1(4))
  qed
qed

definition pair_of :: "sodium \<Rightarrow> byte list \<Rightarrow> encrypt_pair" where
  "pair_of S sk = \<lparr>ep_pkey = box_public S sk, ep_skey = sk\<rparr>"

definition paired :: "sodium \<Rightarrow> byte list \<Rightarrow> byte list \<Rightarrow> encrypt" where
  "paired S sk pk = (excom_encrypt_init S)\<lparr>e_remote_pkey := pk, e_local := Some (pair_of S sk)\<rparr>"

lemma paired_peers:
  "length x = 32 \<Longrightarrow> length y = 32 \<Longrightarrow> peers S (paired S x (box_public S y)) (paired S y (box_public S x))"
  by (simp add: peers_def paired_def pair_of_def excom_encrypt_init_def)

text \<open>Three buffers on three blocks.\<close>

definition trio :: "byte list \<Rightarrow> world" where
  "trio bs = idle_world\<lparr>blocks := [0 \<mapsto> bs, 1 \<mapsto> [0], 2 \<mapsto> [0]], fresh := 3\<rparr>"

definition on_block :: "nat \<Rightarrow> size_t \<Rightarrow> size_t \<Rightarrow> buffer" where
  "on_block i m u = \<lparr>b_init = m, b_max = m, b_used = u, b_pos = 0, b_buf = Ptr i 0, b_unmutable = False,
     b_freeable = True, b_mutex = False\<rparr>"

lemma on_block_simps [simp]:
  "b_used (on_block i m u) = u" "b_pos (on_block i m u) = 0" "b_max (on_block i m u) = m"
  "b_buf (on_block i m u) = Ptr i 0" "\<not> b_mutex (on_block i m u)" "\<not> b_unmutable (on_block i m u)"
  "b_freeable (on_block i m u)" "bids (on_block i m u) = {i}"
  by (simp_all add: on_block_def bids_def)

lemma trio_simps [simp]: "hwf (trio bs)" "plenty (trio bs)" "fresh (trio bs) = 3"
  "blocks (trio bs) = [0 \<mapsto> bs, 1 \<mapsto> [0], 2 \<mapsto> [0]]" "entropy (trio bs) = []"
  by (simp_all add: trio_def hwf_def plenty_def)

theorem encrypt_roundtrip_witness:
  "wp (bind (excom_pencrypt_buffer xor_sodium (paired xor_sodium (replicate 32 1) (box_public xor_sodium (replicate 32 2)))
              (on_block 0 3 3) (on_block 1 1 0)) (\<lambda>(r1, _, mid).
       bind (excom_pdecrypt_buffer xor_sodium (paired xor_sodium (replicate 32 2) (box_public xor_sodium (replicate 32 1)))
              mid (on_block 2 1 0)) (\<lambda>(r2, _, _, dst). ret (r1, r2, dst))))
     (\<lambda>(r1, r2, dst') w'. contents w' dst' = [7, 8, 9]) (trio [7, 8, 9])"
proof -
  have c: "contents (trio [7, 8, 9]) (on_block 2 1 0) = []" "pending (trio [7, 8, 9]) (on_block 0 3 3) = [7, 8, 9]"
    by (simp_all add: contents_def pending_def)
  show ?thesis
    by (rule wp_mono [OF encrypt_roundtrip [OF xor_sodium_ok paired_peers]])
       (auto simp: ready_def buf_ok_def c)
qed

text \<open>
  What decrypting a nonce and a ciphertext does: if libsodium rejects the ciphertext the result
  is -1 and neither the output buffer nor the heap changes; otherwise the result is 0 and the
  message without its zero bytes is appended. In both cases the source advances by the nonce
  only, not by the ciphertext.
\<close>

theorem decrypt_correct:
  assumes "sodium_ok S" and "enc_ok S enc" and "ready w out" and "buf_ok w buf"
    and "bids buf \<inter> bids out = {}" and "unat use \<le> length (pending w buf)"
    and "take (unat use) (pending w buf) = nonce @ c" and "length nonce = 24"
    and "unat (b_used out) + unat use < 2 ^ 32"
  shows "wp (excom_pdecrypt_buffer2 S enc buf out use) (\<lambda>(r, enc', buf', out') w'.
    unat (b_pos buf') = unat (b_pos buf) + 24 \<and>
    (case box_open_afternm S c nonce (e_nm_kkey (prepped S enc)) of
       None \<Rightarrow> r = -1 \<and> out' = out \<and> blocks w' = blocks w
     | Some m \<Rightarrow> r = 0 \<and> ready w' out' \<and> contents w' out' = contents w out @ drop 32 m)) w"
proof -
  have "length (take (unat use) (pending w buf)) = 24 + length c" using assms(7,8) by simp
  then have "24 \<le> length (pending w buf)" by simp
  from advance(1) [OF assms(4) this] have p: "unat (b_pos buf + 24) = unat (b_pos buf) + 24" by simp
  show ?thesis
    by (rule wp_mono [OF pdecrypt_ready [OF assms]]) (use p in \<open>auto simp: appended_def split: option.splits\<close>)
qed

theorem decrypt_correct_witness:
  "wp (excom_pdecrypt_buffer2 xor_sodium (paired xor_sodium (replicate 32 1) (replicate 32 2)) (on_block 0 25 25) (on_block 1 1 0) 25)
     (\<lambda>(r, enc', buf', out') w'. r = -1 \<and> blocks w' = blocks (trio (replicate 25 5))) (trio (replicate 25 5))"
proof -
  have none: "box_open_afternm xor_sodium [5] n k = None" for n k
  proof (cases "box_open_afternm xor_sodium [5] n k")
    case (Some m)
    then show ?thesis using box_opens [OF xor_sodium_ok, of "[5]" n k m] by simp
  qed
  have "replicate 25 (5::byte) = replicate 24 5 @ [5]" by (simp add: numeral_eq_Suc)
  then have p: "pending (trio (replicate 25 5)) (on_block 0 25 25) = replicate 24 5 @ [5]"
    by (simp add: pending_def contents_def)
  show ?thesis
    by (rule wp_mono [OF decrypt_correct [OF xor_sodium_ok, where nonce = "replicate 24 5" and c = "[5]"]])
       (auto simp: ready_def buf_ok_def p none paired_def enc_ok_def excom_encrypt_init_def)
qed

text \<open>
  Fewer bytes than a nonce: the length of the ciphertext wraps around below zero, the
  allocation of it fails, and the result is ENOMEM; the source has advanced past its end all the
  same.
\<close>

theorem decrypt_short:
  assumes "use \<noteq> 0" and "use < 24" and "box_NONCEBYTES S = 24" and "\<not> b_unmutable out" and "\<not> b_mutex out"
    and "reads w (ptr_add (b_buf buf) (unat (b_pos buf))) 24 nonce"
  shows "wp (excom_pdecrypt_buffer2 S enc buf out use) (\<lambda>(r, enc', buf', out') w'.
    r = ENOMEM \<and> enc' = enc \<and> out' = out \<and> b_pos buf' = b_pos buf + 24 \<and> blocks w' = blocks w) w"
proof -
  have "unat use < 24" using assms(2) by (simp add: word_less_nat_alt)
  then have "unat (use - 24) = unat use + 2 ^ 64 - 24" by (simp add: unat_sub_if')
  then have big: "malloc_fails (use - 24) v" for v
    by (simp add: malloc_fails_def word_le_nat_alt)
  have unlock: "unlock_buffer (out\<lparr>b_mutex := True\<rparr>) = ret out" using assms(5) by simp
  show ?thesis
    unfolding excom_pdecrypt_buffer2_def if_not_P [OF assms(1)] if_not_P [OF assms(4)] lock_buffer_simps(1) [OF assms(5)]
      bind_ret Let_def assms(3) wp_bind [of "load _ _"] of_nat_numeral unlock
  proof (rule load_wp [OF assms(6)], unfold wp_bind, rule malloc_wp, goal_cases)
    case (1 w1)
    note w1 = this
    show ?case
      by (rule malloc_wp) (use big w1 in \<open>auto simp: free_unless_null_def\<close>)
  qed (use big in simp)
qed

theorem decrypt_short_witness:
  "wp (excom_pdecrypt_buffer2 xor_sodium (paired xor_sodium [] []) (on_block 0 24 8) (on_block 1 1 0) 8)
     (\<lambda>(r, enc', buf', out') w'. r = ENOMEM \<and> b_pos buf' = 24) (trio (replicate 24 5))"
  by (rule wp_mono [OF decrypt_short [where nonce = "replicate 24 5"]])
     (auto simp: xor_sodium_def reads_Ptr)

text \<open>
  When one of the two allocations of \<open>excom_pencrypt_buffer2\<close> fails, the result is ENOMEM, the
  other block is given back, the output buffer is unchanged and its mutex is free.
\<close>

theorem encrypt_out_of_memory:
  assumes "use \<noteq> 0" and "\<not> b_unmutable out" and "\<not> b_mutex out" and "hwf w"
    and "mallocs w = x # y # ms" and "x \<or> y"
  shows "wp (excom_pencrypt_buffer2 S enc buf out use) (\<lambda>(r, enc', out') w'.
    r = ENOMEM \<and> enc' = enc \<and> out' = out \<and> blocks w' = blocks w) w"
proof -
  have ul: "unlock_buffer (out\<lparr>b_mutex := True\<rparr>) = ret out" using assms(3) by simp
  have undo: "(blocks w)(fresh w := None) = blocks w" using assms(4) by (simp add: hwf_def fun_upd_idem)
  show ?thesis
    unfolding excom_pencrypt_buffer2_def if_not_P [OF assms(1)] if_not_P [OF assms(2)] lock_buffer_simps(1) [OF assms(3)]
      bind_ret Let_def wp_bind [of "randombytes_buf _"] wp_randombytes wp_bind [of "excom_malloc _"] ul
  proof (rule malloc_wp, goal_cases)
    case (1 w1)
    note w1 = this
    show ?case
    proof (rule malloc_wp, goal_cases)
      case (2 w2 js)
      have "hwf w1" using w1(5) assms(4) by (simp add: mframe_hwf)
      then have "(blocks w1)(fresh w1 := None) = blocks w1" by (simp add: hwf_def fun_upd_idem)
      then show ?case
        using 2 w1 by (auto simp: free_unless_null_def intro!: free_wp)
    qed (use w1 in \<open>simp add: free_unless_null_def\<close>)
  next
    case (2 w1 js)
    note w1 = this
    show ?case
    proof (rule malloc_wp, goal_cases)
      case (1 w2)
      then show ?case
        using w1 undo by (auto simp: free_unless_null_def intro!: free_wp)
    next
      case (2 w2 js')
      have "\<not> x" using w1(1) assms(5) by (simp add: malloc_fails_def)
      then have "malloc_fails (use + of_nat (box_ZEROBYTES S)) w1"
        using w1(8) assms(5,6) by (simp add: malloc_fails_def)
      with 2 show ?case by simp
    qed
  qed
qed

theorem encrypt_out_of_memory_witness:
  "wp (excom_pencrypt_buffer2 xor_sodium (paired xor_sodium [] []) (on_block 0 3 3) (on_block 1 1 0) 3)
     (\<lambda>(r, enc', out') w'. r = ENOMEM \<and> blocks w' = blocks (trio [7, 8, 9])) (trio [7, 8, 9]\<lparr>mallocs := [False, True]\<rparr>)"
  by (rule wp_mono [OF encrypt_out_of_memory]) (auto simp: hwf_def)

end
