(* ===== verification/Codec.thy ===== *)
theory Codec
  imports Main
begin

text \<open>
  The interface of a self-delimiting binary format: \<open>codec\<close> relates an encoder to a decoder that
  takes one value off the front of a byte stream, \<open>exact_codec\<close> adds that the decoder accepts
  nothing else. What a reader of a stream relies on is proved once from these laws: encodings
  are injective and prefix-free, a truncated encoding is rejected, a concatenation of encodings
  decodes to the sequence of values. \<open>codec_pair\<close> composes two formats. The integer fields
  (theory \<open>Pack\<close>), the packet header, strings and whole packets (theory \<open>Wire\<close>) are instances.
\<close>

type_synonym ('b, 'a) decoder = "'b list \<Rightarrow> ('a \<times> 'b list) option"

primrec decode_n :: "('b, 'a) decoder \<Rightarrow> nat \<Rightarrow> 'b list \<Rightarrow> ('a list \<times> 'b list) option" where
  "decode_n dec 0 bs = Some ([], bs)"
| "decode_n dec (Suc n) bs =
     (case dec bs of None \<Rightarrow> None
      | Some (x, r) \<Rightarrow> (case decode_n dec n r of None \<Rightarrow> None | Some (xs, r') \<Rightarrow> Some (x # xs, r')))"

definition decode_pair :: "('b, 'a) decoder \<Rightarrow> ('b, 'c) decoder \<Rightarrow> ('b, 'a \<times> 'c) decoder" where
  "decode_pair deca decb bs =
     (case deca bs of None \<Rightarrow> None
      | Some (x, r) \<Rightarrow> (case decb r of None \<Rightarrow> None | Some (y, r') \<Rightarrow> Some ((x, y), r')))"

definition encode_pair :: "('a \<Rightarrow> 'b list) \<Rightarrow> ('c \<Rightarrow> 'b list) \<Rightarrow> 'a \<times> 'c \<Rightarrow> 'b list" where
  "encode_pair enca encb p = enca (fst p) @ encb (snd p)"

locale codec =
  fixes enc :: "'a \<Rightarrow> 'b list" and dec :: "('b, 'a) decoder" and ok :: "'a \<Rightarrow> bool"
  assumes dec_enc: "ok x \<Longrightarrow> dec (enc x @ r) = Some (x, r)"
begin

lemma prefix_free:
  assumes "ok x" and "ok y" and "enc x @ r = enc y @ s"
  shows "x = y \<and> r = s"
proof -
  have "dec (enc y @ s) = Some (x, r)"
    using dec_enc [OF assms(1), of r] unfolding assms(3) .
  then show ?thesis
    using dec_enc [OF assms(2), of s] by simp
qed

lemma enc_inject: "ok x \<Longrightarrow> ok y \<Longrightarrow> enc x = enc y \<longleftrightarrow> x = y"
  using prefix_free [of x y "[]" "[]"] by auto

lemma decode_stream:
  "list_all ok xs \<Longrightarrow> decode_n dec (length xs) (concat (map enc xs) @ r) = Some (xs, r)"
  by (induction xs) (simp_all add: dec_enc)

end

locale exact_codec = codec +
  assumes dec_sound: "dec bs = Some (x, r) \<Longrightarrow> ok x \<and> bs = enc x @ r"
begin

lemma truncated:
  assumes "ok x" and "enc x = p @ q" and "q \<noteq> []"
  shows "dec p = None"
proof (rule ccontr)
  assume "dec p \<noteq> None"
  then obtain y r where d: "dec p = Some (y, r)" by auto
  then have y: "ok y" "p = enc y @ r" by (auto dest: dec_sound)
  have "dec (enc x @ []) = Some (x, [])" using assms(1) by (rule dec_enc)
  moreover have "dec (enc y @ (r @ q)) = Some (y, r @ q)" using y(1) by (rule dec_enc)
  moreover have "enc x @ [] = enc y @ (r @ q)" using assms(2) y(2) by simp
  ultimately show False using assms(3) by simp
qed

lemma dec_iff: "dec bs = Some (x, r) \<longleftrightarrow> ok x \<and> bs = enc x @ r"
  using dec_enc dec_sound by auto

end

locale codec_pair = a: exact_codec enca deca oka + b: exact_codec encb decb okb
  for enca :: "'a \<Rightarrow> 'b list" and deca oka and encb :: "'c \<Rightarrow> 'b list" and decb okb
begin

lemma pair_dec_enc:
  "oka (fst p) \<and> okb (snd p) \<Longrightarrow> decode_pair deca decb (encode_pair enca encb p @ r) = Some (p, r)"
  by (simp add: decode_pair_def encode_pair_def a.dec_enc b.dec_enc)

lemma pair_dec_sound:
  "decode_pair deca decb bs = Some (p, r) \<Longrightarrow>
     (oka (fst p) \<and> okb (snd p)) \<and> bs = encode_pair enca encb p @ r"
  by (auto simp: decode_pair_def encode_pair_def dest!: a.dec_sound b.dec_sound split: option.splits)

end

sublocale codec_pair \<subseteq> pair: exact_codec "encode_pair enca encb" "decode_pair deca decb" "\<lambda>p. oka (fst p) \<and> okb (snd p)"
  by unfold_locales (rule pair_dec_enc, assumption, erule pair_dec_sound)

end
