(* ===== verification/Pack.thy ===== *)
theory Pack
  imports Prelude Codec
begin

unbundle bit_operations_syntax

text \<open>
  The integer fields of the wire format, \<open>src/excom/protocol/pack.c\<close>. Every function takes the
  byte order of the host. A destination is the list of the bytes that may be written from
  \<open>dest\<close> on, a source the list of the bytes that may be read from \<open>src\<close> on; going past either
  end is a fault.

  The lemmas show which bytes each packing function writes (the stray NUL after the field
  included), that on a little-endian host unpacking inverts packing, and that on a big-endian
  host it does not: there the two disagree about the byte order of the wire.
\<close>

section \<open>Model\<close>

text \<open>The bytes of a word, least significant first, and back.\<close>

definition byte_of :: "nat \<Rightarrow> 'a::len word \<Rightarrow> byte" where
  "byte_of i n = ucast (drop_bit (8 * i) n)"

definition word2 :: "byte \<Rightarrow> byte \<Rightarrow> u16" where
  "word2 b0 b1 = ucast b0 OR push_bit 8 (ucast b1)"

definition word4 :: "byte \<Rightarrow> byte \<Rightarrow> byte \<Rightarrow> byte \<Rightarrow> u32" where
  "word4 b0 b1 b2 b3 =
     ucast b0 OR push_bit 8 (ucast b1) OR push_bit 16 (ucast b2) OR push_bit 24 (ucast b3)"

definition bswap16 :: "u16 \<Rightarrow> u16" where
  "bswap16 n = word2 (byte_of 1 n) (byte_of 0 n)"

definition bswap32 :: "u32 \<Rightarrow> u32" where
  "bswap32 n = word4 (byte_of 3 n) (byte_of 2 n) (byte_of 1 n) (byte_of 0 n)"

text \<open>
  A \<open>union\<close> of an integer and its bytes: the bytes of the host's representation in the order of
  their addresses, and the integer such bytes represent. The parameter \<open>le\<close> says that the host
  is little-endian.
\<close>

definition host_bytes32 :: "bool \<Rightarrow> u32 \<Rightarrow> byte list" where
  "host_bytes32 le n = (let bs = [byte_of 0 n, byte_of 1 n, byte_of 2 n, byte_of 3 n] in if le then bs else rev bs)"

definition host_word32 :: "bool \<Rightarrow> byte \<Rightarrow> byte \<Rightarrow> byte \<Rightarrow> byte \<Rightarrow> u32" where
  "host_word32 le d0 d1 d2 d3 = (if le then word4 d0 d1 d2 d3 else word4 d3 d2 d1 d0)"

definition host_word16 :: "bool \<Rightarrow> byte \<Rightarrow> byte \<Rightarrow> u16" where
  "host_word16 le d0 d1 = (if le then word2 d0 d1 else word2 d1 d0)"

definition endianness :: "bool \<Rightarrow> bool" where
  "endianness le \<longleftrightarrow> hd (host_bytes32 le 0x12345678) = 0x78"

text \<open>\<open>htonl\<close> and \<open>ntohl\<close>, \<open>htons\<close> and \<open>ntohs\<close>: the same function each.\<close>

definition htonl :: "bool \<Rightarrow> u32 \<Rightarrow> u32" where
  "htonl le n = (if le then bswap32 n else n)"

definition htons :: "bool \<Rightarrow> u16 \<Rightarrow> u16" where
  "htons le n = (if le then bswap16 n else n)"

definition poke :: "byte list \<Rightarrow> nat \<Rightarrow> byte \<Rightarrow> fault + byte list" where
  "poke dest i b = (if i < length dest then Inr (dest[i := b]) else Inl OutOfBounds)"

text \<open>
  The loop \<open>for(part = 0; part < limit; part += 8) *ptr++ = net >> part\<close>, with the index of
  \<open>ptr\<close> in \<open>dest\<close>.
\<close>

function pack_loop :: "byte list \<Rightarrow> nat \<Rightarrow> nat \<Rightarrow> nat \<Rightarrow> 'a::len word \<Rightarrow> fault + (byte list \<times> nat)" where
  "pack_loop dest ptr part limit net =
     (if part < limit
      then (case poke dest ptr (ucast (drop_bit part net)) of
              Inl e \<Rightarrow> Inl e
            | Inr dest' \<Rightarrow> pack_loop dest' (Suc ptr) (part + 8) limit net)
      else Inr (dest, ptr))"
  by pat_completeness auto
termination
  by (relation "measure (\<lambda>(dest, ptr, part, limit, net). limit - part)") auto

declare pack_loop.simps [simp del]

definition excom_protocol_pack_uint32_t :: "bool \<Rightarrow> byte list \<Rightarrow> u32 \<Rightarrow> fault + (int \<times> byte list)" where
  "excom_protocol_pack_uint32_t le dest n =
     (let net = (if endianness le then htonl le n else n) in
      case pack_loop dest 0 0 25 net of
        Inl e \<Rightarrow> Inl e
      | Inr (dest', ptr) \<Rightarrow>
          (case poke dest' ptr 0 of Inl e \<Rightarrow> Inl e | Inr dest'' \<Rightarrow> Inr (4, dest'')))"

definition excom_protocol_unpack_uint32_t :: "bool \<Rightarrow> byte list \<Rightarrow> fault + (int \<times> u32)" where
  "excom_protocol_unpack_uint32_t le src =
     (case src of
        d0 # d1 # d2 # d3 # _ \<Rightarrow>
          (let r = host_word32 le d0 d1 d2 d3
           in Inr (4, if endianness le then htonl le r else r))
      | _ \<Rightarrow> Inl OutOfBounds)"

definition excom_protocol_pack_uint16_t :: "bool \<Rightarrow> byte list \<Rightarrow> u16 \<Rightarrow> fault + (int \<times> byte list)" where
  "excom_protocol_pack_uint16_t le dest n =
     (let net = (if endianness le then htons le n else n) in
      case pack_loop dest 0 0 11 net of
        Inl e \<Rightarrow> Inl e
      | Inr (dest', ptr) \<Rightarrow>
          (case poke dest' ptr 0 of Inl e \<Rightarrow> Inl e | Inr dest'' \<Rightarrow> Inr (2, dest'')))"

definition excom_protocol_unpack_uint16_t :: "bool \<Rightarrow> byte list \<Rightarrow> fault + (int \<times> u16)" where
  "excom_protocol_unpack_uint16_t le src =
     (case src of
        d0 # d1 # _ \<Rightarrow>
          (let r = host_word16 le d0 d1
           in Inr (2, if endianness le then htons le r else r))
      | _ \<Rightarrow> Inl OutOfBounds)"

definition excom_protocol_pack_uint8_t :: "byte list \<Rightarrow> byte \<Rightarrow> fault + (int \<times> byte list)" where
  "excom_protocol_pack_uint8_t dest n =
     (case poke dest 0 n of Inl e \<Rightarrow> Inl e | Inr dest' \<Rightarrow> Inr (1, dest'))"

definition excom_protocol_unpack_uint8_t :: "byte list \<Rightarrow> fault + (int \<times> byte)" where
  "excom_protocol_unpack_uint8_t src = (case src of d # _ \<Rightarrow> Inr (1, d) | [] \<Rightarrow> Inl OutOfBounds)"

section \<open>Bytes and words\<close>

lemma bit_byteD: "bit (b :: byte) n \<Longrightarrow> n < 8"
  by (drule bit_imp_le_length) simp

lemma below_32_cases:
  assumes "(k::nat) < 32"
  obtains "k < 8" | j where "j < 8" "k = 8 + j" | j where "j < 8" "k = 16 + j" | j where "j < 8" "k = 24 + j"
proof -
  have "k < 8 \<or> (k - 8 < 8 \<and> k = 8 + (k - 8)) \<or> (k - 16 < 8 \<and> k = 16 + (k - 16)) \<or>
      (k - 24 < 8 \<and> k = 24 + (k - 24))"
    using assms by arith
  then show ?thesis using that by blast
qed

lemma word4_bytes [simp]: "word4 (byte_of 0 n) (byte_of (Suc 0) n) (byte_of 2 n) (byte_of 3 n) = n"
proof (rule bit_word_eqI)
  fix k assume "k < LENGTH(32)"
  then have "k < 32" by simp
  then show "bit (word4 (byte_of 0 n) (byte_of (Suc 0) n) (byte_of 2 n) (byte_of 3 n)) k = bit n k"
    by (cases rule: below_32_cases) (auto simp: word4_def byte_of_def bit_simps)
qed

lemma bytes_word4 [simp]:
  "byte_of 0 (word4 b0 b1 b2 b3) = b0" "byte_of (Suc 0) (word4 b0 b1 b2 b3) = b1"
  "byte_of 2 (word4 b0 b1 b2 b3) = b2" "byte_of 3 (word4 b0 b1 b2 b3) = b3"
  by (rule bit_word_eqI; auto simp: word4_def byte_of_def bit_simps dest: bit_byteD)+

lemma word2_bytes [simp]: "word2 (byte_of 0 n) (byte_of (Suc 0) n) = n"
proof (rule bit_word_eqI)
  fix k assume "k < LENGTH(16)"
  then have "k < 32" by simp
  then show "bit (word2 (byte_of 0 n) (byte_of (Suc 0) n)) k = bit n k"
    by (cases rule: below_32_cases) (auto simp: word2_def byte_of_def bit_simps dest: bit_byteD bit_imp_le_length)
qed

lemma bytes_word2 [simp]:
  "byte_of 0 (word2 b0 b1) = b0" "byte_of (Suc 0) (word2 b0 b1) = b1"
  by (rule bit_word_eqI; auto simp: word2_def byte_of_def bit_simps dest: bit_byteD)+

lemma byte_of_bswap32 [simp]:
  "byte_of 0 (bswap32 n) = byte_of 3 n" "byte_of (Suc 0) (bswap32 n) = byte_of 2 n"
  "byte_of 2 (bswap32 n) = byte_of (Suc 0) n" "byte_of 3 (bswap32 n) = byte_of 0 n"
  by (simp_all add: bswap32_def)

lemma bswap32_word4 [simp]: "bswap32 (word4 b0 b1 b2 b3) = word4 b3 b2 b1 b0"
  by (simp add: bswap32_def)

lemma bswap16_word2 [simp]: "bswap16 (word2 b0 b1) = word2 b1 b0"
  by (simp add: bswap16_def)

lemma bswap32_bswap32 [simp]: "bswap32 (bswap32 n) = n"
  by (subst (2) bswap32_def) simp

lemma endianness_iff [simp]: "endianness le = le"
  by (cases le) (simp_all add: endianness_def host_bytes32_def byte_of_def)

section \<open>What the packing functions write\<close>

text \<open>The wire order of a little-endian host, most significant byte first.\<close>

definition be32 :: "u32 \<Rightarrow> byte list" where
  "be32 n = [byte_of 3 n, byte_of 2 n, byte_of 1 n, byte_of 0 n]"

definition be16 :: "u16 \<Rightarrow> byte list" where
  "be16 n = [byte_of 1 n, byte_of 0 n]"

lemma length_be [simp]: "length (be32 n) = 4" "length (be16 m) = 2"
  by (simp_all add: be32_def be16_def)

lemma byte_of_drop: "ucast n = byte_of 0 n" "byte_of 0 (drop_bit 8 n) = byte_of (Suc 0) n"
  "byte_of 0 (drop_bit 16 n) = byte_of 2 n" "byte_of 0 (drop_bit 24 n) = byte_of 3 n"
  by (simp_all add: byte_of_def)

lemma pack_loop_32:
  "pack_loop dest 0 0 25 (net :: u32) =
     (if 4 \<le> length dest
      then Inr ([byte_of 0 net, byte_of 1 net, byte_of 2 net, byte_of 3 net] @ drop 4 dest, 4)
      else Inl OutOfBounds)"
proof -
  consider "dest = []" | a where "dest = [a]" | a b where "dest = [a, b]" | a b c where "dest = [a, b, c]"
    | a b c d r where "dest = a # b # c # d # r"
    by (metis list.exhaust)
  then show ?thesis
    by cases (simp_all add: pack_loop.simps poke_def byte_of_drop)
qed

lemma pack_loop_16:
  "pack_loop dest 0 0 11 (net :: u16) =
     (if 2 \<le> length dest then Inr ([byte_of 0 net, byte_of 1 net] @ drop 2 dest, 2) else Inl OutOfBounds)"
proof -
  consider "dest = []" | a where "dest = [a]" | a b r where "dest = a # b # r"
    by (metis list.exhaust)
  then show ?thesis
    by cases (simp_all add: pack_loop.simps poke_def byte_of_drop)
qed

lemma list_upto_5:
  obtains "length xs < 4" | a b c d where "xs = [a, b, c, d]" | a b c d e r where "xs = a # b # c # d # e # r"
proof -
  have "length xs < 4 \<or> length xs = 4 \<or> 5 \<le> length xs" by arith
  then show thesis
    using that by (auto simp: length_Suc_conv Suc_le_length_iff numeral_eq_Suc)
qed

lemma list_upto_3:
  obtains "length xs < 2" | a b where "xs = [a, b]" | a b c r where "xs = a # b # c # r"
proof -
  have "length xs < 2 \<or> length xs = 2 \<or> 3 \<le> length xs" by arith
  then show thesis
    using that by (auto simp: length_Suc_conv Suc_le_length_iff numeral_eq_Suc)
qed

lemma pack_u32_run:
  "excom_protocol_pack_uint32_t le dest n =
     (if 5 \<le> length dest
      then Inr (4, (if le then be32 n else rev (be32 n)) @ 0 # drop 5 dest)
      else Inl OutOfBounds)"
  by (cases dest rule: list_upto_5)
     (simp_all add: excom_protocol_pack_uint32_t_def pack_loop_32 poke_def be32_def htonl_def Let_def)

lemma pack_u16_run:
  "excom_protocol_pack_uint16_t le dest n =
     (if 3 \<le> length dest
      then Inr (2, (if le then be16 n else rev (be16 n)) @ 0 # drop 3 dest)
      else Inl OutOfBounds)"
  by (cases dest rule: list_upto_3)
     (simp_all add: excom_protocol_pack_uint16_t_def pack_loop_16 poke_def be16_def htons_def bswap16_def Let_def)

lemma pack_u8_run:
  "excom_protocol_pack_uint8_t dest n = (if 1 \<le> length dest then Inr (1, n # drop 1 dest) else Inl OutOfBounds)"
  by (cases dest) (simp_all add: excom_protocol_pack_uint8_t_def poke_def)

section \<open>What the unpacking functions read\<close>

definition of_be32 :: "byte list \<Rightarrow> u32" where
  "of_be32 bs = word4 (bs ! 3) (bs ! 2) (bs ! 1) (bs ! 0)"

definition of_be16 :: "byte list \<Rightarrow> u16" where
  "of_be16 bs = word2 (bs ! 1) (bs ! 0)"

lemma of_be32_be32 [simp]: "of_be32 (be32 n @ r) = n"
  by (simp add: of_be32_def be32_def)

lemma of_be16_be16 [simp]: "of_be16 (be16 n @ r) = n"
  by (simp add: of_be16_def be16_def)

lemma unpack_u32_run:
  "excom_protocol_unpack_uint32_t le src =
     (if 4 \<le> length src then Inr (4, of_be32 src) else Inl OutOfBounds)"
  by (cases src rule: list_upto_5)
     (simp_all add: excom_protocol_unpack_uint32_t_def host_word32_def htonl_def of_be32_def Let_def,
      auto split: list.splits)

lemma unpack_u16_run:
  "excom_protocol_unpack_uint16_t le src =
     (if 2 \<le> length src then Inr (2, of_be16 src) else Inl OutOfBounds)"
  by (cases src rule: list_upto_3)
     (simp_all add: excom_protocol_unpack_uint16_t_def host_word16_def htons_def of_be16_def Let_def,
      auto split: list.splits)

lemma unpack_u8_run:
  "excom_protocol_unpack_uint8_t src = (if 1 \<le> length src then Inr (1, src ! 0) else Inl OutOfBounds)"
  by (cases src) (simp_all add: excom_protocol_unpack_uint8_t_def)


section \<open>The fields as codecs\<close>

text \<open>
  What a field puts on the wire and how a reader takes it off, on a little-endian host: the
  packing function run on a scratch array, the unpacking function and the advance by what it
  returns.
\<close>

definition field_enc :: "(byte list \<Rightarrow> 'a \<Rightarrow> fault + (int \<times> byte list)) \<Rightarrow> 'a \<Rightarrow> byte list" where
  "field_enc pack n = (case pack (replicate 5 0) n of Inl _ \<Rightarrow> [] | Inr (k, d) \<Rightarrow> take (nat k) d)"

definition field_dec :: "(byte list \<Rightarrow> fault + (int \<times> 'a)) \<Rightarrow> (byte, 'a) decoder" where
  "field_dec unpack bs = (case unpack bs of Inl _ \<Rightarrow> None | Inr (k, n) \<Rightarrow> Some (n, drop (nat k) bs))"

abbreviation "enc32 \<equiv> field_enc (excom_protocol_pack_uint32_t True)"
abbreviation "dec32 \<equiv> field_dec (excom_protocol_unpack_uint32_t True)"
abbreviation "enc16 \<equiv> field_enc (excom_protocol_pack_uint16_t True)"
abbreviation "dec16 \<equiv> field_dec (excom_protocol_unpack_uint16_t True)"
abbreviation "enc8 \<equiv> field_enc excom_protocol_pack_uint8_t"
abbreviation "dec8 \<equiv> field_dec excom_protocol_unpack_uint8_t"

lemma field_enc_eq [simp]: "enc32 n = be32 n" "enc16 m = be16 m" "enc8 b = [b]"
  by (simp_all add: field_enc_def pack_u32_run pack_u16_run pack_u8_run)

lemma field_dec_eq:
  "dec32 bs = (if 4 \<le> length bs then Some (of_be32 bs, drop 4 bs) else None)"
  "dec16 bs = (if 2 \<le> length bs then Some (of_be16 bs, drop 2 bs) else None)"
  "dec8 bs = (if 1 \<le> length bs then Some (bs ! 0, drop 1 bs) else None)"
  by (simp_all add: field_dec_def unpack_u32_run unpack_u16_run unpack_u8_run)

lemma be32_of_be32: "4 \<le> length bs \<Longrightarrow> be32 (of_be32 bs) @ drop 4 bs = bs"
  by (cases bs rule: list_upto_5) (simp_all add: be32_def of_be32_def)

lemma be16_of_be16: "2 \<le> length bs \<Longrightarrow> be16 (of_be16 bs) @ drop 2 bs = bs"
  by (cases bs rule: list_upto_3) (simp_all add: be16_def of_be16_def)

interpretation u32: exact_codec enc32 dec32 "\<lambda>_. True"
  by unfold_locales (auto simp: field_dec_eq be32_of_be32 split: if_splits)

interpretation u16: exact_codec enc16 dec16 "\<lambda>_. True"
  by unfold_locales (auto simp: field_dec_eq be16_of_be16 split: if_splits)

interpretation u8: exact_codec enc8 dec8 "\<lambda>_. True"
  by unfold_locales (auto simp: field_dec_eq Suc_le_length_iff split: if_splits)

section \<open>Properties\<close>

text \<open>
  C30. On a little-endian host every integer field packed into a large enough array unpacks to the
  same value, whatever follows it, and both functions return the width of the field.
\<close>

theorem pack_unpack_little:
  assumes "5 \<le> length dest"
  shows "(\<exists>d. excom_protocol_pack_uint32_t True dest n = Inr (4, d) \<and>
            excom_protocol_unpack_uint32_t True (take 4 d @ rest) = Inr (4, n)) \<and>
         (\<exists>d. excom_protocol_pack_uint16_t True dest m = Inr (2, d) \<and>
            excom_protocol_unpack_uint16_t True (take 2 d @ rest) = Inr (2, m)) \<and>
         (\<exists>d. excom_protocol_pack_uint8_t dest b = Inr (1, d) \<and>
            excom_protocol_unpack_uint8_t (take 1 d @ rest) = Inr (1, b))"
  using assms
  by (simp add: pack_u32_run pack_u16_run pack_u8_run unpack_u32_run unpack_u16_run unpack_u8_run)

theorem pack_unpack_little_witness:
  "\<exists>d. excom_protocol_pack_uint32_t True [9, 9, 9, 9, 9] 0x01020304 = Inr (4, d) \<and>
     excom_protocol_unpack_uint32_t True (take 4 d @ [7]) = Inr (4, 0x01020304)"
  using pack_unpack_little [of "[9, 9, 9, 9, 9]" "0x01020304" "[7]"] by simp

text \<open>
  On a big-endian host the two sides disagree: a packed 32-bit field goes out least
  significant byte first and unpacks to its byte reversal, so a value survives only when it is
  its own reversal.
\<close>

theorem pack_unpack_big:
  assumes "5 \<le> length dest"
  shows "\<exists>d. excom_protocol_pack_uint32_t False dest n = Inr (4, d) \<and> take 4 d = rev (be32 n) \<and>
           excom_protocol_unpack_uint32_t False (take 4 d @ rest) = Inr (4, bswap32 n)"
  using assms
  by (simp add: pack_u32_run unpack_u32_run of_be32_def be32_def bswap32_def)

theorem pack_unpack_big_witness:
  "\<exists>d. excom_protocol_pack_uint32_t False [9, 9, 9, 9, 9] 1 = Inr (4, d) \<and>
     excom_protocol_unpack_uint32_t False (take 4 d @ []) = Inr (4, 0x01000000)"
  using pack_unpack_big [of "[9, 9, 9, 9, 9]" 1 "[]"]
  by (auto simp: bswap32_def word4_def byte_of_def)

text \<open>
  \<open>excom_protocol_pack_uint32_t\<close> needs five bytes: it writes the four bytes of the field and a
  NUL after them. On an array of four bytes, as \<open>excom_protocol_write_packet\<close> passes, it
  writes out of bounds on every host and for every value.
\<close>

theorem pack_u32_overruns:
  "excom_protocol_pack_uint32_t le dest n =
     (if 5 \<le> length dest then Inr (4, (if le then be32 n else rev (be32 n)) @ 0 # drop 5 dest)
      else Inl OutOfBounds)"
  by (rule pack_u32_run)

end
