(* ===== verification/Wire.thy ===== *)
theory Wire
  imports Pack
begin

text \<open>
  The packets, \<open>inc/excom/protocol/packets.def\<close>, and the wire format the code is to implement.

  The source lists the packets once, as \<open>PACKET(name, id, body)\<close> with a body of \<open>string\<close> and
  \<open>number\<close> items, and expands the list with other macros for each purpose. The model has the
  list as a table \<open>packets\<close>; theory \<open>Protocol\<close> interprets the items the way the macros of each
  function do. Here the table is given its meaning as a format: a frame is the size of the body,
  the id and the type of the packet in network byte order, then the fields. The format is shown
  to be an exact code, with the codec locales.
\<close>

section \<open>The table of packets\<close>

datatype field = FString string | FNumber8 string

definition packets :: "(string \<times> u16 \<times> field list) list" where
  "packets =
     [(''ok'', 0x01, []),
      (''reject'', 0x02, [FNumber8 ''reason'']),
      (''error'', 0x03, [FNumber8 ''reason'']),
      (''protocol_version'', 0x04, [FString ''version'', FNumber8 ''major'', FNumber8 ''minor'', FNumber8 ''patch'']),
      (''ping'', 0x05, []),
      (''pong'', 0x06, []),
      (''public_key'', 0x07, [FString ''key'']),
      (''command'', 0x10, [FString ''command'']),
      (''command_response'', 0x11, [FString ''response''])]"

text \<open>The enumeration \<open>excom_protocol_packets_t\<close>.\<close>

abbreviation (input) packet_INVALID :: u16 where "packet_INVALID \<equiv> 0"
abbreviation (input) packet_ok :: u16 where "packet_ok \<equiv> 0x01"
abbreviation (input) packet_reject :: u16 where "packet_reject \<equiv> 0x02"
abbreviation (input) packet_error :: u16 where "packet_error \<equiv> 0x03"
abbreviation (input) packet_protocol_version :: u16 where "packet_protocol_version \<equiv> 0x04"
abbreviation (input) packet_ping :: u16 where "packet_ping \<equiv> 0x05"
abbreviation (input) packet_pong :: u16 where "packet_pong \<equiv> 0x06"
abbreviation (input) packet_public_key :: u16 where "packet_public_key \<equiv> 0x07"
abbreviation (input) packet_command :: u16 where "packet_command \<equiv> 0x10"
abbreviation (input) packet_command_response :: u16 where "packet_command_response \<equiv> 0x11"

definition packet_fields :: "u16 \<Rightarrow> field list option" where
  "packet_fields ty = map_of (map snd packets) ty"

lemma packet_fields_simps [simp]:
  "packet_fields 0 = None" "packet_fields 1 = Some []" "packet_fields 2 = Some [FNumber8 ''reason'']"
  "packet_fields 3 = Some [FNumber8 ''reason'']"
  "packet_fields 4 = Some [FString ''version'', FNumber8 ''major'', FNumber8 ''minor'', FNumber8 ''patch'']"
  "packet_fields 5 = Some []" "packet_fields 6 = Some []" "packet_fields 7 = Some [FString ''key'']"
  "packet_fields 0x10 = Some [FString ''command'']" "packet_fields 0x11 = Some [FString ''response'']"
  by (simp_all add: packet_fields_def packets_def)

section \<open>Fields\<close>

text \<open>The value of a field as bytes; \<open>field_ok\<close> says that it has the type of the item.\<close>

datatype wval = WStr "byte list" | WNum byte

primrec field_ok :: "field \<Rightarrow> wval \<Rightarrow> bool" where
  "field_ok (FString _) v = (case v of WStr bs \<Rightarrow> length bs < 2 ^ 32 | WNum _ \<Rightarrow> False)"
| "field_ok (FNumber8 _) v = (case v of WStr _ \<Rightarrow> False | WNum _ \<Rightarrow> True)"

primrec enc_val :: "wval \<Rightarrow> byte list" where
  "enc_val (WStr bs) = enc32 (of_nat (length bs)) @ bs"
| "enc_val (WNum b) = enc8 b"

definition dec_string :: "(byte, byte list) decoder" where
  "dec_string bs =
     (case dec32 bs of None \<Rightarrow> None
      | Some (n, r) \<Rightarrow> if unat n \<le> length r then Some (take (unat n) r, drop (unat n) r) else None)"

primrec dec_field :: "field \<Rightarrow> (byte, wval) decoder" where
  "dec_field (FString _) bs = (case dec_string bs of None \<Rightarrow> None | Some (s, r) \<Rightarrow> Some (WStr s, r))"
| "dec_field (FNumber8 _) bs = (case dec8 bs of None \<Rightarrow> None | Some (b, r) \<Rightarrow> Some (WNum b, r))"

definition enc_fields :: "wval list \<Rightarrow> byte list" where
  "enc_fields vs = concat (map enc_val vs)"

primrec dec_fields :: "field list \<Rightarrow> (byte, wval list) decoder" where
  "dec_fields [] bs = Some ([], bs)"
| "dec_fields (f # fs) bs =
     (case dec_field f bs of None \<Rightarrow> None
      | Some (v, r) \<Rightarrow> (case dec_fields fs r of None \<Rightarrow> None | Some (vs, r') \<Rightarrow> Some (v # vs, r')))"

definition fields_ok :: "field list \<Rightarrow> wval list \<Rightarrow> bool" where
  "fields_ok fs vs = list_all2 field_ok fs vs"

lemma unat_of_nat_u32: "n < 2 ^ 32 \<Longrightarrow> unat (of_nat n :: u32) = n"
  by (simp add: unat_of_nat)

lemma dec_string_enc:
  assumes "length bs < 2 ^ 32"
  shows "dec_string (be32 (of_nat (length bs)) @ bs @ r) = Some (bs, r)"
  using u32.dec_enc [of "of_nat (length bs)" "bs @ r"] unat_of_nat_u32 [OF assms]
  by (simp add: dec_string_def)

lemma dec_string_sound:
  assumes "dec_string bs = Some (s, r)"
  shows "length s < 2 ^ 32 \<and> bs = be32 (of_nat (length s)) @ s @ r"
proof -
  obtain n q where d: "dec32 bs = Some (n, q)" "unat n \<le> length q" "s = take (unat n) q" "r = drop (unat n) q"
    using assms by (auto simp: dec_string_def split: option.splits if_splits)
  have "bs = be32 n @ q" using u32.dec_sound [OF d(1)] by simp
  moreover have "length s = unat n" using d by simp
  ultimately show ?thesis using d unat_u32_bound [of n] by simp
qed

lemma field_exact: "exact_codec enc_val (dec_field f) (field_ok f)"
proof (cases f)
  case (FString n)
  show ?thesis
    unfolding FString
    by unfold_locales
       (auto simp: dec_string_enc split: wval.splits option.splits dest!: dec_string_sound)
next
  case (FNumber8 n)
  show ?thesis
    unfolding FNumber8
    by unfold_locales
       (auto simp: field_dec_eq split: wval.splits option.splits if_splits,
        metis One_nat_def Suc_le_length_iff drop0 drop_Suc_Cons nth_Cons_0)
qed

interpretation field: exact_codec enc_val "dec_field f" "field_ok f" for f
  by (rule field_exact)

lemma fields_dec_enc:
  "fields_ok fs vs \<Longrightarrow> dec_fields fs (enc_fields vs @ r) = Some (vs, r)"
  unfolding fields_ok_def
  by (induction rule: list_all2_induct) (simp_all add: enc_fields_def field.dec_enc)

lemma fields_dec_sound:
  "dec_fields fs bs = Some (vs, r) \<Longrightarrow> fields_ok fs vs \<and> bs = enc_fields vs @ r"
proof (induction fs arbitrary: bs vs)
  case Nil
  then show ?case by (simp add: fields_ok_def enc_fields_def)
next
  case (Cons f fs)
  then obtain v q vs' where d: "dec_field f bs = Some (v, q)" "dec_fields fs q = Some (vs', r)" "vs = v # vs'"
    by (auto split: option.splits)
  show ?case
    using field.dec_sound [OF d(1)] Cons.IH [OF d(2)] d(3) by (simp add: fields_ok_def enc_fields_def)
qed

interpretation body: exact_codec enc_fields "dec_fields fs" "fields_ok fs" for fs
  by unfold_locales (rule fields_dec_enc, assumption, erule fields_dec_sound)

section \<open>Frames\<close>

interpretation id_type: codec_pair enc16 dec16 "\<lambda>_. True" enc16 dec16 "\<lambda>_. True"
  by unfold_locales

interpretation header: codec_pair enc32 dec32 "\<lambda>_. True" "encode_pair enc16 enc16" "decode_pair dec16 dec16"
    "\<lambda>p. True \<and> True"
  by unfold_locales

type_synonym frame = "u16 \<times> u16 \<times> wval list"

definition enc_header :: "u32 \<Rightarrow> u16 \<Rightarrow> u16 \<Rightarrow> byte list" where
  "enc_header n i ty = encode_pair enc32 (encode_pair enc16 enc16) (n, i, ty)"

definition dec_header :: "(byte, u32 \<times> u16 \<times> u16) decoder" where
  "dec_header = decode_pair dec32 (decode_pair dec16 dec16)"

definition enc_frame :: "frame \<Rightarrow> byte list" where
  "enc_frame x = (case x of (i, ty, vs) \<Rightarrow>
     enc_header (of_nat (length (enc_fields vs))) i ty @ enc_fields vs)"

definition dec_frame :: "(byte, frame) decoder" where
  "dec_frame bs =
     (case dec_header bs of None \<Rightarrow> None
      | Some ((n, i, ty), r) \<Rightarrow>
          (case packet_fields ty of None \<Rightarrow> None
           | Some fs \<Rightarrow>
               (case dec_fields fs r of None \<Rightarrow> None
                | Some (vs, r') \<Rightarrow>
                    if length (enc_fields vs) < 2 ^ 32 \<and> n = of_nat (length (enc_fields vs)) then Some ((i, ty, vs), r') else None)))"

definition frame_ok :: "frame \<Rightarrow> bool" where
  "frame_ok x = (case x of (i, ty, vs) \<Rightarrow>
     (case packet_fields ty of None \<Rightarrow> False
      | Some fs \<Rightarrow> fields_ok fs vs \<and> length (enc_fields vs) < 2 ^ 32))"

lemma enc_header_eq: "enc_header n i ty = be32 n @ be16 i @ be16 ty"
  by (simp add: enc_header_def encode_pair_def)

lemma length_enc_header [simp]: "length (enc_header n i ty) = 8"
  by (simp add: enc_header_eq)

lemma header_dec_enc: "dec_header (enc_header n i ty @ r) = Some ((n, i, ty), r)"
  unfolding dec_header_def enc_header_def by (rule header.pair_dec_enc) simp

lemma header_dec_sound: "dec_header bs = Some ((n, i, ty), r) \<Longrightarrow> bs = enc_header n i ty @ r"
  unfolding dec_header_def enc_header_def by (drule header.pair_dec_sound) simp

interpretation frame: exact_codec enc_frame dec_frame frame_ok
proof unfold_locales
  fix x r assume "frame_ok x"
  then show "dec_frame (enc_frame x @ r) = Some (x, r)"
    by (auto simp: frame_ok_def enc_frame_def dec_frame_def header_dec_enc body.dec_enc split: prod.splits option.splits)
next
  fix bs x r assume "dec_frame bs = Some (x, r)"
  then show "frame_ok x \<and> bs = enc_frame x @ r"
    by (auto simp: frame_ok_def enc_frame_def dec_frame_def split: prod.splits option.splits if_splits
        dest!: header_dec_sound body.dec_sound)
qed

section \<open>Properties\<close>

text \<open>
  The wire format is uniquely decodable: whatever sequence of packets is sent, with any field
  values of the right types, decoding as many frames from the front of the stream gives the same
  packets and leaves what follows.
\<close>

theorem frames_stream:
  assumes "list_all frame_ok xs"
  shows "decode_n dec_frame (length xs) (concat (map enc_frame xs) @ rest) = Some (xs, rest)"
  using assms by (rule frame.decode_stream)

theorem frames_stream_witness:
  "decode_n dec_frame 2 (enc_frame (1, packet_command, [WStr [104, 105]]) @ enc_frame (2, packet_ping, []) @ [9])
   = Some ([(1, packet_command, [WStr [104, 105]]), (2, packet_ping, [])], [9])"
proof -
  have "list_all frame_ok [(1, packet_command, [WStr [104, 105]]), (2, packet_ping, [])]"
    by (simp add: frame_ok_def fields_ok_def enc_fields_def)
  from frames_stream [OF this, of "[9]"] show ?thesis by (simp add: numeral_2_eq_2)
qed

text \<open>
  A frame that is cut short, at whatever byte, is never accepted: a reader that waits until
  decoding succeeds waits for the whole frame.
\<close>

theorem frame_truncated:
  assumes "frame_ok x" and "enc_frame x = p @ q" and "q \<noteq> []"
  shows "dec_frame p = None"
  using assms by (rule frame.truncated)

theorem frame_truncated_witness:
  "dec_frame (take 9 (enc_frame (1, packet_error, [WNum 4])) ) = Some ((1, packet_error, [WNum 4]), [])
   \<and> dec_frame (take 8 (enc_frame (1, packet_error, [WNum 4]))) = None"
proof
  have ok: "frame_ok (1, packet_error, [WNum 4])"
    by (simp add: frame_ok_def fields_ok_def enc_fields_def)
  have len: "length (enc_frame (1, packet_error, [WNum 4])) = 9"
    by (simp add: enc_frame_def enc_fields_def)
  show "dec_frame (take 9 (enc_frame (1, packet_error, [WNum 4])) ) = Some ((1, packet_error, [WNum 4]), [])"
    using frame.dec_enc [OF ok, of "[]"] len by simp
  show "dec_frame (take 8 (enc_frame (1, packet_error, [WNum 4]))) = None"
    by (rule frame_truncated [OF ok append_take_drop_id [symmetric]]) (simp add: len)
qed

end
