(* ===== verification/Protocol.thy ===== *)
theory Protocol
  imports Wire Encryption
begin

text \<open>
  Reading and writing packets, \<open>src/excom/protocol.c\<close> and \<open>inc/excom/protocol.h\<close>. The union
  \<open>data\<close> of a packet is the member last written, as the list of its fields; reading a field of
  another type than was written is a fault. The local \<open>char buf[4]\<close> of the writer is a list of
  four bytes and of the \<open>slack\<close> bytes after it that happen to belong to nothing else.

  The lemmas: with a byte of slack on a little-endian host the writer appends exactly the frame of
  the packet (theory \<open>Wire\<close>), in the clear or encrypted, frees what it allocates, and the reader
  takes the frame off and gives the same fields back.
\<close>

section \<open>Model\<close>

datatype fval = SVal xstring | NVal byte

record packet =
  pk_size :: u32
  pk_id :: u16
  pk_type :: u16
  pk_data :: "fval list"

text \<open>A local \<open>excom_buffer_t\<close> before it is initialised.\<close>

definition raw_buffer :: buffer where
  "raw_buffer = \<lparr>b_init = 0, b_max = 0, b_used = 0, b_pos = 0, b_buf = Null, b_unmutable = False,
     b_freeable = False, b_mutex = False\<rparr>"

text \<open>\<open>enc && enc->remote.active\<close>.\<close>

definition encrypting :: "encrypt option \<Rightarrow> bool" where
  "encrypting enc = (case enc of None \<Rightarrow> False | Some e \<Rightarrow> e_remote_active e)"

text \<open>An unpacking function applied to a pointer.\<close>

definition unpack_at :: "(byte list \<Rightarrow> fault + (int \<times> 'a)) \<Rightarrow> ptr \<Rightarrow> (int \<times> 'a) cmd" where
  "unpack_at unpack p = bind (peek p) (\<lambda>bs. lift_fault (unpack bs))"

text \<open>
  The \<open>string\<close> and \<open>number\<close> macros of the reader, over the fields of a packet: \<open>pos\<close> is
  \<open>buf.pos\<close>, \<open>cur\<close> the 32-bit offset from it.
\<close>

primrec read_fields :: "bool \<Rightarrow> field list \<Rightarrow> ptr \<Rightarrow> u32 \<Rightarrow> (fval list \<times> u32) cmd" where
  "read_fields le [] pos cur = ret ([], cur)"
| "read_fields le (f # fs) pos cur =
     bind (case f of
         FString _ \<Rightarrow>
           bind (unpack_at (excom_protocol_unpack_uint32_t le) (ptr_add pos (unat cur))) (\<lambda>(k, str_size).
           let cur = cur + of_int k in
           bind (excom_string_dupfill excom_string_init str_size (ptr_add pos (unat cur))) (\<lambda>(_, s).
           ret (SVal s, cur + str_size)))
       | FNumber8 _ \<Rightarrow>
           bind (unpack_at excom_protocol_unpack_uint8_t (ptr_add pos (unat cur))) (\<lambda>(k, n).
           ret (NVal n, cur + of_int k))) (\<lambda>(v, cur).
     bind (read_fields le fs pos cur) (\<lambda>(vs, cur). ret (v # vs, cur)))"

definition excom_protocol_read_packet ::
    "sodium \<Rightarrow> packet \<Rightarrow> buffer \<Rightarrow> encrypt option \<Rightarrow> (int \<times> packet \<times> buffer \<times> encrypt option) cmd" where
  "excom_protocol_read_packet S packet inb enc =
     bind (asks little) (\<lambda>le.
     let p = ptr_add (b_buf inb) (unat (b_pos inb)) in
     bind (unpack_at (excom_protocol_unpack_uint32_t le) p) (\<lambda>(k, size).
     let cur = of_int k :: u32 in
     bind (unpack_at (excom_protocol_unpack_uint16_t le) (ptr_add p (unat cur))) (\<lambda>(k, id).
     let cur = cur + of_int k in
     bind (unpack_at (excom_protocol_unpack_uint16_t le) (ptr_add p (unat cur))) (\<lambda>(k, type).
     let cur = cur + of_int k;
         packet = packet\<lparr>pk_size := size, pk_id := id, pk_type := type\<rparr>;
         inb = inb\<lparr>b_pos := b_pos inb + ucast cur\<rparr> in
     bind (excom_buffer_init raw_buffer 32) (\<lambda>(_, buf).
     bind (if encrypting enc then
             bind (excom_pdecrypt_buffer2 S (the enc) inb buf (ucast size)) (\<lambda>(_, e, inb, buf).
             ret (Some e, inb, buf))
           else
             bind (excom_buffer_bappend_remaining2 buf inb (ucast size)) (\<lambda>(_, buf).
             ret (enc, inb, buf))) (\<lambda>(enc, inb, buf).
     if type = packet_INVALID then ret (1, packet, inb, enc)
     else
       bind (case packet_fields type of
           None \<Rightarrow> ret (pk_data packet, 0)
         | Some fs \<Rightarrow> read_fields le fs (ptr_add (b_buf buf) (unat (b_pos buf))) 0) (\<lambda>(data, cur).
       bind (excom_buffer_destroy buf) (\<lambda>_.
       ret (0, packet\<lparr>pk_data := data\<rparr>, inb\<lparr>b_pos := b_pos inb + ucast cur\<rparr>, enc)))))))))"

text \<open>The macros of the writer; \<open>buf\<close> is the scratch array, \<open>b\<close> the buffer of the body.\<close>

fun write_fields :: "bool \<Rightarrow> field list \<Rightarrow> fval list \<Rightarrow> byte list \<Rightarrow> buffer \<Rightarrow> u32 \<Rightarrow>
    (byte list \<times> buffer \<times> u32) cmd" where
  "write_fields le [] [] buf b sz = ret (buf, b, sz)"
| "write_fields le (FString _ # fs) (SVal s # vs) buf b sz =
     bind (lift_fault (excom_protocol_pack_uint32_t le buf (s_size s))) (\<lambda>(_, buf).
     bind (excom_buffer_cappend b (Lit buf) 4) (\<lambda>(_, b).
     bind (excom_buffer_sappend b s) (\<lambda>(_, b).
     write_fields le fs vs buf b (sz + (4 + s_size s)))))"
| "write_fields le (FNumber8 _ # fs) (NVal n # vs) buf b sz =
     bind (lift_fault (excom_protocol_pack_uint8_t buf n)) (\<lambda>(s, buf).
     bind (excom_buffer_cappend b (Lit buf) (of_int s)) (\<lambda>(_, b).
     write_fields le fs vs buf b (sz + of_int s)))"
| "write_fields le _ _ buf b sz = fail BadMember"

definition excom_protocol_write_packet ::
    "sodium \<Rightarrow> packet \<Rightarrow> buffer \<Rightarrow> encrypt option \<Rightarrow> (int \<times> packet \<times> buffer \<times> encrypt option) cmd" where
  "excom_protocol_write_packet S packet out enc =
     bind (asks (\<lambda>w. (little w, replicate (4 + slack w) 0))) (\<lambda>(le, buf).
     bind (excom_buffer_init raw_buffer 32) (\<lambda>(_, body).
     bind (excom_buffer_init raw_buffer 32) (\<lambda>(_, body2).
     if pk_type packet = packet_INVALID then
       bind (excom_buffer_destroy body) (\<lambda>_. ret (1, packet, out, enc))
     else
       bind (case packet_fields (pk_type packet) of
           None \<Rightarrow> ret (buf, body, 0)
         | Some fs \<Rightarrow> write_fields le fs (pk_data packet) buf body 0) (\<lambda>(buf, body, size).
       bind (if encrypting enc then
               bind (excom_pencrypt_buffer S (the enc) body body2) (\<lambda>(_, e, body2).
               ret (Some e, body2, ucast (b_used body2)))
             else ret (enc, body2, size)) (\<lambda>(enc, body2, size).
       bind (lift_fault (excom_protocol_pack_uint32_t le buf size)) (\<lambda>(_, buf).
       bind (excom_buffer_cappend out (Lit buf) 4) (\<lambda>(_, out).
       bind (lift_fault (excom_protocol_pack_uint16_t le buf (pk_id packet))) (\<lambda>(_, buf).
       bind (excom_buffer_cappend out (Lit buf) 2) (\<lambda>(_, out).
       bind (lift_fault (excom_protocol_pack_uint16_t le buf (pk_type packet))) (\<lambda>(_, buf).
       bind (excom_buffer_cappend out (Lit buf) 2) (\<lambda>(_, out).
       bind (if encrypting enc then
               bind (excom_pencrypt_buffer S (the enc) body out) (\<lambda>(_, e, out). ret (Some e, out))
             else
               bind (excom_buffer_bappend out body) (\<lambda>(_, out). ret (enc, out))) (\<lambda>(enc, out).
       bind (excom_buffer_destroy body) (\<lambda>_.
       bind (excom_buffer_destroy body2) (\<lambda>_.
       ret (0, packet\<lparr>pk_size := size\<rparr>, out, enc)))))))))))))))"

text \<open>The variable arguments of \<open>excom_protocol_prefill\<close>: a string struct, or an \<open>uintmax_t\<close>.\<close>

datatype pf_arg = PfString xstring | PfNumber "64 word"

fun prefill_fields :: "field list \<Rightarrow> pf_arg list \<Rightarrow> fault + fval list" where
  "prefill_fields [] va = Inr []"
| "prefill_fields (FString _ # fs) (PfString s # va) = map_sum id (\<lambda>vs. SVal s # vs) (prefill_fields fs va)"
| "prefill_fields (FNumber8 _ # fs) (PfNumber n # va) = map_sum id (\<lambda>vs. NVal (ucast n) # vs) (prefill_fields fs va)"
| "prefill_fields _ _ = Inl BadVarArg"

definition excom_protocol_prefill :: "packet \<Rightarrow> pf_arg list \<Rightarrow> fault + packet" where
  "excom_protocol_prefill packet va =
     (if pk_type packet = packet_INVALID then Inr packet
      else case packet_fields (pk_type packet) of
             None \<Rightarrow> Inr packet
           | Some fs \<Rightarrow> map_sum id (\<lambda>vs. packet\<lparr>pk_data := vs\<rparr>) (prefill_fields fs va))"

definition excom_protocol_write :: "sodium \<Rightarrow> packet \<Rightarrow> int \<Rightarrow> encrypt option \<Rightarrow> (int \<times> packet \<times> encrypt option) cmd" where
  "excom_protocol_write S packet sock enc =
     bind (excom_buffer_init raw_buffer 32) (\<lambda>(err, buffer).
     if err \<noteq> 0 then ret (err, packet, enc)
     else
       bind (excom_protocol_write_packet S packet buffer enc) (\<lambda>(err, packet, buffer, enc).
       if err \<noteq> 0 then ret (err, packet, enc)
       else
         bind (excom_buffer_write buffer sock) (\<lambda>(err, buffer).
         if err \<noteq> 0 then ret (err, packet, enc)
         else bind (excom_buffer_destroy buffer) (\<lambda>_. ret (0, packet, enc)))))"


section \<open>Field values in the heap\<close>

definition fv_val :: "world \<Rightarrow> fval \<Rightarrow> wval \<Rightarrow> bool" where
  "fv_val w v x \<longleftrightarrow>
     (case v of SVal s \<Rightarrow> (\<exists>bs. x = WStr bs \<and> str_val w s bs) | NVal n \<Rightarrow> x = WNum n)"

definition fv_ids :: "fval \<Rightarrow> nat set" where
  "fv_ids v = (case v of SVal s \<Rightarrow> str_ids s | NVal _ \<Rightarrow> {})"

definition data_val :: "world \<Rightarrow> fval list \<Rightarrow> wval list \<Rightarrow> bool" where
  "data_val w data vs \<longleftrightarrow> list_all2 (fv_val w) data vs"

definition data_ids :: "fval list \<Rightarrow> nat set" where
  "data_ids data = (\<Union>v \<in> set data. fv_ids v)"

lemma fv_val_simps [simp]:
  "fv_val w v (WStr bs) \<longleftrightarrow> (\<exists>s. v = SVal s \<and> str_val w s bs)" "fv_val w v (WNum n) \<longleftrightarrow> v = NVal n"
  by (auto simp: fv_val_def split: fval.splits)

lemma fv_ids_simps [simp]: "fv_ids (SVal s) = str_ids s" "fv_ids (NVal n) = {}"
  by (simp_all add: fv_ids_def)

lemma data_simps [simp]:
  "data_val w [] vs \<longleftrightarrow> vs = []" "data_val w data [] \<longleftrightarrow> data = []"
  "data_val w (d # ds) (v # vs) \<longleftrightarrow> fv_val w d v \<and> data_val w ds vs"
  "data_ids [] = {}" "data_ids (d # ds) = fv_ids d \<union> data_ids ds"
  by (simp_all add: data_val_def data_ids_def)

lemma fv_val_frame:
  assumes "fv_val w v x" and "mframe I w w'" and "hwf w" and "fv_ids v \<inter> I = {}"
  shows "fv_val w' v x"
  using assms str_val_mframe [OF _ assms(2,3)] by (cases x) (auto simp: str_ids_def)

lemma data_val_frame:
  assumes "data_val w data vs" and "mframe I w w'" and "hwf w" and "data_ids data \<inter> I = {}"
  shows "data_val w' data vs"
  using assms(1,4)
proof (induction data arbitrary: vs)
  case (Cons d ds)
  then show ?case
    using fv_val_frame [OF _ assms(2,3), of d] by (cases vs) (auto simp: Int_Un_distrib2)
qed simp

text \<open>Blocks that are not new stay apart from a buffer that grows.\<close>

lemma apart_step:
  assumes "bstep w b w' b'" and "\<forall>i \<in> A. i < fresh w \<and> i \<notin> bids b"
  shows "\<forall>i \<in> A. i < fresh w' \<and> i \<notin> bids b'"
proof
  fix i assume "i \<in> A"
  then have i: "i < fresh w" "i \<notin> bids b" using assms(2) by auto
  have "fresh w \<le> fresh w'" using bstepD(2) [OF assms(1)] by (rule mframe_fresh)
  then show "i < fresh w' \<and> i \<notin> bids b'" using i bstepD(3) [OF assms(1), of i] by auto
qed

section \<open>Writing the body\<close>

lemma cappend_prefix_ready:
  assumes "ready w b" and "xs = bs @ ys" and "n = of_nat (length bs)" and "length bs \<le> 8"
    and "unat (b_used b) + length bs < 2 ^ 32"
  shows "wp (excom_buffer_cappend b (Lit xs) n) (\<lambda>(r, b') w'. r = 0 \<and> appended w b bs w' b') w"
proof -
  have n: "unat n = length bs" using assms(3,4) by (simp add: unat_of_nat)
  show ?thesis by (rule cappend_ready [OF assms(1)]) (use n assms in simp_all)
qed

lemma enc_fields_simps [simp]: "enc_fields [] = []" "enc_fields (v # vs) = enc_val v @ enc_fields vs"
  by (simp_all add: enc_fields_def)

lemma fields_ok_simps [simp]:
  "fields_ok [] vs \<longleftrightarrow> vs = []" "fields_ok fs [] \<longleftrightarrow> fs = []"
  "fields_ok (f # fs) (v # vs) \<longleftrightarrow> field_ok f v \<and> fields_ok fs vs"
  by (simp_all add: fields_ok_def)

text \<open>One field: the string with its length, and what is left to do once it is in the buffer.\<close>

lemma write_string_wp:
  assumes r: "ready w b" and sv: "str_val w s bs" and l5: "5 \<le> length buf"
    and apart: "\<forall>i \<in> str_ids s. i < fresh w \<and> i \<notin> bids b" and fit: "unat (b_used b) + 4 + length bs < 2 ^ 32"
    and K: "\<And>buf1 b1 w1. length buf1 = length buf \<Longrightarrow> appended w b (be32 (s_size s) @ bs) w1 b1 \<Longrightarrow> wp (K buf1 b1) Q w1"
  shows "wp (bind (lift_fault (excom_protocol_pack_uint32_t True buf (s_size s))) (\<lambda>(_, buf).
     bind (excom_buffer_cappend b (Lit buf) 4) (\<lambda>(_, b). bind (excom_buffer_sappend b s) (\<lambda>(_, b). K buf b)))) Q w"
proof -
  let ?buf = "be32 (s_size s) @ 0 # drop 5 buf"
  have h: "hwf w" using r by (simp add: ready_def)
  have ls: "length bs = unat (s_size s)" using sv by (rule str_val_length)
  have c1: "wp (excom_buffer_cappend b (Lit ?buf) 4) (\<lambda>(r, b') w'. r = 0 \<and> appended w b (be32 (s_size s)) w' b') w"
    using fit by (intro cappend_prefix_ready [OF r]) simp_all
  show ?thesis
    unfolding pack_u32_run if_P [OF l5] wp_bind wp_lift_Inr prod.case if_True
  proof (rule wp_mono [OF c1], clarsimp, goal_cases)
    case (1 b1 w1)
    have s1: "bstep w b w1 b1" and r1: "ready w1 b1" and u1: "unat (b_used b1) = unat (b_used b) + 4"
      using 1 by (simp_all add: appended_def)
    have sv1: "str_val w1 s bs"
      using sv bstepD(2) [OF s1] h by (rule str_val_mframe) (use apart in \<open>auto simp: str_ids_def\<close>)
    have sep: "pids (s_body s) \<inter> bids b1 = {}"
      using apart_step [OF s1, of "str_ids s"] apart by (auto simp: str_ids_def)
    show ?case
    proof (rule wp_mono [OF sappend_ready [OF r1 sv1 sep]], clarsimp, goal_cases)
      case 1
      then show ?case using u1 fit ls by simp
    next
      case (2 x w2)
      then show ?case using appended_trans [OF 1] l5 by (auto intro!: K)
    qed
  qed
qed

lemma write_byte_wp:
  assumes r: "ready w b" and l1: "1 \<le> length buf" and fit: "unat (b_used b) + 1 < 2 ^ 32"
    and K: "\<And>buf1 b1 w1. length buf1 = length buf \<Longrightarrow> appended w b [n] w1 b1 \<Longrightarrow> wp (K 1 buf1 b1) Q w1"
  shows "wp (bind (lift_fault (excom_protocol_pack_uint8_t buf n)) (\<lambda>(s, buf).
     bind (excom_buffer_cappend b (Lit buf) (of_int s)) (\<lambda>(_, b). K s buf b))) Q w"
proof -
  have c1: "wp (excom_buffer_cappend b (Lit (n # drop 1 buf)) (of_int 1)) (\<lambda>(r, b') w'. r = 0 \<and> appended w b [n] w' b') w"
    using fit by (intro cappend_prefix_ready [OF r]) simp_all
  show ?thesis
    unfolding pack_u8_run if_P [OF l1] wp_bind wp_lift_Inr prod.case
    by (rule wp_mono [OF c1], clarsimp, rule K) (use l1 in simp_all)
qed

lemma write_fields_ready:
  assumes "ready w b" and "data_val w data vs" and "fields_ok fs vs" and "5 \<le> length buf"
    and "\<forall>i \<in> data_ids data. i < fresh w \<and> i \<notin> bids b"
    and "unat (b_used b) + length (enc_fields vs) < 2 ^ 32"
  shows "wp (write_fields True fs data buf b sz) (\<lambda>(buf', b', sz') w'. length buf' = length buf \<and>
    appended w b (enc_fields vs) w' b' \<and> sz' = sz + of_nat (length (enc_fields vs))) w"
  using assms
proof (induction fs arbitrary: w b data vs buf sz)
  case Nil
  then show ?case by (simp add: appended_refl)
next
  case (Cons f fs)
  note r = Cons.prems(1) and apart = Cons.prems(5) and fit = Cons.prems(6)
  obtain v vs' where vs: "vs = v # vs'" "field_ok f v" "fields_ok fs vs'"
    using Cons.prems(3) by (cases vs) auto
  obtain d data' where data: "data = d # data'" "fv_val w d v" "data_val w data' vs'"
    using Cons.prems(2) vs(1) by (cases data) auto
  have h: "hwf w" using r by (simp add: ready_def)
  have rest: "wp (write_fields True fs data' buf1 b1 sz1) (\<lambda>(buf', b', sz') w'. length buf' = length buf \<and>
      appended w b (enc_fields vs) w' b' \<and> sz' = sz + of_nat (length (enc_fields vs))) w1"
    if "appended w b (enc_val v) w1 b1" "length buf1 = length buf" "sz1 = sz + of_nat (length (enc_val v))"
    for buf1 b1 sz1 w1
  proof -
    have s1: "bstep w b w1 b1" using that(1) by (simp add: appended_def)
    have i: "ready w1 b1" "data_val w1 data' vs'" "fields_ok fs vs'" "5 \<le> length buf1"
      "\<forall>i \<in> data_ids data'. i < fresh w1 \<and> i \<notin> bids b1"
      "unat (b_used b1) + length (enc_fields vs') < 2 ^ 32"
    proof -
      show "ready w1 b1" using that(1) by (simp add: appended_def)
      show "data_val w1 data' vs'"
        using data(3) bstepD(2) [OF s1] h by (rule data_val_frame) (use apart data(1) in auto)
      show "\<forall>i \<in> data_ids data'. i < fresh w1 \<and> i \<notin> bids b1"
        using s1 by (rule apart_step) (use apart data(1) in auto)
      show "unat (b_used b1) + length (enc_fields vs') < 2 ^ 32"
        using that(1) fit vs(1) by (simp add: appended_def)
    qed (use vs(3) Cons.prems(4) that(2) in simp_all)
    show ?thesis
      by (rule wp_mono [OF Cons.IH [OF i]])
         (use that appended_trans [OF that(1)] vs(1) in \<open>auto simp: algebra_simps\<close>)
  qed
  show ?case
  proof (cases f)
    case (FString name)
    then obtain bs s where bs: "v = WStr bs" "d = SVal s" "str_val w s bs" "length bs < 2 ^ 32"
      using vs(2) data(2) by (auto split: wval.splits)
    have ls: "length bs = unat (s_size s)" using bs(3) by (rule str_val_length)
    have sz: "of_nat (length bs) = s_size s" unfolding ls by simp
    have ids: "\<forall>i \<in> str_ids s. i < fresh w \<and> i \<notin> bids b" using apart data(1) bs(2) by simp
    have room: "unat (b_used b) + 4 + length bs < 2 ^ 32" using fit vs(1) bs(1) by simp
    show ?thesis
      unfolding FString data(1) bs(2) write_fields.simps
      by (rule write_string_wp [OF r bs(3) Cons.prems(4) ids room], rule rest) (use bs(1) sz in simp_all)
  next
    case (FNumber8 name)
    then obtain n where n: "v = WNum n" "d = NVal n"
      using vs(2) data(2) by (auto split: wval.splits)
    have l1: "1 \<le> length buf" and room: "unat (b_used b) + 1 < 2 ^ 32" using Cons.prems(4) fit vs(1) n(1) by simp_all
    show ?thesis
      unfolding FNumber8 data(1) n(2) write_fields.simps
      by (rule write_byte_wp [OF r l1 room], rule rest) (use n in simp_all)
  qed
qed


section \<open>Runs that draw from the environment\<close>

lemma mframe_drawn: "mframe I w w' \<Longrightarrow> mframe I (drawn k w) (drawn k w')"
  by (simp add: mframe_def same_env_def)

lemma bstep_drawn: "bstep w b w' b' \<Longrightarrow> bstep (drawn k w) b (drawn k w') b'"
  by (simp add: bstep_def mframe_drawn)

lemma appended_drawn: "appended w b bs w' b' \<Longrightarrow> appended (drawn k w) b bs (drawn k w') b'"
  by (simp add: appended_def bstep_drawn)

lemma randomness_cong: "entropy w' = entropy w \<Longrightarrow> randomness n w' = randomness n w"
  by (simp add: randomness_def)

section \<open>The local buffers of the writer\<close>

definition new_buffer :: "nat \<Rightarrow> buffer" where
  "new_buffer i = \<lparr>b_init = 32, b_max = 32, b_used = 0, b_pos = 0, b_buf = Ptr i 0, b_unmutable = False,
     b_freeable = True, b_mutex = False\<rparr>"

lemma new_buffer_simps [simp]:
  "b_used (new_buffer i) = 0" "b_pos (new_buffer i) = 0" "bids (new_buffer i) = {i}"
  "contents w (new_buffer i) = []" "b_freeable (new_buffer i)" "pending w (new_buffer i) = []"
  "b_max (new_buffer i) = 32" "\<not> b_unmutable (new_buffer i)" "\<not> b_mutex (new_buffer i)"
  by (simp_all add: new_buffer_def bids_def contents_def pending_def)

lemma init_new_wp:
  assumes "hwf w" and "plenty w"
  shows "wp (excom_buffer_init raw_buffer 32) (\<lambda>(r, b) w'. b = new_buffer (fresh w) \<and> ready w' b \<and> mframe {} w w' \<and>
    errno w' = errno w \<and> fresh w' = Suc (fresh w) \<and>
    blocks w' (fresh w) = Some (map (junk w (fresh w)) [0..<32])) w"
  by (rule wp_mono [OF buffer_init_wp [OF assms]]) (auto simp: new_buffer_def)

lemma two_buffers_wp:
  assumes "hwf w" and "plenty w"
    and "\<And>w'. ready w' (new_buffer (fresh w)) \<Longrightarrow> ready w' (new_buffer (Suc (fresh w))) \<Longrightarrow> mframe {} w w' \<Longrightarrow>
      errno w' = errno w \<Longrightarrow> fresh w' = Suc (Suc (fresh w)) \<Longrightarrow>
      wp (F (new_buffer (fresh w)) (new_buffer (Suc (fresh w)))) Q w'"
  shows "wp (bind (excom_buffer_init raw_buffer 32) (\<lambda>(_, a). bind (excom_buffer_init raw_buffer 32) (\<lambda>(_, b). F a b))) Q w"
  unfolding wp_bind
proof (rule wp_mono [OF init_new_wp [OF assms(1,2)]], clarsimp, goal_cases)
  case (1 w1)
  have h1: "hwf w1" "plenty w1" using 1 by (simp_all add: ready_def)
  show ?case
  proof (rule wp_mono [OF init_new_wp [OF h1]], clarsimp, goal_cases)
    case (1 w2)
    have "ready w2 (new_buffer (fresh w))"
      using \<open>ready w1 _\<close> \<open>mframe {} w1 w2\<close> by (rule ready_frame) simp
    moreover have "mframe {} w w2" using \<open>mframe {} w w1\<close> \<open>mframe {} w1 w2\<close> by (rule mframe_trans) auto
    ultimately show ?case
      using 1 \<open>fresh w1 = _\<close> \<open>errno w1 = _\<close> by (auto intro: assms(3))
  qed
qed

section \<open>The payload\<close>

text \<open>What encrypting a body appends, the draws it takes and the key state after it.\<close>

definition sealed_body :: "sodium \<Rightarrow> encrypt \<Rightarrow> byte list \<Rightarrow> byte list \<Rightarrow> byte list" where
  "sealed_body S e n body = (if body = [] then [] else n @ sealed S e n body)"

definition body_draws :: "byte list \<Rightarrow> nat" where
  "body_draws body = (if body = [] then 0 else 24)"

definition body_prepped :: "sodium \<Rightarrow> encrypt \<Rightarrow> byte list \<Rightarrow> encrypt" where
  "body_prepped S e body = (if body = [] then e else prepped S e)"

lemma sealed_prepped [simp]:
  "sealed S (prepped S e) n data = sealed S e n data"
  "sealed_body S (body_prepped S e body) n body = sealed_body S e n body"
  "body_prepped S (body_prepped S e body) body = body_prepped S e body"
  by (simp_all add: sealed_def sealed_body_def body_prepped_def)

lemma length_sealed_body:
  "sodium_ok S \<Longrightarrow> enc_ok S e \<Longrightarrow> length n = 24 \<Longrightarrow>
     length (sealed_body S e n body) = (if body = [] then 0 else 56 + length body)"
  by (simp add: sealed_body_def sealed)

lemma body_prepped_ok [simp]:
  "sodium_ok S \<Longrightarrow> enc_ok S e \<Longrightarrow> enc_ok S (body_prepped S e body)"
  "e_remote_active (body_prepped S e body) = e_remote_active e"
  by (simp_all add: body_prepped_def)

lemma pencrypt_body_ready:
  assumes S: "sodium_ok S" and E: "enc_ok S e" and r: "ready w out" and ok: "buf_ok w body"
    and p: "b_pos body = 0" and c: "contents w body = bs" and sep: "bids body \<inter> bids out = {}"
    and fit: "unat (b_used out) + 56 + length bs < 2 ^ 32"
  shows "wp (excom_pencrypt_buffer S e body out) (\<lambda>(r, e', out') w'. e' = body_prepped S e bs \<and>
    appended (drawn (body_draws bs) w) out (sealed_body S e (randomness 24 w) bs) w' out') w"
proof -
  have pend: "pending w body = bs" using p c by (simp add: pending_def)
  have u: "unat (excom_buffer_remaining body) = length bs" using remaining_pending [OF ok] pend by simp
  show ?thesis
  proof (cases "bs = []")
    case True
    then show ?thesis
      using u r by (simp add: excom_pencrypt_buffer_def excom_pencrypt_buffer2_def unat_eq_0 body_prepped_def
          body_draws_def sealed_body_def appended_refl)
  next
    case False
    then have nz: "excom_buffer_remaining body \<noteq> 0" using u by auto
    show ?thesis
      unfolding excom_pencrypt_buffer_def
      by (rule wp_mono [OF pencrypt_ready [OF S E r ok sep nz, where data = bs]])
         (use False u pend fit in \<open>auto simp: body_prepped_def body_draws_def sealed_body_def\<close>)
  qed
qed

section \<open>The header\<close>

lemma write_header_wp:
  assumes "ready w out" and "5 \<le> length buf" and "unat (b_used out) + 8 < 2 ^ 32"
    and "\<And>w' out'. appended w out (enc_header n i ty) w' out' \<Longrightarrow> wp (F out') Q w'"
  shows "wp (bind (lift_fault (excom_protocol_pack_uint32_t True buf n)) (\<lambda>(_, buf).
       bind (excom_buffer_cappend out (Lit buf) 4) (\<lambda>(_, out).
       bind (lift_fault (excom_protocol_pack_uint16_t True buf i)) (\<lambda>(_, buf).
       bind (excom_buffer_cappend out (Lit buf) 2) (\<lambda>(_, out).
       bind (lift_fault (excom_protocol_pack_uint16_t True buf ty)) (\<lambda>(_, buf).
       bind (excom_buffer_cappend out (Lit buf) 2) (\<lambda>(_, out). F out))))))) Q w"
proof -
  let ?b1 = "be32 n @ 0 # drop 5 buf"
  let ?b2 = "be16 i @ 0 # drop 3 ?b1"
  let ?b3 = "be16 ty @ 0 # drop 3 ?b2"
  have l: "3 \<le> length ?b1" "3 \<le> length ?b2" using assms(2) by simp_all
  have c1: "wp (excom_buffer_cappend out (Lit ?b1) 4) (\<lambda>(r, b') w'. r = 0 \<and> appended w out (be32 n) w' b') w"
    using assms(3) by (intro cappend_prefix_ready [OF assms(1)]) simp_all
  show ?thesis
    unfolding pack_u32_run pack_u16_run if_P [OF assms(2)] if_True wp_bind wp_lift_Inr prod.case if_P [OF l(1)] if_P [OF l(2)]
  proof (rule wp_mono [OF c1], clarsimp, goal_cases)
    case (1 o1 w1)
    have r1: "ready w1 o1" and u1: "unat (b_used o1) = unat (b_used out) + 4" using 1 by (simp_all add: appended_def)
    show ?case
    proof (rule wp_mono [OF cappend_prefix_ready [OF r1 refl, where bs = "be16 i"]], goal_cases)
      case (4 x w2)
      then obtain o2 where o2: "x = (0, o2)" "appended w1 o1 (be16 i) w2 o2" by auto
      have r2: "ready w2 o2" and u2: "unat (b_used o2) = unat (b_used o1) + 2" using o2(2) by (simp_all add: appended_def)
      show ?case
        unfolding o2(1) prod.case wp_bind wp_lift_Inr
      proof (rule wp_mono [OF cappend_prefix_ready [OF r2 refl, where bs = "be16 ty"]], goal_cases)
        case (4 y w3)
        then obtain o3 where o3: "y = (0, o3)" "appended w2 o2 (be16 ty) w3 o3" by auto
        have "appended w out (enc_header n i ty) w3 o3"
          using appended_trans [OF appended_trans [OF 1 o2(2)] o3(2)] by (simp add: enc_header_eq)
        then show ?case unfolding o3(1) prod.case by (rule assms(4))
      qed (use u1 u2 assms(3) in simp_all)
    qed (use u1 assms(3) in simp_all)
  qed
qed


section \<open>Writing a packet\<close>

definition sane :: "world \<Rightarrow> bool" where
  "sane w \<longleftrightarrow> little w \<and> 1 \<le> slack w"

definition payload :: "sodium \<Rightarrow> encrypt option \<Rightarrow> world \<Rightarrow> byte list \<Rightarrow> byte list" where
  "payload S enc w body =
     (if encrypting enc then sealed_body S (the enc) (randomness 24 (drawn (body_draws body) w)) body else body)"

definition payload_draws :: "encrypt option \<Rightarrow> byte list \<Rightarrow> nat" where
  "payload_draws enc body = (if encrypting enc then body_draws body else 0)"

definition enc_after :: "sodium \<Rightarrow> encrypt option \<Rightarrow> byte list \<Rightarrow> encrypt option" where
  "enc_after S enc body = (if encrypting enc then Some (body_prepped S (the enc) body) else enc)"

definition crypto_ready :: "sodium \<Rightarrow> encrypt option \<Rightarrow> bool" where
  "crypto_ready S enc \<longleftrightarrow> (encrypting enc \<longrightarrow> sodium_ok S \<and> enc_ok S (the enc))"

lemma encrypting_after [simp]: "encrypting (enc_after S enc body) = encrypting enc"
  by (auto simp: enc_after_def encrypting_def split: option.splits)

lemma enc_after_twice [simp]: "enc_after S (enc_after S enc body) body = enc_after S enc body"
  by (auto simp: enc_after_def encrypting_def)

lemma length_payload_le:
  "crypto_ready S enc \<Longrightarrow> length (payload S enc w body) \<le> 56 + length body"
  by (auto simp: payload_def crypto_ready_def length_sealed_body)

text \<open>Two buffers that were made for the run are destroyed after it.\<close>

lemma destroy_two_wp:
  assumes a: "appended w1 out bs w2 out'" and r: "ready w out" and f: "mframe {} w w1" and e: "errno w1 = errno w"
    and x: "ready w1 x" "b_freeable x" "\<And>i. i \<in> bids x \<Longrightarrow> fresh w \<le> i"
    and y: "ready w1 y" "b_freeable y" "\<And>i. i \<in> bids y \<Longrightarrow> fresh w \<le> i"
    and xy: "bids x \<inter> bids y = {}"
    and clean: "\<And>i. fresh w \<le> i \<Longrightarrow> i < fresh w1 \<Longrightarrow> i \<notin> bids x \<Longrightarrow> i \<notin> bids y \<Longrightarrow> blocks w1 i = None"
    and Q: "\<And>w'. appended w out bs w' out' \<Longrightarrow> Q z w'"
  shows "wp (bind (excom_buffer_destroy x) (\<lambda>_. bind (excom_buffer_destroy y) (\<lambda>_. ret z))) Q w2"
proof -
  have s: "bstep w1 out w2 out'" using a by (simp add: appended_def)
  have below: "i < fresh w" if "i \<in> bids out" for i using ready_below [OF r that] .
  have keep: "buf_ok w2 b" "bids b \<inter> bids out = {}" if "ready w1 b" "\<And>i. i \<in> bids b \<Longrightarrow> fresh w \<le> i" for b
  proof -
    show d: "bids b \<inter> bids out = {}" using that(2) below by (meson disjoint_iff leD)
    show "buf_ok w2 b"
      using that(1) by (intro buf_frame(1) [OF _ _ bstepD(2) [OF s] d]) (simp_all add: ready_def)
  qed
  have K: "fresh w \<le> i \<and> i < fresh w1" if "i \<in> bids x \<union> bids y" for i
    using that x(3) y(3) ready_below [OF x(1)] ready_below [OF y(1)] by blast
  show ?thesis
    unfolding wp_bind
  proof (rule buffer_destroy_wp [OF keep(1) [OF x(1,3)] x(2)], goal_cases)
    case (2 w3)
    note w3 = this
    have "hwf w2" using s x(1) by (auto simp: ready_def intro: bstep_hwf)
    have oky: "buf_ok w3 y"
      by (rule buf_frame(1) [OF keep(1) [OF y(1,3)] \<open>hwf w2\<close> 2(3)]) (use xy in blast)+
    show ?case
    proof (rule buffer_destroy_wp [OF oky y(2)], goal_cases)
      case (1 w4)
      have "mframe (bids x \<union> bids y) w2 w4" using w3(3) 1(3) by (rule mframe_trans) auto
      then have "appended w out bs w4 out'"
        using 1 w3 clean e by (intro appended_scratch [OF a r f K]) auto
      then show ?case by (simp add: Q)
    qed
  qed simp
qed

lemma disjoint_new:
  assumes "bstep w2 x w3 x'" and "bids x = {f}" and "fresh w2 = Suc (Suc f)"
  shows "i \<in> bids x' \<Longrightarrow> f \<le> i \<and> i \<noteq> Suc f"
  using bstepD(3) [OF assms(1), of i] assms(2,3) by auto

text \<open>What the writer seals: first into a buffer of its own, for the size, then into its output.\<close>

definition sealed_now :: "sodium \<Rightarrow> encrypt option \<Rightarrow> world \<Rightarrow> byte list \<Rightarrow> byte list" where
  "sealed_now S enc w body = (if encrypting enc then sealed_body S (the enc) (randomness 24 w) body else body)"

lemma payload_sealed_now: "payload S enc w body = sealed_now S enc (drawn (payload_draws enc body) w) body"
  by (simp add: payload_def sealed_now_def payload_draws_def)

lemma length_sealed_now:
  "crypto_ready S enc \<Longrightarrow> length (sealed_now S enc w body) = length (payload S enc w' body)"
  by (auto simp: payload_def sealed_now_def crypto_ready_def length_sealed_body)

lemma seal_scratch_wp:
  assumes cr: "crypto_ready S enc" and a: "ready w a" "contents w a = body" "b_pos a = 0"
    and b: "ready w b" "b_used b = 0" and ab: "bids a \<inter> bids b = {}" and sz: "sz = of_nat (length body)"
    and fit: "56 + length body < 2 ^ 32"
  shows "wp (if encrypting enc then
           bind (excom_pencrypt_buffer S (the enc) a b) (\<lambda>(_, e, body2). ret (Some e, body2, ucast (b_used body2)))
         else ret (enc, b, sz)) (\<lambda>(enc1, b1, sz1) w'. enc1 = enc_after S enc body \<and>
           sz1 = (of_nat (length (sealed_now S enc w body)) :: u32) \<and>
           appended (drawn (payload_draws enc body) w) b (if encrypting enc then sealed_now S enc w body else []) w' b1) w"
proof (cases "encrypting enc")
  case True
  then have c: "sodium_ok S" "enc_ok S (the enc)" using cr by (simp_all add: crypto_ready_def)
  have "ucast (b_used b1) = (of_nat (length (sealed_now S enc w body)) :: u32)"
    if "appended v b (sealed_now S enc w body) w' b1" for v w' b1
    using that b(2) by (simp add: appended_def) (metis of_nat_unat)
  with pencrypt_body_ready [OF c b(1) _ a(3,2) ab] show ?thesis
    using True a(1) b(2) fit
    by (auto simp: ready_def sealed_now_def enc_after_def payload_draws_def elim!: wp_mono)
next
  case False
  then show ?thesis using b(1) sz by (simp add: sealed_now_def enc_after_def payload_draws_def appended_refl)
qed

lemma seal_out_wp:
  assumes cr: "crypto_ready S enc" and a: "ready w a" "contents w a = body" "b_pos a = 0"
    and out: "ready w out" and ao: "bids a \<inter> bids out = {}"
    and fit: "unat (b_used out) + 56 + length body < 2 ^ 32"
  shows "wp (if encrypting (enc_after S enc body) then
           bind (excom_pencrypt_buffer S (the (enc_after S enc body)) a out) (\<lambda>(_, e, out). ret (Some e, out))
         else bind (excom_buffer_bappend out a) (\<lambda>(_, out). ret (enc_after S enc body, out)))
           (\<lambda>(enc2, out2) w'. enc2 = enc_after S enc body \<and>
             appended (drawn (payload_draws enc body) w) out (sealed_now S enc w body) w' out2) w"
proof (cases "encrypting enc")
  case True
  then have c: "sodium_ok S" "enc_ok S (the (enc_after S enc body))"
    using cr by (simp_all add: crypto_ready_def enc_after_def)
  moreover have "encrypting (Some (body_prepped S (the enc) body))"
    using True encrypting_after [of S enc body] by (simp add: enc_after_def)
  ultimately show ?thesis
    using pencrypt_body_ready [OF c out _ a(3,2) ao] True a(1) fit
    by (auto simp: ready_def sealed_now_def enc_after_def payload_draws_def elim!: wp_mono)
next
  case False
  have oka: "buf_ok w a" using a(1) by (simp add: ready_def)
  have ua: "unat (b_used a) = length body" using length_contents [OF oka] a(2) by simp
  have "reads w (b_buf a) (unat (b_used a)) body"
    using pending_reads [OF oka] a ua by (cases "b_buf a") (simp_all add: pending_def)
  from bappend2_ready [OF out this ao] show ?thesis
    using False fit ua
    by (auto simp: excom_buffer_bappend_def sealed_now_def enc_after_def payload_draws_def elim!: wp_mono)
qed

text \<open>
  Halfway through the writer: the body is in a buffer \<open>a\<close> of its own, and \<open>b\<close> has been used to find its sealed size.
\<close>

definition staged :: "nat \<Rightarrow> byte list \<Rightarrow> world \<Rightarrow> world \<Rightarrow> buffer \<Rightarrow> buffer \<Rightarrow> bool" where
  "staged k body w w' a b \<longleftrightarrow> mframe {} (drawn k w) w' \<and> errno w' = errno w \<and> ready w' a \<and> ready w' b \<and>
     contents w' a = body \<and> b_pos a = 0 \<and> b_freeable a \<and> b_freeable b \<and> bids a \<inter> bids b = {} \<and>
     (\<forall>i \<in> bids a \<union> bids b. fresh w \<le> i) \<and> (\<forall>i. fresh w \<le> i \<longrightarrow> i \<notin> bids a \<longrightarrow> i \<notin> bids b \<longrightarrow> blocks w' i = None)"

lemma stagedI:
  assumes a: "bstep w2 (new_buffer (fresh w)) w3 a" "ready w3 a" "contents w3 a = body" "b_pos a = 0" "errno w3 = errno w"
    and w2: "mframe {} w w2" "fresh w2 = Suc (Suc (fresh w))"
    and b: "bstep (drawn k w3) (new_buffer (Suc (fresh w))) w4 b" "ready w4 b" "errno w4 = errno w3"
  shows "staged k body w w4 a b"
proof -
  let ?f = "fresh w"
  have f23: "mframe {?f} w2 w3" using bstepD(2) [OF a(1)] by simp
  have f3: "mframe {} w w3" using w2(1) f23 by (rule mframe_trans) auto
  have f34: "mframe {Suc ?f} (drawn k w3) w4" using bstepD(2) [OF b(1)] by simp
  have f4: "mframe {} (drawn k w) w4" using mframe_drawn [OF f3] f34 by (rule mframe_trans) auto
  have na: "?f \<le> i \<and> i \<noteq> Suc ?f" if "i \<in> bids a" for i by (rule disjoint_new [OF a(1) _ w2(2) that]) simp
  have nb: "i = Suc ?f \<or> fresh w3 \<le> i" if "i \<in> bids b" for i using bstepD(3) [OF b(1) that] by simp
  have f3le: "Suc (Suc ?f) \<le> fresh w3" using mframe_fresh [OF f23] w2(2) by simp
  have ra4: "ready w4 a" by (rule ready_frame [OF _ f34]) (use a(2) na in auto)
  have ca: "contents w4 a = body" using buf_frame(2) [OF _ _ f34, of a] a(2,3) na by (auto simp: ready_def)
  have ab: "bids a \<inter> bids b = {}" using na nb ready_below [OF a(2)] by (meson disjoint_iff leD)
  have ids: "?f \<le> i" if "i \<in> bids a \<union> bids b" for i
  proof (cases "i \<in> bids a")
    case False
    then have "i = Suc ?f \<or> fresh w3 \<le> i" using that nb by blast
    then show ?thesis using f3le by linarith
  qed (use na in blast)
  have clean: "blocks w4 i = None" if "?f \<le> i" "i \<notin> bids a" "i \<notin> bids b" for i
  proof (cases "fresh w3 \<le> i \<or> i = Suc ?f")
    case True
    then show ?thesis using bstepD(4) [OF b(1) _ that(3)] by auto
  next
    case False
    then have "blocks w4 i = blocks w3 i" using mframe_blocks [OF f34, of i] by simp
    moreover have "fresh w2 \<le> i \<or> i \<in> bids (new_buffer ?f)" using False that(1) w2(2) by auto
    ultimately show ?thesis using bstepD(4) [OF a(1) _ that(2)] by simp
  qed
  show ?thesis
    unfolding staged_def
    using f4 a(4,5) b(2,3) ra4 ca ab ids clean bstepD(6) [OF a(1)] bstepD(6) [OF b(1)] by simp
qed

text \<open>The first half of the writer.\<close>

lemma stage_wp:
  assumes h: "hwf w" "plenty w" and l5: "5 \<le> length buf0"
    and dv: "data_val w data vs" and fo: "fields_ok fs vs" and old: "\<forall>i \<in> data_ids data. i < fresh w"
    and cr: "crypto_ready S enc" and body: "body = enc_fields vs" and fit: "64 + length body < 2 ^ 32"
    and G: "\<And>buf a b w'. 5 \<le> length buf \<Longrightarrow> staged (payload_draws enc body) body w w' a b \<Longrightarrow>
      wp (G buf a (enc_after S enc body) b (of_nat (length (payload S enc w body)))) Q w'"
  shows "wp (bind (excom_buffer_init raw_buffer 32) (\<lambda>(_, body). bind (excom_buffer_init raw_buffer 32) (\<lambda>(_, body2).
    bind (write_fields True fs data buf0 body 0) (\<lambda>(buf, body, size).
    bind (if encrypting enc then
            bind (excom_pencrypt_buffer S (the enc) body body2) (\<lambda>(_, e, body2). ret (Some e, body2, ucast (b_used body2)))
          else ret (enc, body2, size)) (\<lambda>(enc, body2, size). G buf body enc body2 size))))) Q w"
proof (rule two_buffers_wp [OF h], goal_cases)
  case (1 w2)
  note w2 = this
  let ?a = "new_buffer (fresh w)" and ?b = "new_buffer (Suc (fresh w))"
  have dv2: "data_val w2 data vs" using dv w2(3) h(1) by (rule data_val_frame) simp
  have ap2: "\<forall>i \<in> data_ids data. i < fresh w2 \<and> i \<notin> bids ?a" using old w2(5) by auto
  show ?case
    unfolding wp_bind [of "write_fields _ _ _ _ _ _"]
  proof (rule wp_mono [OF write_fields_ready [OF w2(1) dv2 fo l5 ap2]], goal_cases)
    case 1
    then show ?case using fit body by simp
  next
    case (2 x w3)
    obtain buf a sz where x: "x = (buf, a, sz)" by (cases x)
    have w3: "length buf = length buf0" "appended w2 ?a body w3 a" "sz = of_nat (length body)"
      using 2 body unfolding x by auto
    have a: "bstep w2 ?a w3 a" "ready w3 a" "contents w3 a = body" "b_pos a = 0" "errno w3 = errno w"
      using w3(2) w2(4) by (simp_all add: appended_def)
    have f23: "mframe {fresh w} w2 w3" using bstepD(2) [OF a(1)] by simp
    have rb3: "ready w3 ?b" by (rule ready_frame [OF w2(2) f23]) simp
    have ab3: "bids a \<inter> bids ?b = {}" using disjoint_new [OF a(1) _ w2(5)] by fastforce
    have "randomness 24 w3 = randomness 24 w"
      by (rule randomness_cong) (use mframe_envD(4) [OF f23] mframe_envD(4) [OF w2(3)] in simp)
    then have now3: "sealed_now S enc w3 body = sealed_now S enc w body" by (simp add: sealed_now_def)
    have used: "b_used ?b = 0" and fit3: "56 + length body < 2 ^ 32" using fit by simp_all
    note step1 = seal_scratch_wp [OF cr a(2-4) rb3 used ab3 w3(3) fit3, unfolded now3 length_sealed_now [OF cr, of w body w]]
    show ?case
      unfolding x prod.case wp_bind [of "if encrypting enc then _ else _"]
    proof (rule wp_mono [OF step1], goal_cases)
      case (1 y w4)
      obtain enc1 b sz1 where y: "y = (enc1, b, sz1)" by (cases y)
      have w4: "enc1 = enc_after S enc body" "sz1 = of_nat (length (payload S enc w body))"
          "bstep (drawn (payload_draws enc body) w3) ?b w4 b" "ready w4 b" "errno w4 = errno w3"
        using 1 unfolding y by (auto simp: appended_def)
      have "staged (payload_draws enc body) body w w4 a b" by (rule stagedI [OF a w2(3,5) w4(3-5)])
      moreover have "5 \<le> length buf" using w3(1) l5 by simp
      ultimately show ?case unfolding y prod.case w4(1,2) by (intro G)
    qed
  qed
qed

text \<open>The second half: the header, the body or its sealed form, and the end of the two buffers.\<close>

lemma emit_wp:
  assumes st: "staged (payload_draws enc body) body w w4 a b" and r: "ready w out" and l5: "5 \<le> length buf"
    and cr: "crypto_ready S enc" and pl: "pl = payload S enc w body" and fit: "unat (b_used out) + 64 + length body < 2 ^ 32"
    and Q: "\<And>w' out'. appended (drawn (2 * payload_draws enc body) w) out (enc_header sz i ty @ pl) w' out' \<Longrightarrow>
      Q (0, pk, out', enc_after S enc body) w'"
  shows "wp (bind (lift_fault (excom_protocol_pack_uint32_t True buf sz)) (\<lambda>(_, buf).
       bind (excom_buffer_cappend out (Lit buf) 4) (\<lambda>(_, out).
       bind (lift_fault (excom_protocol_pack_uint16_t True buf i)) (\<lambda>(_, buf).
       bind (excom_buffer_cappend out (Lit buf) 2) (\<lambda>(_, out).
       bind (lift_fault (excom_protocol_pack_uint16_t True buf ty)) (\<lambda>(_, buf).
       bind (excom_buffer_cappend out (Lit buf) 2) (\<lambda>(_, out).
       bind (if encrypting (enc_after S enc body) then
               bind (excom_pencrypt_buffer S (the (enc_after S enc body)) a out) (\<lambda>(_, e, out). ret (Some e, out))
             else bind (excom_buffer_bappend out a) (\<lambda>(_, out). ret (enc_after S enc body, out))) (\<lambda>(enc, out).
       bind (excom_buffer_destroy a) (\<lambda>_. bind (excom_buffer_destroy b) (\<lambda>_. ret (0, pk, out, enc))))))))))) Q w4"
proof -
  let ?k = "payload_draws enc body"
  have f4: "mframe {} (drawn ?k w) w4" and e4: "errno w4 = errno w" and ra: "ready w4 a" "contents w4 a = body" "b_pos a = 0"
    and rb: "ready w4 b" and fr: "b_freeable a" "b_freeable b" and ab: "bids a \<inter> bids b = {}"
    and ids: "\<And>i. i \<in> bids a \<Longrightarrow> fresh w \<le> i" "\<And>i. i \<in> bids b \<Longrightarrow> fresh w \<le> i"
    and clean: "\<And>i. fresh w \<le> i \<Longrightarrow> i \<notin> bids a \<Longrightarrow> i \<notin> bids b \<Longrightarrow> blocks w4 i = None"
    using st by (auto simp: staged_def)
  have r4: "ready w4 out" by (rule ready_frame [OF _ f4]) (use r in simp_all)
  have ao: "bids a \<inter> bids out = {}" using ids(1) ready_below [OF r] by (meson disjoint_iff leD)
  have fit8: "unat (b_used out) + 8 < 2 ^ 32" using fit by simp
  show ?thesis
  proof (rule write_header_wp [OF r4 l5 fit8], goal_cases)
    case (1 w5 out1)
    have s5: "bstep w4 out w5 out1" and r5: "ready w5 out1" and u5: "unat (b_used out1) = unat (b_used out) + 8"
      using 1 by (simp_all add: appended_def)
    have ra5: "ready w5 a" by (rule ready_frame [OF ra(1) bstepD(2) [OF s5] ao])
    have ca5: "contents w5 a = body" using buf_frame(2) [OF _ _ bstepD(2) [OF s5] ao] ra by (simp add: ready_def)
    have "\<forall>i \<in> bids a. i < fresh w5 \<and> i \<notin> bids out1"
      using s5 by (rule apart_step) (use ao ready_below [OF ra(1)] in auto)
    then have ao1: "bids a \<inter> bids out1 = {}" by auto
    have f5: "mframe (bids out) (drawn ?k w) w5" using f4 bstepD(2) [OF s5] by (rule mframe_trans) auto
    have "randomness 24 w5 = randomness 24 (drawn ?k w)" by (rule randomness_cong) (use mframe_envD(4) [OF f5] in simp)
    then have now5: "sealed_now S enc w5 body = pl" unfolding pl payload_sealed_now by (simp add: sealed_now_def)
    have fit5: "unat (b_used out1) + 56 + length body < 2 ^ 32" using u5 fit by simp
    note step2 = seal_out_wp [OF cr ra5 ca5 ra(3) r5 ao1 fit5, unfolded now5]
    show ?case
      unfolding wp_bind [of "if encrypting (enc_after S enc body) then _ else _"]
    proof (rule wp_mono [OF step2], goal_cases)
      case (1 z w6)
      obtain enc2 out2 where z: "z = (enc2, out2)" by (cases z)
      have w6: "enc2 = enc_after S enc body" "appended (drawn ?k w5) out1 pl w6 out2" using 1 unfolding z by auto
      have all: "appended (drawn ?k w4) out (enc_header sz i ty @ pl) w6 out2"
        using appended_drawn [OF \<open>appended w4 out _ w5 out1\<close>] w6(2) by (rule appended_trans)
      have base: "mframe {} (drawn (2 * ?k) w) (drawn ?k w4)" using mframe_drawn [OF f4, of ?k] by (simp add: mult_2)
      show ?case
        unfolding z prod.case w6(1) by (rule destroy_two_wp [OF all _ base]) (use r ra rb fr ids ab clean e4 Q in auto)
    qed
  qed
qed

lemma write_packet_ready:
  assumes sane: "sane w" and r: "ready w out" and ty: "packet_fields (pk_type pk) = Some fs"
    and dv: "data_val w (pk_data pk) vs" and fo: "fields_ok fs vs" and old: "\<forall>i \<in> data_ids (pk_data pk). i < fresh w"
    and cr: "crypto_ready S enc" and body: "body = enc_fields vs"
    and pl: "pl = payload S enc w body"
    and fit: "unat (b_used out) + 64 + length body < 2 ^ 32"
  shows "wp (excom_protocol_write_packet S pk out enc) (\<lambda>(r, pk', out', enc') w'. r = 0 \<and>
    enc' = enc_after S enc body \<and> pk' = pk\<lparr>pk_size := of_nat (length pl)\<rparr> \<and>
    appended (drawn (2 * payload_draws enc body) w) out
      (enc_header (of_nat (length pl)) (pk_id pk) (pk_type pk) @ pl) w' out') w"
proof -
  have t0: "pk_type pk \<noteq> 0" using ty by auto
  have h: "hwf w" "plenty w" and le: "little w = True" and sl: "1 \<le> slack w"
    using r sane by (simp_all add: ready_def sane_def)
  have l5: "5 \<le> length (replicate (4 + slack w) (0::byte))" using sl by simp
  have fit0: "64 + length body < 2 ^ 32" using fit by simp
  show ?thesis
    unfolding excom_protocol_write_packet_def wp_bind [of "asks _"] wp_asks prod.case if_not_P [OF t0] ty option.case le
  proof (rule stage_wp [OF h l5 dv fo old cr body fit0], goal_cases)
    case (1 buf a b w')
    show ?case by (rule emit_wp [OF 1(2) r 1(1) cr pl fit]) (simp add: pl)
  qed
qed


section \<open>Reading the fields\<close>

lemma ptr_add_add [simp]: "ptr_add (ptr_add p k) m = ptr_add p (k + m)"
  by (cases p) (simp_all add: add.commute add.left_commute)

lemma ptr_add_0 [simp]: "ptr_add p 0 = p"
  by (cases p) simp_all

lemma reads_offset:
  assumes "reads w p n bs" and "k + m \<le> n"
  shows "reads w (ptr_add p k) m (take m (drop k bs))"
proof (cases "m = 0")
  case False
  then have n: "0 < n" using assms(2) by simp
  show ?thesis
  proof (cases p)
    case Null
    then show ?thesis using assms(1) n by (simp add: reads_Null)
  next
    case (Ptr i j)
    then obtain xs where "blocks w i = Some xs" "j + n \<le> length xs" "bs = take n (drop j xs)"
      using assms(1) n by (auto simp: reads_Ptr)
    then show ?thesis
      using Ptr False assms(2) by (auto simp: reads_Ptr drop_take ac_simps min_def)
  next
    case (Lit xs)
    then have "bs = take n xs \<and> n \<le> length xs"
      using assms(1) n by (auto simp: reads_def load_def split: if_splits)
    then show ?thesis
      using Lit assms(2) by (auto simp: drop_take min_def)
  qed
qed simp

lemma unpack_at_wp:
  assumes "reads w p n bs" and "0 < n" and "\<And>r. unpack (bs @ r) = Inr x" and "Q x w"
  shows "wp (unpack_at unpack p) Q w"
  unfolding unpack_at_def wp_bind
  by (rule peek_wp [OF assms(1,2)]) (simp add: assms(3,4))

lemma unpack_at_run:
  assumes "reads w p n bs" and "0 < n" and "\<And>r. unpack (bs @ r) = Inr x"
  shows "unpack_at unpack p w = Inr (x, w)"
proof -
  obtain r where "peek p w = Inr (bs @ r, w)" using peek_reads [OF assms(1,2)] by blast
  then show ?thesis by (simp add: unpack_at_def bind_Inr assms(3) lift_fault_def)
qed

text \<open>What a run that only takes new blocks leaves: the values and nothing else.\<close>

definition took :: "world \<Rightarrow> world \<Rightarrow> fval list \<Rightarrow> bool" where
  "took w w' data \<longleftrightarrow> mframe {} w w' \<and> hwf w' \<and> plenty w' \<and>
     (\<forall>i \<in> data_ids data. fresh w \<le> i \<and> i < fresh w') \<and>
     (\<forall>i. fresh w \<le> i \<longrightarrow> i \<notin> data_ids data \<longrightarrow> blocks w' i = None)"

lemma tookD:
  assumes "took w w' data"
  shows "mframe {} w w'" and "hwf w'" and "plenty w'" and "i \<in> data_ids data \<Longrightarrow> fresh w \<le> i"
    and "i \<in> data_ids data \<Longrightarrow> i < fresh w'" and "fresh w \<le> i \<Longrightarrow> i \<notin> data_ids data \<Longrightarrow> blocks w' i = None"
  using assms unfolding took_def by blast+

lemma took_nil: "hwf w \<Longrightarrow> plenty w \<Longrightarrow> took w w []"
  by (simp add: took_def hwf_def)

lemma took_cons:
  assumes "took w w1 [v]" and "took w1 w2 vs"
  shows "took w w2 (v # vs)"
  unfolding took_def
proof (intro conjI allI impI ballI)
  have fr: "fresh w \<le> fresh w1" "fresh w1 \<le> fresh w2"
    using tookD(1) [OF assms(1)] tookD(1) [OF assms(2)] by (simp_all add: mframe_fresh)
  show "mframe {} w w2" using tookD(1) [OF assms(1)] tookD(1) [OF assms(2)] by (rule mframe_trans) auto
  show "hwf w2" "plenty w2" using assms(2) by (simp_all add: took_def)
  fix i
  {
    assume "i \<in> data_ids (v # vs)"
    then consider "i \<in> data_ids [v]" | "i \<in> data_ids vs" by auto
    then show "fresh w \<le> i" "i < fresh w2"
      using tookD(4,5) [OF assms(1), of i] tookD(4,5) [OF assms(2), of i] fr
      by (cases; (blast intro: le_trans less_le_trans))+
  }
  assume "fresh w \<le> i" "i \<notin> data_ids (v # vs)"
  then show "blocks w2 i = None"
    using tookD(6) [OF assms(1), of i] tookD(6) [OF assms(2), of i] mframe_blocks [OF tookD(1) [OF assms(2)], of i]
    by (cases "fresh w1 \<le> i") (simp_all add: not_le)
qed

lemma unat_of_int_u32 [simp]: "(of_int 4 :: u32) = 4" "(of_int 2 :: u32) = 2" "(of_int 1 :: u32) = 1"
  by simp_all

lemma unat_plus_u32:
  fixes a b :: u32
  assumes "unat a + unat b < 2 ^ 32"
  shows "unat (a + b) = unat a + unat b"
  using assms by (simp add: unat_word_ariths)

text \<open>One field of a packet in \<open>pos\<close>, which holds \<open>n\<close> bytes of which \<open>pre\<close> have been read.\<close>

lemma read_string_wp:
  assumes h: "hwf w" "plenty w" and cur: "unat cur + 4 + length bs \<le> n" "n < 2 ^ 32"
    and r4: "reads w (ptr_add pos (unat cur)) 4 (be32 (of_nat (length bs)))"
    and rs: "reads w (ptr_add pos (unat cur + 4)) (length bs) bs"
    and K: "\<And>s cur1 w1. took w w1 [SVal s] \<Longrightarrow> str_val w1 s bs \<Longrightarrow> unat cur1 = unat cur + 4 + length bs \<Longrightarrow> Q (SVal s, cur1) w1"
  shows "wp (bind (unpack_at (excom_protocol_unpack_uint32_t True) (ptr_add pos (unat cur))) (\<lambda>(k, str_size).
     let cur = cur + of_int k in
     bind (excom_string_dupfill excom_string_init str_size (ptr_add pos (unat cur))) (\<lambda>(_, s). ret (SVal s, cur + str_size)))) Q w"
proof -
  let ?n = "of_nat (length bs) :: u32"
  have un: "unat ?n = length bs" using cur by (intro unat_of_nat_u32) simp
  have cur4: "unat (cur + 4) = unat cur + 4" using cur by (subst unat_plus_u32) simp_all
  have rs': "reads w (ptr_add pos (unat (cur + 4))) (unat ?n) bs" using rs un cur4 by simp
  have nmax: "?n \<noteq> 0xFFFFFFFF" using un cur by auto
  show ?thesis
    unfolding wp_bind
  proof (rule unpack_at_wp [OF r4, where x = "(4, ?n)"], goal_cases)
    case (2 r)
    show ?case by (simp add: unpack_u32_run)
  next
    case 3
    show ?case
      unfolding prod.case Let_def unat_of_int_u32 wp_bind
    proof (rule wp_mono [OF dupfill_ready [OF h rs' nmax]], goal_cases)
      case (1 x w1)
      obtain c s where x: "x = (c, s)" by (cases x)
      have "took w w1 [SVal s]" "str_val w1 s bs" using 1 unfolding x by (auto simp: took_def)
      moreover have "unat (cur + 4 + ?n) = unat cur + 4 + length bs"
        using cur4 un cur by (subst unat_plus_u32) simp_all
      ultimately show ?case unfolding x by (simp add: K)
    qed
  qed simp
qed

lemma read_byte_wp:
  assumes h: "hwf w" "plenty w" and cur: "unat (cur :: u32) + 1 \<le> n" "n < 2 ^ 32" and r1: "reads w (ptr_add pos (unat cur)) 1 [b]"
    and K: "\<And>cur1. took w w [NVal b] \<Longrightarrow> unat cur1 = unat cur + 1 \<Longrightarrow> Q (NVal b, cur1) w"
  shows "wp (bind (unpack_at excom_protocol_unpack_uint8_t (ptr_add pos (unat cur))) (\<lambda>(k, n). ret (NVal n, cur + of_int k))) Q w"
  unfolding wp_bind
proof (rule unpack_at_wp [OF r1, where x = "(1, b)"], goal_cases)
  case (2 r)
  show ?case by (simp add: unpack_u8_run)
next
  case 3
  have "unat (cur + 1) = unat cur + 1" using cur by (subst unat_plus_u32) simp_all
  then show ?case
    unfolding prod.case unat_of_int_u32
    using K [of "cur + 1"] took_nil [OF h] by (auto simp: took_def hwf_def)
qed simp

lemma read_fields_ready:
  assumes "hwf w" and "plenty w" and "reads w pos n (pre @ enc_fields vs @ post)" and "n < 2 ^ 32"
    and "unat cur = length pre" and "fields_ok fs vs"
  shows "wp (read_fields True fs pos cur) (\<lambda>(data, cur') w'. data_val w' data vs \<and> took w w' data \<and>
    unat cur' = length pre + length (enc_fields vs)) w"
  using assms
proof (induction fs arbitrary: w pre vs cur)
  case Nil
  then show ?case by (simp add: took_nil)
next
  case (Cons f fs)
  obtain v vs' where vs: "vs = v # vs'" "field_ok f v" "fields_ok fs vs'"
    using Cons.prems(6) by (cases vs) auto
  let ?all = "pre @ enc_val v @ enc_fields vs' @ post"
  have rd: "reads w pos n ?all" using Cons.prems(3) vs(1) by simp
  have len: "length pre + length (enc_val v) + length (enc_fields vs') + length post = n"
    using reads_length [OF rd] by simp
  have sub: "reads w (ptr_add pos (length pre + k)) m (take m (drop k (enc_val v)))"
    if "k + m \<le> length (enc_val v)" for k m
    using reads_offset [OF rd, of "length pre + k" m] that len by simp
  have rest: "wp (bind (read_fields True fs pos cur1) (\<lambda>(ds, cur). ret (d # ds, cur)))
      (\<lambda>(data, cur') w'. data_val w' data vs \<and> took w w' data \<and> unat cur' = length pre + length (enc_fields vs)) w1"
    if d: "fv_val w1 d v" "took w w1 [d]" "unat cur1 = length pre + length (enc_val v)" for d cur1 w1
  proof -
    have "reads w1 pos n ((pre @ enc_val v) @ enc_fields vs' @ post)"
      using reads_mframe [OF rd tookD(1) [OF d(2)] Cons.prems(1)] by simp
    from Cons.IH [OF tookD(2,3) [OF d(2)] this Cons.prems(4) _ vs(3)] d(3)
    have "wp (read_fields True fs pos cur1) (\<lambda>(data, cur') w'. data_val w' data vs' \<and> took w1 w' data \<and>
        unat cur' = length (pre @ enc_val v) + length (enc_fields vs')) w1" by simp
    then show ?thesis
      unfolding wp_bind
    proof (rule wp_mono, clarsimp, goal_cases)
      case (1 data cur2 w2)
      have "fv_val w2 d v"
        using d(1) tookD(1) [OF \<open>took w1 w2 data\<close>] tookD(2) [OF d(2)] by (rule fv_val_frame) simp
      then show ?case using 1 took_cons [OF d(2)] vs(1) by simp
    qed
  qed
  show ?case
  proof (cases f)
    case (FString name)
    then obtain bs where v: "v = WStr bs" using vs(2) by (auto split: wval.splits)
    have cur4: "unat cur + 4 + length bs \<le> n" using len Cons.prems(5) v by simp
    have r4: "reads w (ptr_add pos (unat cur)) 4 (be32 (of_nat (length bs)))"
      and rs: "reads w (ptr_add pos (unat cur + 4)) (length bs) bs"
      using sub [of 0 4] sub [of 4 "length bs"] v Cons.prems(5) by simp_all
    show ?thesis
      unfolding FString read_fields.simps field.case wp_bind [of "bind _ _"]
      by (rule read_string_wp [OF Cons.prems(1,2) cur4 Cons.prems(4) r4 rs], unfold prod.case, rule rest)
        (simp_all add: v Cons.prems(5))
  next
    case (FNumber8 name)
    then obtain b where v: "v = WNum b" using vs(2) by (auto split: wval.splits)
    have r1: "reads w (ptr_add pos (unat cur)) 1 [b]" and cur1: "unat cur + 1 \<le> n"
      using sub [of 0 1] len v Cons.prems(5) by simp_all
    show ?thesis
      unfolding FNumber8 read_fields.simps field.case wp_bind [of "bind _ _"]
      by (rule read_byte_wp [OF Cons.prems(1,2) cur1 Cons.prems(4) r1], unfold prod.case, rule rest)
        (simp_all add: v Cons.prems(5))
  qed
qed


section \<open>Reading a packet\<close>

text \<open>The part of the reader after the header: fetching the body, then its fields.\<close>

definition read_tail :: "sodium \<Rightarrow> u32 \<Rightarrow> u16 \<Rightarrow> packet \<Rightarrow> buffer \<Rightarrow> buffer \<Rightarrow> encrypt option \<Rightarrow>
    (int \<times> packet \<times> buffer \<times> encrypt option) cmd" where
  "read_tail S sz ty pk inb buf enc =
     bind (if encrypting enc then
             bind (excom_pdecrypt_buffer2 S (the enc) inb buf (ucast sz)) (\<lambda>(_, e, inb, buf).
             ret (Some e, inb, buf))
           else
             bind (excom_buffer_bappend_remaining2 buf inb (ucast sz)) (\<lambda>(_, buf).
             ret (enc, inb, buf))) (\<lambda>(enc, inb, buf).
     if ty = packet_INVALID then ret (1, pk, inb, enc)
     else
       bind (case packet_fields ty of
           None \<Rightarrow> ret (pk_data pk, 0)
         | Some fs \<Rightarrow> read_fields True fs (ptr_add (b_buf buf) (unat (b_pos buf))) 0) (\<lambda>(data, cur).
       bind (excom_buffer_destroy buf) (\<lambda>_.
       ret (0, pk\<lparr>pk_data := data\<rparr>, inb\<lparr>b_pos := b_pos inb + ucast cur\<rparr>, enc))))"

lemma header_reads:
  assumes "buf_ok w inb" and "pending w inb = enc_header n i ty @ rest"
  shows "reads w (ptr_add (b_buf inb) (unat (b_pos inb))) 4 (be32 n)"
    and "reads w (ptr_add (b_buf inb) (unat (b_pos inb) + 4)) 2 (be16 i)"
    and "reads w (ptr_add (b_buf inb) (unat (b_pos inb) + 6)) 2 (be16 ty)"
proof -
  have l: "length (pending w inb) = 8 + length rest" unfolding assms(2) by simp
  have rd: "reads w (ptr_add (ptr_add (b_buf inb) (unat (b_pos inb))) k) m
      (take m (drop k (be32 n @ be16 i @ be16 ty @ rest)))" if "k + m \<le> 8" for k m
    using reads_offset [OF pending_reads [OF assms(1)], of k m] that l assms(2) by (simp add: enc_header_eq)
  show "reads w (ptr_add (b_buf inb) (unat (b_pos inb))) 4 (be32 n)" using rd [of 0 4] by simp
  show "reads w (ptr_add (b_buf inb) (unat (b_pos inb) + 4)) 2 (be16 i)" using rd [of 4 2] by simp
  show "reads w (ptr_add (b_buf inb) (unat (b_pos inb) + 6)) 2 (be16 ty)" using rd [of 6 2] by simp
qed

lemma read_header_run:
  assumes "buf_ok w inb" and "hwf w" and "plenty w" and "little w"
    and "pending w inb = enc_header n i ty @ rest"
  obtains w' where "ready w' (new_buffer (fresh w))" and "mframe {} w w'" and "fresh w' = Suc (fresh w)"
    and "errno w' = errno w" and "blocks w' (fresh w) = Some (map (junk w (fresh w)) [0..<32])"
    and "excom_protocol_read_packet S pk inb enc w =
      read_tail S n ty (pk\<lparr>pk_size := n, pk_id := i, pk_type := ty\<rparr>) (inb\<lparr>b_pos := b_pos inb + 8\<rparr>)
        (new_buffer (fresh w)) enc w'"
proof -
  note rd = header_reads [OF assms(1,5)]
  have le: "asks little w = Inr (True, w)" using assms(4) by (simp add: asks_def)
  have nums: "unat (4 :: u32) = 4" "unat (6 :: u32) = 6" "(4 :: u32) + 2 = 6" "(6 :: u32) + 2 = 8"
    "ucast (8 :: u32) = (8 :: size_t)" by simp_all
  let ?p = "ptr_add (b_buf inb) (unat (b_pos inb))"
  have u1: "unpack_at (excom_protocol_unpack_uint32_t True) ?p w = Inr ((4, n), w)"
    using rd(1) by (rule unpack_at_run) (simp_all add: unpack_u32_run)
  have u2: "unpack_at (excom_protocol_unpack_uint16_t True) (ptr_add (b_buf inb) (unat (b_pos inb) + 4)) w = Inr ((2, i), w)"
    using rd(2) by (rule unpack_at_run) (simp_all add: unpack_u16_run)
  have u3: "unpack_at (excom_protocol_unpack_uint16_t True) (ptr_add (b_buf inb) (unat (b_pos inb) + 6)) w = Inr ((2, ty), w)"
    using rd(3) by (rule unpack_at_run) (simp_all add: unpack_u16_run)
  obtain r b w' where run: "excom_buffer_init raw_buffer 32 w = Inr ((r, b), w')" "b = new_buffer (fresh w)"
      "ready w' b" "mframe {} w w'" "errno w' = errno w" "fresh w' = Suc (fresh w)"
      "blocks w' (fresh w) = Some (map (junk w (fresh w)) [0..<32])"
    using init_new_wp [OF assms(2,3)] by (auto simp: wp_iff)
  have "excom_protocol_read_packet S pk inb enc w =
      read_tail S n ty (pk\<lparr>pk_size := n, pk_id := i, pk_type := ty\<rparr>) (inb\<lparr>b_pos := b_pos inb + 8\<rparr>)
        (new_buffer (fresh w)) enc w'"
    unfolding read_tail_def
    by (simp add: excom_protocol_read_packet_def Let_def bind_run le u1 u2 u3 run(1,2) nums cong: if_cong)
  then show ?thesis using run by (intro that [of w']) simp_all
qed

lemma read_header_wp:
  assumes "buf_ok w inb" and "hwf w" and "plenty w" and "little w"
    and "pending w inb = enc_header n i ty @ rest"
    and "\<And>w'. ready w' (new_buffer (fresh w)) \<Longrightarrow> mframe {} w w' \<Longrightarrow> fresh w' = Suc (fresh w) \<Longrightarrow> errno w' = errno w \<Longrightarrow>
      blocks w' (fresh w) = Some (map (junk w (fresh w)) [0..<32]) \<Longrightarrow>
      wp (read_tail S n ty (pk\<lparr>pk_size := n, pk_id := i, pk_type := ty\<rparr>) (inb\<lparr>b_pos := b_pos inb + 8\<rparr>)
            (new_buffer (fresh w)) enc) Q w'"
  shows "wp (excom_protocol_read_packet S pk inb enc) Q w"
proof -
  obtain w' where w': "ready w' (new_buffer (fresh w))" "mframe {} w w'" "fresh w' = Suc (fresh w)"
    "errno w' = errno w" "blocks w' (fresh w) = Some (map (junk w (fresh w)) [0..<32])"
    and run: "excom_protocol_read_packet S pk inb enc w =
      read_tail S n ty (pk\<lparr>pk_size := n, pk_id := i, pk_type := ty\<rparr>) (inb\<lparr>b_pos := b_pos inb + 8\<rparr>)
        (new_buffer (fresh w)) enc w'"
    by (rule read_header_run [OF assms(1-5)])
  show ?thesis
    using assms(6) [OF w'] by (simp add: wp_def run)
qed

text \<open>The input once the header is taken off, in the world with the new buffer.\<close>

lemma header_taken:
  assumes ok: "buf_ok w inb" "hwf w" and pend: "pending w inb = enc_header (of_nat (length body)) i ty @ body @ rest"
    and fit: "length body < 2 ^ 32" and f: "mframe {} w w1"
  defines "inb' \<equiv> inb\<lparr>b_pos := b_pos inb + 8\<rparr>" and "n \<equiv> ucast (of_nat (length body) :: u32) :: size_t"
  shows "unat n = length body" and "buf_ok w1 inb'" and "pending w1 inb' = body @ rest"
    and "reads w1 (ptr_add (b_buf inb') (unat (b_pos inb'))) (unat n) body" and "bids inb' \<inter> bids (new_buffer (fresh w)) = {}"
proof -
  have l8: "8 \<le> length (pending w inb)" unfolding pend by simp
  have adv: "buf_ok w inb'" "pending w inb' = body @ rest" "bids inb' = bids inb"
    using advance [OF ok(1) l8] pend by (simp_all add: inb'_def)
  have s0: "bids inb' \<inter> {} = {}" by simp
  show u: "unat n = length body" unfolding n_def using unat_of_nat_u32 [OF fit] by (simp only: unat_ucast_u32)
  show in1: "buf_ok w1 inb'" "pending w1 inb' = body @ rest"
    using buf_frame [OF adv(1) ok(2) f s0] adv(2) by simp_all
  show "reads w1 (ptr_add (b_buf inb') (unat (b_pos inb'))) (unat n) body"
    using reads_take [OF pending_reads [OF in1(1)], of "length body"] in1(2) u by simp
  show "bids inb' \<inter> bids (new_buffer (fresh w)) = {}" using bids_below [OF ok] adv(3) by auto
qed

text \<open>From the body in its buffer on: the fields are taken and the buffer is freed.\<close>

lemma read_body_wp:
  assumes ok: "buf_ok w buf" "b_freeable buf" "b_pos buf = 0" and h: "hwf w" "plenty w"
    and rd: "reads w (b_buf buf) n (enc_fields vs @ post)" "n < 2 ^ 32"
    and ty: "packet_fields ty = Some fs" "fields_ok fs vs"
    and Q: "\<And>data w'. data_val w' data vs \<Longrightarrow> mframe (bids buf) w w' \<Longrightarrow> hwf w' \<Longrightarrow> plenty w' \<Longrightarrow>
      (\<forall>i \<in> data_ids data. fresh w \<le> i) \<Longrightarrow>
      (\<forall>i. fresh w \<le> i \<or> i \<in> bids buf \<longrightarrow> i \<notin> data_ids data \<longrightarrow> blocks w' i = None) \<Longrightarrow>
      Q (0, pk\<lparr>pk_data := data\<rparr>, inb\<lparr>b_pos := b_pos inb + of_nat (length (enc_fields vs))\<rparr>, enc) w'"
  shows "wp (bind (case packet_fields ty of
           None \<Rightarrow> ret (pk_data pk, 0)
         | Some fs \<Rightarrow> read_fields True fs (ptr_add (b_buf buf) (unat (b_pos buf))) 0) (\<lambda>(data, cur).
       bind (excom_buffer_destroy buf) (\<lambda>_.
       ret (0, pk\<lparr>pk_data := data\<rparr>, inb\<lparr>b_pos := b_pos inb + ucast cur\<rparr>, enc)))) Q w"
  unfolding ty(1) option.case ok(3) unat_0 ptr_add_0 wp_bind
proof (rule wp_mono [OF read_fields_ready [where pre = "[]" and post = post and vs = vs, OF h _ rd(2) _ ty(2)]], goal_cases)
  case 1
  show ?case using rd(1) by simp
next
  case 2
  show ?case by simp
next
  case (3 x w1)
  obtain data cur where x: "x = (data, cur)" by (cases x)
  have r: "data_val w1 data vs" "took w w1 data" "unat cur = length (enc_fields vs)"
    using 3 unfolding x by auto
  have cur: "ucast cur = (of_nat (length (enc_fields vs)) :: size_t)"
    using r(3) by (metis of_nat_unat)
  note t = tookD [OF r(2)]
  have old: "i < fresh w" if "i \<in> bids buf" for i using bids_below [OF ok(1) h(1) that] .
  have ok1: "buf_ok w1 buf" using ok(1) h(1) t(1) by (rule buf_frame(1)) simp
  have dis: "data_ids data \<inter> bids buf = {}" using t(4) old by (meson disjoint_iff leD)
  show ?case
    unfolding x prod.case wp_bind
  proof (rule buffer_destroy_wp [OF ok1 ok(2)], goal_cases)
    case (1 w2)
    have f: "mframe (bids buf) w w2" using t(1) 1(3) by (rule mframe_trans) auto
    have "data_val w2 data vs" using r(1) 1(3) t(2) dis by (rule data_val_frame)
    moreover have "hwf w2" "plenty w2" using 1(3) t(2,3) by (simp_all add: mframe_hwf mframe_plenty)
    ultimately show ?case
      unfolding wp_ret cur using f t(4,6) 1(1) by (intro Q) auto
  qed
qed

text \<open>The effect of a successful read on the world: the strings of the packet are new, nothing else is.\<close>

definition fetched :: "world \<Rightarrow> world \<Rightarrow> fval list \<Rightarrow> wval list \<Rightarrow> bool" where
  "fetched w w' data vs \<longleftrightarrow> data_val w' data vs \<and> mframe {} w w' \<and> hwf w' \<and> plenty w' \<and>
     (\<forall>i \<in> data_ids data. fresh w \<le> i) \<and> (\<forall>i. fresh w \<le> i \<longrightarrow> i \<notin> data_ids data \<longrightarrow> blocks w' i = None)"

lemma fetchedI:
  assumes "bstep w b w1 buf" and "bids b = {f}" and "mframe {} w0 w" and "fresh w0 = f" and "fresh w = Suc f"
    and "data_val w' data vs" and "mframe (bids buf) w1 w'" and "hwf w'" and "plenty w'"
    and "\<forall>i \<in> data_ids data. fresh w1 \<le> i"
    and "\<forall>i. fresh w1 \<le> i \<or> i \<in> bids buf \<longrightarrow> i \<notin> data_ids data \<longrightarrow> blocks w' i = None"
  shows "fetched w0 w' data vs"
proof -
  note f = bstepD(2) [OF assms(1)]
  have new: "f \<le> i" if "i \<in> bids buf" for i using bstepD(3) [OF assms(1) that] assms(2,5) by auto
  have "mframe {} w0 w1" using assms(3) f by (rule mframe_trans) (use assms(2,4) in auto)
  then have m: "mframe {} w0 w'" using assms(7) by (rule mframe_trans) (use new assms(4) in fastforce)
  have "f \<le> fresh w1" using mframe_fresh [OF f] assms(5) by simp
  then have ids: "\<forall>i \<in> data_ids data. f \<le> i" using assms(10) le_trans by blast
  have bl: "blocks w' i = None" if "f \<le> i" "i \<notin> data_ids data" for i
  proof (cases "fresh w1 \<le> i \<or> i \<in> bids buf")
    case True
    then show ?thesis using assms(11) that(2) by blast
  next
    case False
    then have "blocks w' i = blocks w1 i" using mframe_blocks [OF assms(7), of i] by simp
    moreover have "fresh w \<le> i \<or> i \<in> bids b"
      unfolding assms(2,5) singleton_iff using that(1) by arith
    ultimately show ?thesis using bstepD(4) [OF assms(1), of i] False by simp
  qed
  show ?thesis
    unfolding fetched_def assms(4)
    by (intro conjI allI impI) (fact assms(6) m assms(8,9) ids bl)+
qed

lemma packet_filled:
  "pk\<lparr>pk_size := n, pk_id := i, pk_type := ty, pk_data := ds\<rparr> =
     \<lparr>pk_size = n, pk_id = i, pk_type = ty, pk_data = ds\<rparr>"
  by (cases pk) simp

lemma read_packet_plain:
  assumes ok: "buf_ok w inb" and h: "hwf w" "plenty w" "little w" and ne: "\<not> encrypting enc"
    and pend: "pending w inb = enc_header (of_nat (length body)) i ty @ body @ rest"
    and ty: "packet_fields ty = Some fs" "fields_ok fs vs" and body: "body = enc_fields vs @ post"
    and fit: "length body < 2 ^ 32"
  shows "wp (excom_protocol_read_packet S pk inb enc) (\<lambda>(r, pk', inb', enc') w'. r = 0 \<and> enc' = enc \<and>
    (\<exists>data. pk' = \<lparr>pk_size = of_nat (length body), pk_id = i, pk_type = ty, pk_data = data\<rparr> \<and> fetched w w' data vs) \<and>
    inb' = inb\<lparr>b_pos := b_pos inb + of_nat (8 + length (enc_fields vs))\<rparr>) w"
proof (rule read_header_wp [OF ok h pend], goal_cases)
  case (1 w1)
  note w1 = this
  let ?in = "inb\<lparr>b_pos := b_pos inb + 8\<rparr>" and ?b = "new_buffer (fresh w)"
  have t0: "ty \<noteq> 0" using ty(1) by auto
  note hd = header_taken [OF ok h(1) pend fit w1(2)]
  have app: "wp (excom_buffer_bappend_remaining2 ?b ?in (ucast (of_nat (length body) :: u32)))
      (\<lambda>(r, b') w'. r = 0 \<and> appended w1 ?b body w' b') w1"
    by (rule bappend_remaining2_ready [OF w1(1) hd(4,5)]) (use hd(1) fit in simp)
  show ?case
    unfolding read_tail_def if_not_P [OF ne] if_not_P [OF t0] wp_bind [of "bind (excom_buffer_bappend_remaining2 _ _ _) _"]
      wp_bind [of "excom_buffer_bappend_remaining2 _ _ _"]
  proof (rule wp_mono [OF app], goal_cases)
    case (1 x w2)
    then obtain buf where x: "x = (0, buf)" and 1: "appended w1 ?b body w2 buf" by auto
    have s: "bstep w1 ?b w2 buf" and r2: "ready w2 buf" and c2: "contents w2 buf = body" and p0: "b_pos buf = 0"
      using 1 by (simp_all add: appended_def)
    have ok2: "buf_ok w2 buf" "hwf w2" "plenty w2" using r2 by (simp_all add: ready_def)
    have fr: "b_freeable buf" using bstepD(6) [OF s] by simp
    have rb: "reads w2 (b_buf buf) (length body) (enc_fields vs @ post)"
      using pending_reads [OF ok2(1)] p0 c2 body by (simp add: pending_def)
    show ?case
      unfolding x prod.case wp_ret
    proof (rule read_body_wp [OF ok2(1) fr p0 ok2(2,3) rb fit ty], goal_cases)
      case (1 data w3)
      have "fetched w w3 data vs"
        by (rule fetchedI [OF s _ w1(2) refl w1(3) 1]) simp
      then show ?case by (auto simp: add.assoc packet_filled)
    qed
  qed
qed

text \<open>An empty body is not sealed.\<close>

lemma read_packet_bare:
  assumes ok: "buf_ok w inb" and h: "hwf w" "plenty w" "little w"
    and pend: "pending w inb = enc_header 0 i ty @ rest" and ty: "packet_fields ty = Some []"
  shows "wp (excom_protocol_read_packet S pk inb enc) (\<lambda>(r, pk', inb', enc') w'. r = 0 \<and> enc' = enc \<and>
    (\<exists>data. pk' = \<lparr>pk_size = 0, pk_id = i, pk_type = ty, pk_data = data\<rparr> \<and> fetched w w' data []) \<and>
    inb' = inb\<lparr>b_pos := b_pos inb + 8\<rparr>) w"
proof (cases "encrypting enc")
  case False
  then show ?thesis
    by (rule wp_mono [OF read_packet_plain [where body = "[]" and vs = "[]" and post = "[]", OF ok h]])
       (use pend ty in \<open>auto simp: fields_ok_def enc_fields_def\<close>)
next
  case True
  show ?thesis
  proof (rule read_header_wp [OF ok h pend], goal_cases)
    case (1 w1)
    let ?b = "new_buffer (fresh w)"
    have t0: "ty \<noteq> 0" using ty by auto
    have some: "Some (the enc) = enc" using True by (cases enc) (simp_all add: encrypting_def)
    have b: "buf_ok w1 ?b" "hwf w1" "plenty w1" using 1(1) by (simp_all add: ready_def)
    show ?case
      unfolding read_tail_def if_P [OF True] if_not_P [OF t0]
    proof (simp add: excom_pdecrypt_buffer2_def some ty, rule buffer_destroy_wp [OF b(1)], goal_cases)
      case (2 w2)
      have gone: "blocks w2 i = None" if "fresh w1 \<le> i \<or> i \<in> bids ?b" for i
        using that 2(1) b(2) by (auto simp: hwf_def)
      have "fetched w w2 [] []"
        by (rule fetchedI [OF bstep_refl [OF b(1,2)] _ 1(2) refl 1(3) _ 2(3)])
           (use gone b mframe_hwf [OF 2(3)] mframe_plenty [OF 2(3)] in \<open>simp_all add: data_val_def\<close>)
      then show ?case by (simp add: packet_filled)
    qed simp
  qed
qed

text \<open>
  Decrypting into the new buffer: what the fields are read from is the plaintext, or the bytes the block held
  before when the box does not open.
\<close>

lemma decrypt_into_new:
  assumes S: "sodium_ok S" and E: "enc_ok S e" and w1: "ready w1 (new_buffer f)" "fresh w1 = Suc f"
      "blocks w1 f = Some (map j [0..<32])"
    and ok: "buf_ok w1 inb" and sep: "bids inb \<inter> bids (new_buffer f) = {}" and n: "unat n = length (nonce @ c)"
    and pend: "pending w1 inb = (nonce @ c) @ rest" "length nonce = 24" and fit: "length (nonce @ c) < 2 ^ 31"
    and got: "got = (case box_open_afternm S c nonce (e_nm_kkey (prepped S e)) of None \<Rightarrow> map j [0..<32] | Some m \<Rightarrow> drop 32 m)"
  shows "wp (excom_pdecrypt_buffer2 S e inb (new_buffer f) n) (\<lambda>(r, e', in', buf) w2. e' = prepped S e \<and>
      in' = inb\<lparr>b_pos := b_pos inb + 24\<rparr> \<and> bstep w1 (new_buffer f) w2 buf \<and> b_pos buf = 0 \<and>
      ready w2 buf \<and> reads w2 (b_buf buf) (length got) got \<and> length got < 2 ^ 32 \<and>
      (box_open_afternm S c nonce (e_nm_kkey (prepped S e)) = None \<longrightarrow> buf = new_buffer f \<and> blocks w2 = blocks w1)) w1"
proof -
  let ?b = "new_buffer f"
  have use: "unat n \<le> length (pending w1 inb)" "take (unat n) (pending w1 inb) = nonce @ c"
    using n pend(1) by simp_all
  have "unat (b_used ?b) + unat n < 2 ^ 32" using n fit by simp
  note dec = pdecrypt_ready [OF S E w1(1) ok sep use pend(2) this]
  show ?thesis
  proof (rule wp_mono [OF dec], clarify, goal_cases)
    case (1 r e' in' buf w2)
    show ?case
    proof (cases "box_open_afternm S c nonce (e_nm_kkey (prepped S e))")
      case None
      with 1(1) have b: "buf = ?b" "blocks w2 = blocks w1" "mframe {} w1 w2" by auto
      have r2: "ready w2 ?b" by (rule ready_frame [OF w1(1) b(3)]) simp
      have "bstep w1 ?b w2 ?b"
        using r2 b(2,3) w1(1) by (auto simp: bstep_def ready_def hwf_def mframe_def w1(2))
      moreover have g: "got = map j [0..<32]" using got None by simp
      moreover have "reads w2 (Ptr f 0) (length got) got"
        using b(2) w1(3) g by (intro reads_new [where xs = "[]"]) simp_all
      ultimately show ?thesis using b(1,2) r2 None by (simp add: new_buffer_def)
    next
      case (Some m)
      with 1(1) have a: "appended (w1\<lparr>errno := 0\<rparr>) ?b (drop 32 m) w2 buf" by auto
      have g: "got = drop 32 m" using got Some by simp
      have s: "bstep w1 ?b w2 buf" using a by (simp add: appended_def bstep_def)
      have r2: "ready w2 buf" "contents w2 buf = got" "b_pos buf = 0" using a g by (simp_all add: appended_def)
      have okb: "buf_ok w2 buf" using r2(1) by (simp add: ready_def)
      have "length got < 2 ^ 32" using g box_opens [OF S Some] fit by simp
      then show ?thesis using pending_reads [OF okb] r2 s Some by (simp add: pending_def)
    qed
  qed
qed

lemma read_packet_sealed:
  assumes ok: "buf_ok w inb" and h: "hwf w" "plenty w" "little w"
    and E: "encrypting enc" "sodium_ok S" "enc_ok S (the enc)"
    and pend: "pending w inb = enc_header (of_nat (length body)) i ty @ body @ rest"
    and box: "body = nonce @ c" "length nonce = 24"
    and got: "got = (case box_open_afternm S c nonce (e_nm_kkey (prepped S (the enc))) of
                None \<Rightarrow> map (junk w (fresh w)) [0..<32] | Some m \<Rightarrow> drop 32 m)"
    and ty: "packet_fields ty = Some fs" "fields_ok fs vs" and fields: "got = enc_fields vs @ post"
    and fit: "length body < 2 ^ 31"
  shows "wp (excom_protocol_read_packet S pk inb enc) (\<lambda>(r, pk', inb', enc') w'. r = 0 \<and>
    enc' = Some (prepped S (the enc)) \<and>
    (\<exists>data. pk' = \<lparr>pk_size = of_nat (length body), pk_id = i, pk_type = ty, pk_data = data\<rparr> \<and> fetched w w' data vs) \<and>
    inb' = inb\<lparr>b_pos := b_pos inb + of_nat (32 + length (enc_fields vs))\<rparr>) w"
proof (rule read_header_wp [OF ok h pend], goal_cases)
  case (1 w1)
  note w1 = this
  have t0: "ty \<noteq> 0" using ty(1) by auto
  have fit32: "length body < 2 ^ 32" using fit by simp
  note hd = header_taken [OF ok h(1) pend fit32 w1(2), unfolded box(1)]
  note dec = decrypt_into_new [OF E(2,3) w1(1,3,5) hd(2,5,1,3) box(2) fit [unfolded box(1)] got]
  show ?case
    unfolding read_tail_def if_P [OF E(1)] if_not_P [OF t0] wp_bind [of "bind (excom_pdecrypt_buffer2 _ _ _ _ _) _"]
      wp_bind [of "excom_pdecrypt_buffer2 _ _ _ _ _"]
  proof (rule wp_mono [OF dec [folded box(1)]], goal_cases)
    case (1 x w2)
    obtain r e in' buf where x: "x = (r, e, in', buf)" by (cases x)
    have q: "e = prepped S (the enc)" "in' = inb\<lparr>b_pos := b_pos inb + 8 + 24\<rparr>" "bstep w1 (new_buffer (fresh w)) w2 buf" "b_pos buf = 0"
      "ready w2 buf" "reads w2 (b_buf buf) (length got) (enc_fields vs @ post)" "length got < 2 ^ 32"
      using 1 unfolding x fields by auto
    have ok2: "buf_ok w2 buf" "hwf w2" "plenty w2" using q(5) by (simp_all add: ready_def)
    have fr: "b_freeable buf" using bstepD(6) [OF q(3)] by simp
    show ?case
      unfolding x prod.case wp_ret
    proof (rule read_body_wp [OF ok2(1) fr q(4) ok2(2,3) q(6,7) ty], goal_cases)
      case (1 data w3)
      have "fetched w w3 data vs"
        by (rule fetchedI [OF q(3) _ w1(2) refl w1(3) 1]) simp
      then show ?case using q(1,2) by (auto simp: packet_filled add.assoc)
    qed
  qed
qed

end
