(* ===== verification/Handlers.thy ===== *)
theory Handlers
  imports Protocol
begin

text \<open>
  The packet handlers of the server, \<open>src/excom-server/handle_packets.ci\<close>, and of the client,
  \<open>src/excom-client/handle_packets.ci\<close>. Both include files define one function per packet with
  the macro \<open>handle\<close>, over the macros \<open>send\<close>, \<open>error\<close>, \<open>reject\<close> and \<open>require\<close>; the record
  \<open>conn\<close> is what these macros use of the connection (\<open>data->state\<close>, \<open>data->keys\<close>,
  \<open>data->buf.out\<close>), and the records of the two programs extend it.

  \<open>server_spec\<close> and \<open>client_spec\<close> are the handshake protocol the handlers implement: the next
  state and the replies. The rules at the end show that each handler refines its specification.
\<close>

section \<open>Connections\<close>

text \<open>The enumeration \<open>excom_protocol_state_t\<close>.\<close>

datatype protocol_state =
    STATE_PREHANDSHAKE | STATE_PREENCRYPT | STATE_ENCRYPT | STATE_BODY | STATE_PRECLOSE | STATE_INVALID

text \<open>The values of the constants, \<open>0u\<close> and those after it, and the order they give the states.\<close>

primrec state_value :: "protocol_state \<Rightarrow> nat" where
  "state_value STATE_PREHANDSHAKE = 0"
| "state_value STATE_PREENCRYPT = 1"
| "state_value STATE_ENCRYPT = 2"
| "state_value STATE_BODY = 3"
| "state_value STATE_PRECLOSE = 4"
| "state_value STATE_INVALID = 5"

lemma state_value_inject: "state_value st = state_value st' \<Longrightarrow> st = st'"
  by (cases st; cases st') simp_all

instantiation protocol_state :: linorder
begin

definition less_eq_protocol_state :: "protocol_state \<Rightarrow> protocol_state \<Rightarrow> bool" where
  "st \<le> st' \<longleftrightarrow> state_value st \<le> state_value st'"

definition less_protocol_state :: "protocol_state \<Rightarrow> protocol_state \<Rightarrow> bool" where
  "st < st' \<longleftrightarrow> state_value st < state_value st'"

instance
  by standard (auto simp: less_eq_protocol_state_def less_protocol_state_def intro: state_value_inject)

end

lemma state_order [simp]:
  "STATE_PREHANDSHAKE \<le> st"
  "STATE_PREENCRYPT \<le> st \<longleftrightarrow> st \<noteq> STATE_PREHANDSHAKE"
  "STATE_ENCRYPT \<le> st \<longleftrightarrow> st \<noteq> STATE_PREHANDSHAKE \<and> st \<noteq> STATE_PREENCRYPT"
  "st \<le> STATE_BODY \<longleftrightarrow> st \<noteq> STATE_PRECLOSE \<and> st \<noteq> STATE_INVALID"
  by (cases st, simp_all add: less_eq_protocol_state_def)+

record conn =
  c_state :: protocol_state
  c_keys :: encrypt
  c_out :: buffer

abbreviation (input) REJECT_INVALID_PROTOCOL_ERROR :: "64 word" where "REJECT_INVALID_PROTOCOL_ERROR \<equiv> 1"
abbreviation (input) ERROR_INVALID_ERROR :: "64 word" where "ERROR_INVALID_ERROR \<equiv> 2"
abbreviation (input) ERROR_NOT_AVAILABLE_ERROR :: "64 word" where "ERROR_NOT_AVAILABLE_ERROR \<equiv> 3"
abbreviation (input) ERROR_PUBLIC_KEY_ERROR :: "64 word" where "ERROR_PUBLIC_KEY_ERROR \<equiv> 4"

abbreviation (input) VERSION_MAJOR :: int where "VERSION_MAJOR \<equiv> 0"
abbreviation (input) VERSION_MINOR :: int where "VERSION_MINOR \<equiv> 0"
abbreviation (input) VERSION_PATCH :: int where "VERSION_PATCH \<equiv> 1"

text \<open>The macros. \<open>send\<close> ignores what \<open>excom_protocol_write_packet\<close> returns.\<close>

definition send :: "sodium \<Rightarrow> 'a conn_scheme \<Rightarrow> packet \<Rightarrow> u16 \<Rightarrow> pf_arg list \<Rightarrow> 'a conn_scheme cmd" where
  "send S data raw t va =
     bind (lift_fault (excom_protocol_prefill
             \<lparr>pk_size = 0, pk_id = pk_id raw, pk_type = t, pk_data = []\<rparr> va)) (\<lambda>temp.
     bind (excom_protocol_write_packet S temp (c_out data) (Some (c_keys data))) (\<lambda>(_, _, out, keys).
     ret (data\<lparr>c_out := out, c_keys := the keys\<rparr>)))"

definition send_error :: "sodium \<Rightarrow> 'a conn_scheme \<Rightarrow> packet \<Rightarrow> 64 word \<Rightarrow> 'a conn_scheme cmd" where
  "send_error S data raw reason = send S data raw packet_error [PfNumber reason]"

definition send_reject :: "sodium \<Rightarrow> 'a conn_scheme \<Rightarrow> packet \<Rightarrow> 64 word \<Rightarrow> 'a conn_scheme cmd" where
  "send_reject S data raw reason = send S data raw packet_reject [PfNumber reason]"

definition require_state ::
    "sodium \<Rightarrow> protocol_state \<Rightarrow> 'a conn_scheme \<Rightarrow> packet \<Rightarrow> 'a conn_scheme cmd \<Rightarrow> 'a conn_scheme cmd" where
  "require_state S level data raw body =
     (if c_state data \<noteq> level then send_error S data raw ERROR_NOT_AVAILABLE_ERROR else body)"

text \<open>
  The copy both \<open>public_key\<close> handlers make: \<open>memcpy(packet.key.body, data->keys.remote.pkey, \<dots>)\<close>,
  with the packet's key as the destination.
\<close>

definition copy_remote_key :: "sodium \<Rightarrow> 'a conn_scheme \<Rightarrow> xstring \<Rightarrow> unit cmd" where
  "copy_remote_key S data key = memcpy (s_body key) (Lit (e_remote_pkey (c_keys data))) (box_PUBLICKEYBYTES S)"

section \<open>The handlers of the server\<close>

definition server_public_key :: "sodium \<Rightarrow> 'a conn_scheme \<Rightarrow> packet \<Rightarrow> 'a conn_scheme cmd" where
  "server_public_key S data raw =
     (case pk_data raw of
        [SVal key] \<Rightarrow>
          require_state S STATE_PREENCRYPT data raw
            (if s_size key \<noteq> of_nat (box_PUBLICKEYBYTES S) then send_error S data raw ERROR_PUBLIC_KEY_ERROR
             else
               bind (copy_remote_key S data key) (\<lambda>_.
               case e_local (c_keys data) of
                 None \<Rightarrow> fail NullDeref
               | Some l \<Rightarrow>
                   let pkey = excom_string_fill excom_string_init (of_nat (box_PUBLICKEYBYTES S)) (Lit (ep_pkey l)) in
                   bind (send S data raw packet_public_key [PfString pkey]) (\<lambda>data.
                   ret (data\<lparr>c_keys := (c_keys data)\<lparr>e_remote_active := True\<rparr>, c_state := STATE_ENCRYPT\<rparr>))))
      | _ \<Rightarrow> fail BadMember)"

definition server_protocol_version :: "sodium \<Rightarrow> 'a conn_scheme \<Rightarrow> packet \<Rightarrow> 'a conn_scheme cmd" where
  "server_protocol_version S data raw =
     (case pk_data raw of
        [SVal version, NVal major, NVal minor, NVal patch] \<Rightarrow>
          require_state S STATE_PREHANDSHAKE data raw
            (if uint major \<noteq> VERSION_MAJOR \<or> 3 < \<bar>uint minor - VERSION_MINOR\<bar> \<or> 10 < \<bar>uint patch - VERSION_PATCH\<bar>
             then send_reject S data raw REJECT_INVALID_PROTOCOL_ERROR
             else send S (data\<lparr>c_state := STATE_PREENCRYPT\<rparr>) raw packet_ok [])
      | _ \<Rightarrow> fail BadMember)"

definition server_ping :: "sodium \<Rightarrow> 'a conn_scheme \<Rightarrow> packet \<Rightarrow> 'a conn_scheme cmd" where
  "server_ping S data raw =
     bind (send S data raw packet_pong []) (\<lambda>data.
     ret (if c_state data = STATE_ENCRYPT then data\<lparr>c_state := STATE_BODY\<rparr> else data))"

definition server_command :: "sodium \<Rightarrow> 'a conn_scheme \<Rightarrow> packet \<Rightarrow> 'a conn_scheme cmd" where
  "server_command S data raw =
     (case pk_data raw of
        [SVal command] \<Rightarrow>
          require_state S STATE_BODY data raw (bind (excom_string_inspect command) (\<lambda>_. ret data))
      | _ \<Rightarrow> fail BadMember)"

definition server_command_response :: "sodium \<Rightarrow> 'a conn_scheme \<Rightarrow> packet \<Rightarrow> 'a conn_scheme cmd" where
  "server_command_response S data raw = require_state S STATE_BODY data raw (ret data)"

text \<open>
  The \<open>switch\<close> of the server's \<open>worker\<close>. The handlers of \<open>ok\<close>, \<open>reject\<close>, \<open>error\<close> (which prints
  the reason) and \<open>pong\<close> do nothing to the connection, nor does the \<open>default\<close> branch.
\<close>

definition server_handle_packet :: "sodium \<Rightarrow> 'a conn_scheme \<Rightarrow> packet \<Rightarrow> 'a conn_scheme cmd" where
  "server_handle_packet S data raw =
     (if pk_type raw = packet_public_key then server_public_key S data raw
      else if pk_type raw = packet_protocol_version then server_protocol_version S data raw
      else if pk_type raw = packet_ping then server_ping S data raw
      else if pk_type raw = packet_command then server_command S data raw
      else if pk_type raw = packet_command_response then server_command_response S data raw
      else ret data)"

section \<open>The handlers of the client\<close>

text \<open>\<open>enc\<close> is the client's own pair, \<open>data->enc\<close>.\<close>

definition client_ok :: "sodium \<Rightarrow> encrypt_pair \<Rightarrow> 'a conn_scheme \<Rightarrow> packet \<Rightarrow> 'a conn_scheme cmd" where
  "client_ok S enc data raw =
     (if c_state data = STATE_PREHANDSHAKE then
        let pkey = excom_string_fill excom_string_init (of_nat (box_PUBLICKEYBYTES S)) (Lit (ep_pkey enc)) in
        send S (data\<lparr>c_state := STATE_PREENCRYPT\<rparr>) raw packet_public_key [PfString pkey]
      else ret data)"

definition client_public_key :: "sodium \<Rightarrow> 'a conn_scheme \<Rightarrow> packet \<Rightarrow> 'a conn_scheme cmd" where
  "client_public_key S data raw =
     (case pk_data raw of
        [SVal key] \<Rightarrow>
          require_state S STATE_PREENCRYPT data raw
            (if s_size key \<noteq> of_nat (box_PUBLICKEYBYTES S) then send_error S data raw ERROR_PUBLIC_KEY_ERROR
             else
               bind (copy_remote_key S data key) (\<lambda>_.
               send S (data\<lparr>c_keys := (c_keys data)\<lparr>e_remote_active := True\<rparr>, c_state := STATE_ENCRYPT\<rparr>) raw
                 packet_ping []))
      | _ \<Rightarrow> fail BadMember)"

definition client_protocol_version :: "sodium \<Rightarrow> 'a conn_scheme \<Rightarrow> packet \<Rightarrow> 'a conn_scheme cmd" where
  "client_protocol_version S data raw = send_error S data raw ERROR_INVALID_ERROR"

text \<open>The characters of \<open>"hello world"\<close>.\<close>

definition hello_world :: "byte list" where
  "hello_world = [104, 101, 108, 108, 111, 32, 119, 111, 114, 108, 100]"

definition client_pong :: "sodium \<Rightarrow> 'a conn_scheme \<Rightarrow> packet \<Rightarrow> 'a conn_scheme cmd" where
  "client_pong S data raw =
     (if c_state data = STATE_ENCRYPT then
        let cmd = excom_string_fill excom_string_init (of_nat (length hello_world)) (Lit (hello_world @ [0])) in
        send S (data\<lparr>c_state := STATE_BODY\<rparr>) raw packet_command [PfString cmd]
      else ret data)"

text \<open>
  The \<open>switch\<close> of the client's \<open>default_handler\<close>; the other handlers are empty.
\<close>

definition client_handle_packet :: "sodium \<Rightarrow> encrypt_pair \<Rightarrow> 'a conn_scheme \<Rightarrow> packet \<Rightarrow> 'a conn_scheme cmd" where
  "client_handle_packet S enc data raw =
     (if pk_type raw = packet_ok then client_ok S enc data raw
      else if pk_type raw = packet_public_key then client_public_key S data raw
      else if pk_type raw = packet_protocol_version then client_protocol_version S data raw
      else if pk_type raw = packet_pong then client_pong S data raw
      else ret data)"

section \<open>The protocol\<close>

text \<open>A message without its id: the type and the field values.\<close>

type_synonym msg = "u16 \<times> wval list"

text \<open>
  What one packet does: the next state and the replies. \<open>pk\<close> is the public key of the side that
  handles the packet.
\<close>

definition version_accepted :: "wval list \<Rightarrow> bool" where
  "version_accepted vs =
     (case vs of [WStr v, WNum major, WNum minor, WNum patch] \<Rightarrow> major = 0 \<and> minor \<le> 3 \<and> patch \<le> 11
      | _ \<Rightarrow> False)"

definition is_key :: "wval list \<Rightarrow> bool" where
  "is_key vs = (case vs of [WStr k] \<Rightarrow> length k = 32 | _ \<Rightarrow> False)"

definition server_spec :: "byte list \<Rightarrow> protocol_state \<Rightarrow> msg \<Rightarrow> protocol_state \<times> msg list" where
  "server_spec pk st m =
     (case m of (ty, vs) \<Rightarrow>
        if ty = packet_protocol_version then
          (if st \<noteq> STATE_PREHANDSHAKE then (st, [(packet_error, [WNum 3])])
           else if version_accepted vs
           then (STATE_PREENCRYPT, [(packet_ok, [])])
           else (st, [(packet_reject, [WNum 1])]))
        else if ty = packet_public_key then
          (if st \<noteq> STATE_PREENCRYPT then (st, [(packet_error, [WNum 3])])
           else if is_key vs then (STATE_ENCRYPT, [(packet_public_key, [WStr pk])])
           else (st, [(packet_error, [WNum 4])]))
        else if ty = packet_ping then
          (if st = STATE_ENCRYPT then STATE_BODY else st, [(packet_pong, [])])
        else if ty = packet_command \<or> ty = packet_command_response then
          (st, if st \<noteq> STATE_BODY then [(packet_error, [WNum 3])] else [])
        else (st, []))"

definition client_spec :: "byte list \<Rightarrow> protocol_state \<Rightarrow> msg \<Rightarrow> protocol_state \<times> msg list" where
  "client_spec pk st m =
     (case m of (ty, vs) \<Rightarrow>
        if ty = packet_ok then
          (if st = STATE_PREHANDSHAKE then (STATE_PREENCRYPT, [(packet_public_key, [WStr pk])]) else (st, []))
        else if ty = packet_public_key then
          (if st \<noteq> STATE_PREENCRYPT then (st, [(packet_error, [WNum 3])])
           else if is_key vs then (STATE_ENCRYPT, [(packet_ping, [])])
           else (st, [(packet_error, [WNum 4])]))
        else if ty = packet_protocol_version then (st, [(packet_error, [WNum 2])])
        else if ty = packet_pong then
          (if st = STATE_ENCRYPT then (STATE_BODY, [(packet_command, [WStr hello_world])]) else (st, []))
        else (st, []))"

section \<open>Sending a reply\<close>

text \<open>The bytes of a message with id \<open>i\<close> under the keys \<open>e\<close>: sealed if the remote key is active.\<close>

definition framed :: "sodium \<Rightarrow> encrypt \<Rightarrow> world \<Rightarrow> u16 \<Rightarrow> msg \<Rightarrow> byte list" where
  "framed S e w i m =
     (case m of (ty, vs) \<Rightarrow>
        let pl = payload S (Some e) w (enc_fields vs) in enc_header (of_nat (length pl)) i ty @ pl)"

lemma framed_plain: "\<not> e_remote_active e \<Longrightarrow> framed S e w i (ty, vs) = enc_frame (i, ty, vs)"
  by (simp add: framed_def payload_def encrypting_def enc_frame_def Let_def)

lemma framed_empty: "framed S e w i (ty, []) = enc_frame (i, ty, [])"
  by (simp add: framed_def payload_def sealed_body_def enc_fields_def enc_frame_def Let_def)

lemma framed_cong: "entropy w' = entropy w \<Longrightarrow> framed S e w' i m = framed S e w i m"
  by (simp add: framed_def payload_def randomness_def drawn_def Let_def split: prod.splits)

definition conn_ok :: "sodium \<Rightarrow> world \<Rightarrow> 'a conn_scheme \<Rightarrow> bool" where
  "conn_ok S w d \<longleftrightarrow> ready w (c_out d) \<and> sane w \<and> sodium_ok S \<and> enc_ok S (c_keys d) \<and>
     length (ep_pkey (the (e_local (c_keys d)))) = 32 \<and> length (e_remote_pkey (c_keys d)) = 32"

lemma conn_okD:
  assumes "conn_ok S w d"
  shows "ready w (c_out d)" and "sane w" and "sodium_ok S" and "enc_ok S (c_keys d)"
    and "length (ep_pkey (the (e_local (c_keys d)))) = 32" and "length (e_remote_pkey (c_keys d)) = 32"
    and "box_PUBLICKEYBYTES S = 32"
  using assms by (simp_all add: conn_ok_def sodium_ok_def)

text \<open>The key the messages are sealed with: the shared key, made on first use.\<close>

definition session_key :: "sodium \<Rightarrow> encrypt \<Rightarrow> byte list" where
  "session_key S e = e_nm_kkey (prepped S e)"

lemma session_key_simps [simp]:
  "session_key S (e\<lparr>e_remote_active := b\<rparr>) = session_key S e" "session_key S (prepped S e) = session_key S e"
  "session_key S (body_prepped S e body) = session_key S e"
  by (simp_all add: session_key_def prepped_def body_prepped_def)

text \<open>
  From \<open>w\<close> and \<open>d\<close> to \<open>w'\<close> and \<open>d'\<close> the messages \<open>ms\<close> were put into the output buffer, and
  besides it only the blocks \<open>I\<close> were written.
\<close>

definition answered ::
    "sodium \<Rightarrow> nat set \<Rightarrow> world \<Rightarrow> 'a conn_scheme \<Rightarrow> u16 \<Rightarrow> msg list \<Rightarrow> world \<Rightarrow> 'a conn_scheme \<Rightarrow> bool" where
  "answered S I w d i ms w' d' \<longleftrightarrow>
     conn_ok S w' d' \<and> ioframe (I \<union> bids (c_out d)) w w' \<and>
     (\<forall>j \<in> bids (c_out d'). j \<in> bids (c_out d) \<or> fresh w \<le> j) \<and>
     contents w' (c_out d') = contents w (c_out d) @ concat (map (framed S (c_keys d) w i) ms) \<and>
     b_pos (c_out d') = b_pos (c_out d) \<and> wire w' = wire w \<and> outs w' = outs w \<and>
     e_remote_pkey (c_keys d') = e_remote_pkey (c_keys d) \<and> e_local (c_keys d') = e_local (c_keys d) \<and>
     session_key S (c_keys d') = session_key S (c_keys d) \<and> conn.more d' = conn.more d"

lemma answered_nothing: "conn_ok S w d \<Longrightarrow> answered S I w d i [] w d"
  by (simp add: answered_def)

lemma ioframe_drawn_start: "mframe I (drawn n w) w' \<Longrightarrow> ioframe I w w'"
  by (simp add: ioframe_def mframe_def same_env_def drawn_def hwf_def)

lemma sane_frame: "ioframe I w w' \<Longrightarrow> sane w \<Longrightarrow> sane w'"
  by (simp add: sane_def ioframe_def mframe_def same_env_def)

lemma send_ready:
  assumes ok: "conn_ok S w d" and ty: "packet_fields t = Some fs" and pf: "prefill_fields fs va = Inr data"
    and dv: "data_val w data vs" and fo: "fields_ok fs vs" and ids: "data_ids data = {}"
    and fit: "unat (b_used (c_out d)) + 64 + length (enc_fields vs) < 2 ^ 32"
  shows "wp (send S d raw t va) (\<lambda>d' w'. answered S {} w d (pk_id raw) [(t, vs)] w' d' \<and>
    c_state d' = c_state d \<and> e_remote_active (c_keys d') = e_remote_active (c_keys d)) w"
proof -
  let ?raw = "\<lparr>pk_size = 0, pk_id = pk_id raw, pk_type = t, pk_data = data\<rparr>"
  have t0: "t \<noteq> 0" using ty by auto
  note k = conn_okD [OF ok]
  have cr: "crypto_ready S (Some (c_keys d))" using k(3,4) by (simp add: crypto_ready_def)
  have pre: "excom_protocol_prefill \<lparr>pk_size = 0, pk_id = pk_id raw, pk_type = t, pk_data = []\<rparr> va = Inr ?raw"
    using t0 ty pf by (simp add: excom_protocol_prefill_def)
  note W = write_packet_ready [where pk = ?raw, OF k(2,1) _ _ fo _ cr refl refl fit, simplified, OF ty dv, unfolded ids, simplified]
  show ?thesis
    unfolding send_def wp_bind pre wp_lift_Inr
  proof (rule wp_mono [OF W], clarsimp, goal_cases)
    case (1 out w')
    let ?keys = "the (enc_after S (Some (c_keys d)) (enc_fields vs))"
    have keys: "enc_ok S ?keys" "e_remote_pkey ?keys = e_remote_pkey (c_keys d)" "e_local ?keys = e_local (c_keys d)"
      "e_remote_active ?keys = e_remote_active (c_keys d)" "session_key S ?keys = session_key S (c_keys d)"
      using k(3,4) by (simp_all add: enc_after_def body_prepped_def)
    have st: "bstep (drawn n w) (c_out d) w' out \<Longrightarrow> ioframe (bids (c_out d)) w w'" for n
      by (drule bstepD(2)) (rule ioframe_drawn_start)
    have sn: "bstep (drawn n w) (c_out d) w' out \<Longrightarrow> sane w'" for n
      by (drule st) (rule sane_frame [OF _ k(2)])
    have nw: "bstep (drawn n w) (c_out d) w' out \<Longrightarrow> \<forall>j \<in> bids out. j \<in> bids (c_out d) \<or> fresh w \<le> j" for n
      using bstepD(3) by fastforce
    have io: "bstep (drawn n w) (c_out d) w' out \<Longrightarrow> wire w' = wire w \<and> outs w' = outs w" for n
      using mframe_envD(1,2) [of "bids (c_out d)" "drawn n w" w'] by (auto simp: drawn_def dest: bstepD(2))
    show ?case
      using 1 keys k st sn nw io
      by (auto simp: answered_def conn_ok_def appended_def framed_def Let_def)
  qed
qed

section \<open>The handlers refine the protocol\<close>

text \<open>
  A packet as the reader leaves it: field values \<open>vs\<close> of its type, strings in blocks of their own,
  apart from the output buffer.
\<close>

definition raw_ok :: "world \<Rightarrow> buffer \<Rightarrow> packet \<Rightarrow> wval list \<Rightarrow> bool" where
  "raw_ok w out raw vs \<longleftrightarrow>
     (case packet_fields (pk_type raw) of
        None \<Rightarrow> True | Some fs \<Rightarrow> data_val w (pk_data raw) vs \<and> fields_ok fs vs) \<and>
     (\<forall>i \<in> data_ids (pk_data raw). i < fresh w) \<and> data_ids (pk_data raw) \<inter> bids out = {} \<and>
     (\<forall>s bs. SVal s \<in> set (pk_data raw) \<longrightarrow> s_body s \<noteq> Lit bs)"

definition roomy :: "'a conn_scheme \<Rightarrow> bool" where
  "roomy d \<longleftrightarrow> unat (b_used (c_out d)) + 128 < 2 ^ 32"

text \<open>What a handler does to the whole of a connection, given the specification's answer.\<close>

definition handled ::
    "sodium \<Rightarrow> world \<Rightarrow> 'a conn_scheme \<Rightarrow> packet \<Rightarrow> protocol_state \<times> msg list \<Rightarrow> 'a conn_scheme \<Rightarrow> world \<Rightarrow> bool" where
  "handled S w d raw r d' w' \<longleftrightarrow>
     c_state d' = fst r \<and> answered S (data_ids (pk_data raw)) w d (pk_id raw) (snd r) w' d' \<and>
     e_remote_active (c_keys d') =
       (e_remote_active (c_keys d) \<or> c_state d = STATE_PREENCRYPT \<and> fst r = STATE_ENCRYPT)"

lemma answered_frame: "answered S {} w d i ms w' d' \<Longrightarrow> answered S I w d i ms w' d'"
  by (auto simp: answered_def ioframe_def elim!: mframe_weaken)

lemma handled_none: "conn_ok S w d \<Longrightarrow> handled S w d raw (c_state d, []) d w"
  by (auto simp: handled_def answered_nothing)

text \<open>One reply, of a short body, by a handler that has set the state to \<open>st\<close> before.\<close>

lemma reply_ready:
  assumes ok: "conn_ok S w d" and room: "roomy d"
    and ty: "packet_fields t = Some fs" and pf: "prefill_fields fs va = Inr data"
    and dv: "data_val w data vs" and fo: "fields_ok fs vs" and ids: "data_ids data = {}"
    and len: "length (enc_fields vs) \<le> 64" and st: "st = c_state d \<or> c_state d \<noteq> STATE_PREENCRYPT \<or> st \<noteq> STATE_ENCRYPT"
  shows "wp (send S (d\<lparr>c_state := st\<rparr>) raw t va) (\<lambda>d' w'. handled S w d raw (st, [(t, vs)]) d' w') w"
proof -
  have ok': "conn_ok S w (d\<lparr>c_state := st\<rparr>)" using ok by (simp add: conn_ok_def)
  have fit: "unat (b_used (c_out (d\<lparr>c_state := st\<rparr>))) + 64 + length (enc_fields vs) < 2 ^ 32"
    using room len by (simp add: roomy_def)
  show ?thesis
    by (rule wp_mono [OF send_ready [OF ok' ty pf dv fo ids fit]])
       (use st in \<open>auto simp: handled_def answered_def ioframe_def elim!: mframe_weaken\<close>)
qed

lemma number_ready:
  assumes "conn_ok S w d" and "roomy d" and "t = packet_error \<or> t = packet_reject"
  shows "wp (send S d raw t [PfNumber n]) (\<lambda>d' w'. handled S w d raw (c_state d, [(t, [WNum (ucast n)])]) d' w') w"
proof -
  have "packet_fields t = Some [FNumber8 ''reason'']" using assms(3) by auto
  from reply_ready [OF assms(1,2) this, where st = "c_state d" and va = "[PfNumber n]"]
  show ?thesis by (simp add: fields_ok_def enc_fields_def)
qed

lemma require_ready:
  assumes "conn_ok S w d" and "roomy d"
    and "c_state d \<noteq> level \<Longrightarrow> Q = handled S w d raw (c_state d, [(packet_error, [WNum 3])])"
    and "c_state d = level \<Longrightarrow> wp m Q w"
  shows "wp (require_state S level d raw m) Q w"
  using number_ready [OF assms(1,2), of packet_error raw ERROR_NOT_AVAILABLE_ERROR] assms(3,4)
  by (auto simp: require_state_def send_error_def)

lemma copy_remote_key_wp:
  assumes ok: "conn_ok S w d" and key: "str_val w key k" "length k = 32" "\<And>bs. s_body key \<noteq> Lit bs"
    and Q: "\<And>w'. mframe (pids (s_body key)) w w' \<Longrightarrow> Q () w'"
  shows "wp (copy_remote_key S d key) Q w"
proof -
  have rd: "reads w (s_body key) 32 k"
    using key(1,2) str_val_length [OF key(1)] by (simp add: str_val_def)
  then obtain i j where p: "s_body key = Ptr i j"
    using key(3) by (cases "s_body key") (auto simp: reads_Null)
  then obtain bs where bs: "blocks w i = Some bs" "j + 32 \<le> length bs"
    using rd by (auto simp: reads_Ptr)
  have "load (Lit (e_remote_pkey (c_keys d))) 32 = ret (e_remote_pkey (c_keys d))"
    using conn_okD(6) [OF ok] by simp
  then show ?thesis
    using bs conn_okD(6,7) [OF ok] Q p
    by (auto simp: copy_remote_key_def memcpy_def intro!: store_Ptr_wp)
qed

text \<open>A reply after the packet's own blocks were written.\<close>

lemma handled_after:
  assumes "mframe I w w1" and "I \<subseteq> data_ids (pk_data raw)" and "data_ids (pk_data raw) \<inter> bids (c_out d) = {}"
    and "conn_ok S w d" and "answered S {} w1 d i ms w' d'"
  shows "answered S (data_ids (pk_data raw)) w d i ms w' d'"
proof -
  have e: "entropy w1 = entropy w" using mframe_envD(4) [OF assms(1)] .
  have c: "contents w1 (c_out d) = contents w (c_out d)"
    using conn_okD(1) [OF assms(4)] by (intro buf_frame(2) [OF _ _ assms(1)]) (use assms(2,3) in \<open>auto simp: ready_def\<close>)
  have f: "ioframe (data_ids (pk_data raw) \<union> bids (c_out d)) w w'"
    by (rule ioframe_trans [OF mframe_ioframe [OF assms(1)], where J = "bids (c_out d)"])
       (use assms(2,5) in \<open>auto simp: answered_def\<close>)
  have "framed S (c_keys d) w1 = framed S (c_keys d) w"
    by (intro ext framed_cong e)
  then show ?thesis
    using assms(5) f c mframe_fresh [OF assms(1)] mframe_envD(1,2) [OF assms(1)] by (auto simp: answered_def)
qed

lemma conn_ok_mframe:
  assumes "conn_ok S w d" and "mframe I w w'" and "bids (c_out d) \<inter> I = {}"
  shows "conn_ok S w' d"
  using assms ready_frame [of w "c_out d"] sane_frame [OF mframe_ioframe [OF assms(2)]]
  by (auto simp: conn_ok_def)

lemma field_ok_iff:
  "field_ok (FString n) v \<longleftrightarrow> (\<exists>bs. v = WStr bs \<and> length bs < 2 ^ 32)" "field_ok (FNumber8 n) v \<longleftrightarrow> (\<exists>b. v = WNum b)"
  by (cases v; simp)+

lemma raw_string:
  assumes "raw_ok w out raw vs" and "packet_fields (pk_type raw) = Some [FString n]"
  obtains key k where "pk_data raw = [SVal key]" and "vs = [WStr k]" and "str_val w key k"
    and "\<And>bs. s_body key \<noteq> Lit bs" and "data_ids (pk_data raw) = pids (s_body key)"
    and "is_key vs \<longleftrightarrow> s_size key = 32"
proof -
  obtain k where vs: "vs = [WStr k]"
    using assms by (auto simp: raw_ok_def fields_ok_def list_all2_Cons1 field_ok_iff simp del: field_ok.simps)
  then obtain key where key: "pk_data raw = [SVal key]" "str_val w key k"
    using assms by (auto simp: raw_ok_def data_val_def list_all2_Cons2)
  have "length k = 32 \<longleftrightarrow> s_size key = 32"
    using str_val_length [OF key(2)] by (simp add: word_unat_eq_iff)
  then show ?thesis
    using that [OF key(1) vs key(2)] assms key by (simp add: vs is_key_def raw_ok_def str_ids_def)
qed

lemma raw_version:
  assumes "raw_ok w out raw vs" and "pk_type raw = packet_protocol_version"
  obtains s major minor patch where "pk_data raw = [SVal s, NVal major, NVal minor, NVal patch]"
    and "version_accepted vs \<longleftrightarrow>
      \<not> (uint major \<noteq> VERSION_MAJOR \<or> 3 < \<bar>uint minor - VERSION_MINOR\<bar> \<or> 10 < \<bar>uint patch - VERSION_PATCH\<bar>)"
proof -
  obtain v a b c where vs: "vs = [WStr v, WNum a, WNum b, WNum c]"
    using assms by (auto simp: raw_ok_def fields_ok_def list_all2_Cons1 field_ok_iff simp del: field_ok.simps)
  then obtain s where "pk_data raw = [SVal s, NVal a, NVal b, NVal c]"
    using assms by (auto simp: raw_ok_def data_val_def list_all2_Cons2)
  moreover have "uint a \<noteq> 0 \<longleftrightarrow> a \<noteq> 0" by (simp add: uint_0_iff)
  moreover have "3 < \<bar>uint b\<bar> \<longleftrightarrow> \<not> b \<le> 3" by (simp add: word_le_def not_le)
  moreover have "10 < \<bar>uint c - 1\<bar> \<longleftrightarrow> \<not> c \<le> 11"
  proof -
    have "uint (11 :: byte) = 11" by simp
    then show ?thesis unfolding word_le_def using uint_ge_0 [of c] by arith
  qed
  ultimately show ?thesis
    using that by (simp add: vs version_accepted_def)
qed

lemma key_string [simp]:
  assumes "length pk = 32"
  shows "str_val w (excom_string_fill excom_string_init 32 (Lit pk)) pk"
  using assms by (simp add: str_val_def excom_string_fill_def)

lemma key_string_ids [simp]: "str_ids (excom_string_fill excom_string_init n (Lit bs)) = {}"
  by (simp add: str_ids_def excom_string_fill_def)

lemma server_public_key_ready:
  assumes ok: "conn_ok S w d" and room: "roomy d" and raw: "raw_ok w (c_out d) raw vs"
    and ty: "pk_type raw = packet_public_key"
  shows "wp (server_public_key S d raw)
    (handled S w d raw (server_spec (ep_pkey (the (e_local (c_keys d)))) (c_state d) (pk_type raw, vs))) w"
proof -
  obtain key k where key: "pk_data raw = [SVal key]" "vs = [WStr k]" "str_val w key k"
    "\<And>bs. s_body key \<noteq> Lit bs" "data_ids (pk_data raw) = pids (s_body key)" "is_key vs \<longleftrightarrow> s_size key = 32"
    by (rule raw_string [OF raw, of "''key''"]) (use ty in auto)
  note k = conn_okD [OF ok]
  obtain l where l: "e_local (c_keys d) = Some l" using k(4) by (auto simp: enc_ok_def)
  have dis: "data_ids (pk_data raw) \<inter> bids (c_out d) = {}" using raw by (simp add: raw_ok_def)
  let ?pk = "excom_string_fill excom_string_init 32 (Lit (ep_pkey l))"
  show ?thesis
    unfolding server_public_key_def key(1) list.case fval.case
  proof (rule require_ready [OF ok room], goal_cases)
    case 1
    then show ?case by (simp add: server_spec_def ty)
  next
    case 2
    show ?case
    proof (cases "s_size key = 32")
      case False
      then show ?thesis
        using number_ready [OF ok room, of packet_error raw ERROR_PUBLIC_KEY_ERROR] 2 key(6)
        by (simp add: server_spec_def ty send_error_def k(7))
    next
      case True
      have len: "length k = 32" using key(2,6) True by (simp add: is_key_def)
      have "wp (copy_remote_key S d key) (\<lambda>_. wp (bind (send S d raw packet_public_key [PfString ?pk]) (\<lambda>data.
          ret (data\<lparr>c_keys := (c_keys data)\<lparr>e_remote_active := True\<rparr>, c_state := STATE_ENCRYPT\<rparr>)))
          (handled S w d raw (STATE_ENCRYPT, [(packet_public_key, [WStr (ep_pkey l)])]))) w"
      proof (rule copy_remote_key_wp [OF ok key(3) len key(4)], goal_cases)
        case (1 w1)
        have ok1: "conn_ok S w1 d" using ok 1 by (rule conn_ok_mframe) (use dis key(5) in auto)
        show ?case
          unfolding wp_bind
        proof (rule wp_mono [OF send_ready [OF ok1, where fs = "[FString ''key'']" and data = "[SVal ?pk]" and vs = "[WStr (ep_pkey l)]"]], goal_cases)
          case (7 d' w')
          then have a: "answered S (data_ids (pk_data raw)) w d (pk_id raw) [(7, [WStr (ep_pkey l)])] w' d'"
            using handled_after [OF 1 _ dis ok] key(5) by simp
          then show ?case
            using k l by (auto simp: handled_def answered_def conn_ok_def enc_ok_def 2)
        qed (use k l room in \<open>simp_all add: fields_ok_def enc_fields_def roomy_def\<close>)
      qed
      then show ?thesis
        using 2 True key(6) by (simp add: k(7) l server_spec_def ty)
    qed
  qed
qed

lemma server_protocol_version_ready:
  assumes ok: "conn_ok S w d" and room: "roomy d" and raw: "raw_ok w (c_out d) raw vs"
    and ty: "pk_type raw = packet_protocol_version"
  shows "wp (server_protocol_version S d raw) (handled S w d raw (server_spec pk (c_state d) (pk_type raw, vs))) w"
proof -
  obtain s major minor patch where r: "pk_data raw = [SVal s, NVal major, NVal minor, NVal patch]"
    "version_accepted vs \<longleftrightarrow>
      \<not> (uint major \<noteq> VERSION_MAJOR \<or> 3 < \<bar>uint minor - VERSION_MINOR\<bar> \<or> 10 < \<bar>uint patch - VERSION_PATCH\<bar>)"
    by (rule raw_version [OF raw ty])
  show ?thesis
    unfolding server_protocol_version_def r(1) list.case fval.case r(2) [unfolded not_not, symmetric]
  proof (rule require_ready [OF ok room], goal_cases)
    case 1
    then show ?case by (simp add: server_spec_def ty)
  next
    case 2
    show ?case
    proof (cases "version_accepted vs")
      case True
      then show ?thesis
        using 2 r(2) reply_ready [OF ok room, of packet_ok "[]" "[]" "[]" "[]" STATE_PREENCRYPT raw]
        by (simp add: server_spec_def ty fields_ok_def enc_fields_def)
    next
      case False
      then show ?thesis
        using 2 r(2) number_ready [OF ok room, of packet_reject raw REJECT_INVALID_PROTOCOL_ERROR]
        by (auto simp: server_spec_def ty send_reject_def)
    qed
  qed
qed

lemma server_ping_ready:
  assumes ok: "conn_ok S w d" and room: "roomy d" and ty: "pk_type raw = packet_ping"
  shows "wp (server_ping S d raw) (handled S w d raw (server_spec pk (c_state d) (pk_type raw, vs))) w"
proof -
  have "wp (send S (d\<lparr>c_state := c_state d\<rparr>) raw packet_pong [])
      (handled S w d raw (c_state d, [(packet_pong, [])])) w"
    by (rule reply_ready [OF ok room, where fs = "[]" and data = "[]"]) (simp_all add: fields_ok_def enc_fields_def)
  then have "wp (send S d raw packet_pong []) (handled S w d raw (c_state d, [(packet_pong, [])])) w"
    by simp
  then show ?thesis
    unfolding server_ping_def wp_bind
    by (rule wp_mono) (auto simp: server_spec_def ty handled_def answered_def conn_ok_def)
qed

lemma server_command_ready:
  assumes ok: "conn_ok S w d" and room: "roomy d" and raw: "raw_ok w (c_out d) raw vs"
    and ty: "pk_type raw = packet_command"
  shows "wp (server_command S d raw) (handled S w d raw (server_spec pk (c_state d) (pk_type raw, vs))) w"
proof -
  obtain key k where key: "pk_data raw = [SVal key]" "vs = [WStr k]" "str_val w key k"
    by (rule raw_string [OF raw, of "''command''"]) (use ty in auto)
  have "wp (excom_string_inspect key) (\<lambda>_ w'. w' = w) w"
    unfolding excom_string_inspect_def wp_bind
    by (rule load_wp [OF key(3) [unfolded str_val_def]]) simp
  then show ?thesis
    unfolding server_command_def key(1) list.case fval.case
    by (intro require_ready [OF ok room]) 
       (use handled_none [OF ok, of raw] in \<open>auto simp: server_spec_def ty elim!: wp_mono\<close>)
qed

lemma server_handle_packet_ready:
  assumes ok: "conn_ok S w d" and room: "roomy d" and raw: "raw_ok w (c_out d) raw vs"
    and pk: "pk = ep_pkey (the (e_local (c_keys d)))"
  shows "wp (server_handle_packet S d raw) (handled S w d raw (server_spec pk (c_state d) (pk_type raw, vs))) w"
proof -
  have none: "wp (ret d) (handled S w d raw (c_state d, [])) w"
    using handled_none [OF ok, of raw] by simp
  have "wp (server_command_response S d raw) (handled S w d raw (server_spec pk (c_state d) (pk_type raw, vs))) w"
    if "pk_type raw = packet_command_response"
    unfolding server_command_response_def
    by (rule require_ready [OF ok room]) (use that none in \<open>simp_all add: server_spec_def\<close>)
  then show ?thesis
    unfolding server_handle_packet_def pk
    using server_public_key_ready [OF ok room raw] server_protocol_version_ready [OF ok room raw]
      server_ping_ready [OF ok room] server_command_ready [OF ok room raw] none
    by (auto simp: server_spec_def)
qed

text \<open>The client's pair \<open>enc\<close> is the pair its keys point to.\<close>

lemma client_ok_ready:
  assumes ok: "conn_ok S w d" and room: "roomy d" and l: "e_local (c_keys d) = Some enc"
    and ty: "pk_type raw = packet_ok"
  shows "wp (client_ok S enc d raw) (handled S w d raw (client_spec (ep_pkey enc) (c_state d) (pk_type raw, vs))) w"
proof (cases "c_state d = STATE_PREHANDSHAKE")
  case True
  let ?pk = "excom_string_fill excom_string_init 32 (Lit (ep_pkey enc))"
  have len: "length (ep_pkey enc) = 32" using conn_okD(5) [OF ok] l by simp
  have "wp (send S (d\<lparr>c_state := STATE_PREENCRYPT\<rparr>) raw packet_public_key [PfString ?pk])
      (handled S w d raw (STATE_PREENCRYPT, [(packet_public_key, [WStr (ep_pkey enc)])])) w"
    by (rule reply_ready [OF ok room, where fs = "[FString ''key'']" and data = "[SVal ?pk]"])
       (use len True in \<open>simp_all add: fields_ok_def enc_fields_def\<close>)
  then show ?thesis
    using True by (simp add: client_ok_def client_spec_def ty conn_okD(7) [OF ok])
next
  case False
  then show ?thesis
    using handled_none [OF ok, of raw] by (simp add: client_ok_def client_spec_def ty)
qed

lemma client_public_key_ready:
  assumes ok: "conn_ok S w d" and room: "roomy d" and raw: "raw_ok w (c_out d) raw vs"
    and ty: "pk_type raw = packet_public_key"
  shows "wp (client_public_key S d raw) (handled S w d raw (client_spec pk (c_state d) (pk_type raw, vs))) w"
proof -
  obtain key k where key: "pk_data raw = [SVal key]" "vs = [WStr k]" "str_val w key k"
    "\<And>bs. s_body key \<noteq> Lit bs" "data_ids (pk_data raw) = pids (s_body key)" "is_key vs \<longleftrightarrow> s_size key = 32"
    by (rule raw_string [OF raw, of "''key''"]) (use ty in auto)
  note k = conn_okD [OF ok]
  have dis: "data_ids (pk_data raw) \<inter> bids (c_out d) = {}" using raw by (simp add: raw_ok_def)
  let ?d = "d\<lparr>c_keys := (c_keys d)\<lparr>e_remote_active := True\<rparr>, c_state := STATE_ENCRYPT\<rparr>"
  show ?thesis
    unfolding client_public_key_def key(1) list.case fval.case
  proof (rule require_ready [OF ok room], goal_cases)
    case 1
    then show ?case by (simp add: client_spec_def ty)
  next
    case 2
    show ?case
    proof (cases "s_size key = 32")
      case False
      then show ?thesis
        using number_ready [OF ok room, of packet_error raw ERROR_PUBLIC_KEY_ERROR] 2 key(6)
        by (simp add: client_spec_def ty send_error_def k(7))
    next
      case True
      have len: "length k = 32" using key(2,6) True by (simp add: is_key_def)
      have "wp (copy_remote_key S d key) (\<lambda>_. wp (send S ?d raw packet_ping [])
          (handled S w d raw (STATE_ENCRYPT, [(packet_ping, [])]))) w"
      proof (rule copy_remote_key_wp [OF ok key(3) len key(4)], goal_cases)
        case (1 w1)
        have ok1: "conn_ok S w1 d" using ok 1 by (rule conn_ok_mframe) (use dis key(5) in auto)
        then have ok2: "conn_ok S w1 ?d" by (simp add: conn_ok_def enc_ok_def)
        show ?case
        proof (rule wp_mono [OF send_ready [OF ok2, where fs = "[]" and data = "[]" and vs = "[]"]], goal_cases)
          case (7 d' w')
          then have "answered S {} w1 d (pk_id raw) [(5, [])] w' d'"
            by (simp add: answered_def framed_empty)
          then have "answered S (data_ids (pk_data raw)) w d (pk_id raw) [(5, [])] w' d'"
            using handled_after [OF 1 _ dis ok] key(5) by simp
          then show ?case
            using 7 by (simp add: handled_def 2)
        qed (use room in \<open>simp_all add: fields_ok_def enc_fields_def roomy_def\<close>)
      qed
      then show ?thesis
        using 2 True key(6) by (simp add: k(7) client_spec_def ty)
    qed
  qed
qed

lemma client_pong_ready:
  assumes ok: "conn_ok S w d" and room: "roomy d" and ty: "pk_type raw = packet_pong"
  shows "wp (client_pong S d raw) (handled S w d raw (client_spec pk (c_state d) (pk_type raw, vs))) w"
proof (cases "c_state d = STATE_ENCRYPT")
  case True
  let ?cmd = "excom_string_fill excom_string_init 11 (Lit (hello_world @ [0]))"
  have "str_val w ?cmd hello_world"
    by (simp add: str_val_def excom_string_fill_def hello_world_def)
  then have "wp (send S (d\<lparr>c_state := STATE_BODY\<rparr>) raw packet_command [PfString ?cmd])
      (handled S w d raw (STATE_BODY, [(packet_command, [WStr hello_world])])) w"
    by (intro reply_ready [OF ok room, where fs = "[FString ''command'']" and data = "[SVal ?cmd]"])
       (use True in \<open>simp_all add: fields_ok_def enc_fields_def hello_world_def\<close>)
  then show ?thesis
    using True by (simp add: client_pong_def client_spec_def ty hello_world_def)
next
  case False
  then show ?thesis
    using handled_none [OF ok, of raw] by (simp add: client_pong_def client_spec_def ty)
qed

lemma client_handle_packet_ready:
  assumes ok: "conn_ok S w d" and room: "roomy d" and raw: "raw_ok w (c_out d) raw vs"
    and l: "e_local (c_keys d) = Some enc" and pk: "pk = ep_pkey enc"
  shows "wp (client_handle_packet S enc d raw) (handled S w d raw (client_spec pk (c_state d) (pk_type raw, vs))) w"
proof -
  have "wp (client_protocol_version S d raw) (handled S w d raw (client_spec pk (c_state d) (pk_type raw, vs))) w"
    if "pk_type raw = packet_protocol_version"
    using number_ready [OF ok room, of packet_error raw ERROR_INVALID_ERROR] that
    by (simp add: client_protocol_version_def send_error_def client_spec_def)
  then show ?thesis
    unfolding client_handle_packet_def pk
    using client_ok_ready [OF ok room l] client_public_key_ready [OF ok room raw]
      client_pong_ready [OF ok room] handled_none [OF ok, of raw]
    by (auto simp: client_spec_def)
qed

end
