(* ===== verification/Loop.thy ===== *)
theory Loop
  imports Prelude
begin

text \<open>
  Loops that need not end. \<open>loop body x\<close> runs \<open>body\<close>, which returns whether to go on and the new
  values of the variables the loop assigns, until it returns False; a loop that never does is the
  fault \<open>Diverges\<close>. A total-correctness fact (\<open>wp\<close>) about a loop therefore says that it ends;
  the rule \<open>loop_wp\<close> asks for a measure.
\<close>

partial_function (option) loop_run ::
    "('a \<Rightarrow> world \<Rightarrow> fault + ((bool \<times> 'a) \<times> world)) \<Rightarrow> 'a \<Rightarrow> world \<Rightarrow> (fault + ('a \<times> world)) option" where
  "loop_run body x w =
     (case body x w of
        Inl e \<Rightarrow> Some (Inl e)
      | Inr r \<Rightarrow> if fst (fst r) then loop_run body (snd (fst r)) (snd r) else Some (Inr (snd (fst r), snd r)))"

definition loop :: "('a \<Rightarrow> (bool \<times> 'a) cmd) \<Rightarrow> 'a \<Rightarrow> 'a cmd" where
  "loop body x = (\<lambda>w. case loop_run body x w of None \<Rightarrow> Inl Diverges | Some r \<Rightarrow> r)"

lemma loop_unfold: "loop body x = bind (body x) (\<lambda>(go, x'). if go then loop body x' else ret x')"
proof
  fix w
  show "loop body x w = bind (body x) (\<lambda>(go, x'). if go then loop body x' else ret x') w"
    by (cases "body x w")
       (simp_all add: loop_def loop_run.simps [of body x w] bind_def ret_def split: prod.splits)
qed

lemma loop_wp:
  assumes "I x w" and "\<And>x w. I x w \<Longrightarrow> wp (body x) (\<lambda>(go, x') w'.
      if go then I x' w' \<and> m x' w' < (m x w :: nat) else Q x' w') w"
  shows "wp (loop body x) Q w"
  using assms(1)
proof (induction "m x w" arbitrary: x w rule: less_induct)
  case less
  show ?case
    unfolding loop_unfold [of body x] wp_bind
    by (rule wp_mono [OF assms(2) [OF less.prems]]) (auto intro: less.hyps split: if_splits)
qed

lemma loop_stops: "body x w = Inr ((False, y), w') \<Longrightarrow> loop body x w = Inr (y, w')"
  by (simp add: loop_unfold [of body x] bind_def ret_def)

lemma loop_goes: "body x w = Inr ((True, y), w') \<Longrightarrow> loop body x w = loop body y w'"
  by (simp add: loop_unfold [of body x] bind_def)

lemma loop_step_wp:
  "wp (body x) (\<lambda>(go, y). if go then wp (loop body y) Q else Q y) w \<Longrightarrow> wp (loop body x) Q w"
  by (subst loop_unfold, simp) (erule wp_mono, auto split: if_splits)

text \<open>Conversely, a loop that returns has gone through finitely many rounds.\<close>

lemma loop_run_induct [consumes 1, case_names run]:
  assumes "loop_run body x w = Some r"
    and "\<And>lr body x w r. (\<And>b x w r. lr b x w = Some r \<Longrightarrow> P b x w r) \<Longrightarrow>
      (case body x w of Inl e \<Rightarrow> Some (Inl e)
       | Inr q \<Rightarrow> if fst (fst q) then lr body (snd (fst q)) (snd q) else Some (Inr (snd (fst q), snd q))) = Some r \<Longrightarrow>
      P body x w r"
  shows "P body x w r"
proof (rule loop_run.raw_induct [where xa = "((body, x), w)" and P = P and y = r, unfolded prod.case, OF _ assms(1)])
qed (rule assms(2), assumption+)

lemma loop_induct [consumes 1, case_names stop go]:
  assumes "loop body x w = Inr (y, w')"
    and "\<And>x w y w'. body x w = Inr ((False, y), w') \<Longrightarrow> P x w y w'"
    and "\<And>x w x1 w1 y w'. body x w = Inr ((True, x1), w1) \<Longrightarrow> P x1 w1 y w' \<Longrightarrow> P x w y w'"
  shows "P x w y w'"
proof -
  have "b = body \<longrightarrow> (\<forall>y w'. r = Inr (y, w') \<longrightarrow> P x w y w')" if "loop_run b x w = Some r" for b x w r
    using that
  proof (induction rule: loop_run_induct)
    case (run lr b x w r)
    show ?case
      using run.hyps run.IH [of body] assms(2) [of x w] assms(3) [of x w]
      by (cases "b x w") (auto split: if_splits)
  qed
  moreover have "loop_run body x w = Some (Inr (y, w'))"
    using assms(1) by (simp add: loop_def split: option.splits)
  ultimately show ?thesis by blast
qed

text \<open>
  One call of \<open>read\<close>: an error number, or at most \<open>n\<close> of the bytes that have arrived. A script that
  has run out answers \<open>EAGAIN\<close>, as a non-blocking descriptor does; \<open>Inr []\<close> is the end of the
  stream.
\<close>

definition sys_read :: "nat \<Rightarrow> (int + byte list) cmd" where
  "sys_read n = (\<lambda>w.
     case ins w of
       [] \<Rightarrow> Inr (Inl EAGAIN, w\<lparr>errno := EAGAIN\<rparr>)
     | Inl e # is \<Rightarrow> Inr (Inl e, w\<lparr>ins := is, errno := e\<rparr>)
     | Inr bs # is \<Rightarrow>
         Inr (Inr (take n bs), w\<lparr>ins := (if length bs \<le> n then is else Inr (drop n bs) # is)\<rparr>))"

end
