(* ===== verification/Structs.thy ===== *)
theory Structs
  imports Prelude
begin

text \<open>
  Structs linked by pointers (packets, jobs, the clients of the server). A struct is the malloc block
  it lies in, so a store of structs maps block numbers to their contents; reading or writing a field
  through a pointer looks the struct up first. Sequences of assignments are chained by \<open>andthen\<close>.
\<close>

definition struct_at :: "(nat \<Rightarrow> 'a option) \<Rightarrow> ptr \<Rightarrow> fault + (nat \<times> 'a)" where
  "struct_at h p =
     (case p of
        Null \<Rightarrow> Inl NullDeref
      | Ptr i k \<Rightarrow> (if k \<noteq> 0 then Inl OutOfBounds
                    else case h i of None \<Rightarrow> Inl UseAfterFree | Some x \<Rightarrow> Inr (i, x))
      | Lit _ \<Rightarrow> Inl OutOfBounds)"

definition set_struct :: "ptr \<Rightarrow> ('a \<Rightarrow> 'a) \<Rightarrow> (nat \<Rightarrow> 'a option) \<Rightarrow> fault + (nat \<Rightarrow> 'a option)" where
  "set_struct p f h = (case struct_at h p of Inl e \<Rightarrow> Inl e | Inr (i, x) \<Rightarrow> Inr (h(i \<mapsto> f x)))"

definition andthen :: "fault + 'a \<Rightarrow> ('a \<Rightarrow> fault + 'b) \<Rightarrow> fault + 'b" where
  "andthen r f = (case r of Inl e \<Rightarrow> Inl e | Inr x \<Rightarrow> f x)"

lemma andthen_InrE: "andthen r f = Inr y \<Longrightarrow> (\<And>x. r = Inr x \<Longrightarrow> f x = Inr y \<Longrightarrow> P) \<Longrightarrow> P"
  by (auto simp: andthen_def split: sum.splits)

lemma andthen_simps [simp]: "andthen (Inl e) f = Inl e" "andthen (Inr x) f = f x"
  by (simp_all add: andthen_def)

lemma lift_run: "lift_fault (Inr x) = ret x" "lift_fault (Inl e) = fail e"
  by (auto simp: lift_fault_def ret_def fail_def)

lemma struct_at_simps [simp]:
  "struct_at h Null = Inl NullDeref" "h i = Some x \<Longrightarrow> struct_at h (Ptr i 0) = Inr (i, x)"
  "h i = None \<Longrightarrow> struct_at h (Ptr i 0) = Inl UseAfterFree"
  by (simp_all add: struct_at_def)

lemma set_struct_simps [simp]:
  "set_struct Null f h = Inl NullDeref" "h i = Some x \<Longrightarrow> set_struct (Ptr i 0) f h = Inr (h(i \<mapsto> f x))"
  "h i = None \<Longrightarrow> set_struct (Ptr i 0) f h = Inl UseAfterFree"
  by (simp_all add: set_struct_def)

end
