(* ===== verification/Queue.thy ===== *)
theory Queue
  imports Protocol Loop Structs
begin

text \<open>
  The list of received packets: the fields \<open>packets\<close> and \<open>last\<close> of the server's \<open>client_data\<close>
  (\<open>src/excom-server/client.c\<close>) and \<open>packets\<close> of the client (\<open>src/excom-client/client.c\<close>), with
  the \<open>_next\<close> fields of the packets that are linked. A packet struct is the malloc block it lies
  in; \<open>q_nodes\<close> holds the structs that were allocated and not freed.

  The locale \<open>packet_fifo\<close> is what the threads of the server rely on: what \<open>check_packet\<close> links
  the worker unlinks, in order. It is interpreted on the server's code.
\<close>

section \<open>Model\<close>

record pnode =
  n_packet :: packet
  n_next :: ptr

record pqueue =
  q_packets :: ptr
  q_last :: ptr
  q_nodes :: "nat \<Rightarrow> pnode option"

text \<open>The end of the loop in the server's \<open>check_packet\<close>: the packet at \<open>Ptr i 0\<close> is linked in.\<close>

definition link_packet :: "pqueue \<Rightarrow> nat \<Rightarrow> packet \<Rightarrow> fault + pqueue" where
  "link_packet q i pk =
     (let node = \<lparr>n_packet = pk, n_next = Null\<rparr> in
      if q_packets q = Null then
        Inr (q\<lparr>q_packets := Ptr i 0, q_last := Ptr i 0, q_nodes := (q_nodes q)(i \<mapsto> node)\<rparr>)
      else
        (case struct_at (q_nodes q) (q_last q) of
           Inl e \<Rightarrow> Inl e
         | Inr (j, n) \<Rightarrow>
             Inr (q\<lparr>q_last := Ptr i 0, q_nodes := (q_nodes q)(j \<mapsto> n\<lparr>n_next := Ptr i 0\<rparr>, i \<mapsto> node)\<rparr>)))"

text \<open>
  The start of the inner loop of the server's \<open>worker\<close>: \<open>packets\<close> is set to the next packet, and
  \<open>last\<close> to null with it. The packet is not freed.
\<close>

definition unlink_packet :: "pqueue \<Rightarrow> fault + (packet \<times> pqueue)" where
  "unlink_packet q =
     (case struct_at (q_nodes q) (q_packets q) of
        Inl e \<Rightarrow> Inl e
      | Inr (i, n) \<Rightarrow>
          Inr (n_packet n, q\<lparr>q_packets := n_next n, q_last := (if n_next n = Null then Null else q_last q)\<rparr>))"

text \<open>The end of the client's \<open>check_packet\<close>: the packet is put in front.\<close>

definition push_packet :: "pqueue \<Rightarrow> nat \<Rightarrow> packet \<Rightarrow> pqueue" where
  "push_packet q i pk =
     q\<lparr>q_packets := Ptr i 0, q_nodes := (q_nodes q)(i \<mapsto> \<lparr>n_packet = pk, n_next = q_packets q\<rparr>)\<rparr>"

text \<open>The loop of both \<open>close\<close> functions: every packet that is still linked is freed.\<close>

definition free_step :: "ptr \<times> pqueue \<Rightarrow> (bool \<times> (ptr \<times> pqueue)) cmd" where
  "free_step x =
     (case x of (packet, q) \<Rightarrow>
        if packet = Null then ret (False, x)
        else
          bind (lift_fault (struct_at (q_nodes q) packet)) (\<lambda>(i, n).
          bind (excom_free packet) (\<lambda>_. ret (True, n_next n, q\<lparr>q_nodes := (q_nodes q)(i := None)\<rparr>))))"

definition free_packets :: "pqueue \<Rightarrow> pqueue cmd" where
  "free_packets q = bind (loop free_step (q_packets q, q)) (\<lambda>(_, q). ret q)"

section \<open>Chains\<close>

text \<open>\<open>chain h p is\<close>: the structs linked from \<open>p\<close> on are the blocks \<open>is\<close>.\<close>

primrec chain :: "(nat \<Rightarrow> pnode option) \<Rightarrow> ptr \<Rightarrow> nat list \<Rightarrow> bool" where
  "chain h p [] = (p = Null)"
| "chain h p (i # is) = (p = Ptr i 0 \<and> (\<exists>n. h i = Some n \<and> chain h (n_next n) is))"

lemma chain_upd [simp]: "i \<notin> set is \<Longrightarrow> chain (h(i := x)) p is = chain h p is"
  by (induction "is" arbitrary: p) auto

lemma chain_alloc: "chain h p is \<Longrightarrow> i \<in> set is \<Longrightarrow> h i \<noteq> None"
  by (induction "is" arbitrary: p) auto

lemma chain_Null [simp]: "chain h Null is \<longleftrightarrow> is = []"
  by (cases "is") auto

lemma chain_snoc:
  assumes "chain h p (is @ [j])" and "distinct (is @ [j])" and "h j = Some n" and "i \<notin> set (is @ [j])"
  shows "chain (h(j \<mapsto> n\<lparr>n_next := Ptr i 0\<rparr>, i \<mapsto> \<lparr>n_packet = pk, n_next = Null\<rparr>)) p (is @ [j, i])"
  using assms by (induction "is" arbitrary: p) auto

text \<open>The packets a queue holds, first to last, and the blocks they lie in.\<close>

definition queue_blocks :: "pqueue \<Rightarrow> nat list \<Rightarrow> bool" where
  "queue_blocks q is \<longleftrightarrow> chain (q_nodes q) (q_packets q) is \<and> distinct is \<and>
     (is \<noteq> [] \<longrightarrow> q_last q = Ptr (last is) 0)"

definition queue_holds :: "pqueue \<Rightarrow> packet list \<Rightarrow> bool" where
  "queue_holds q pks \<longleftrightarrow> (\<exists>is. queue_blocks q is \<and> pks = map (\<lambda>i. n_packet (the (q_nodes q i))) is)"

lemma queue_empty_iff: "queue_holds q pks \<Longrightarrow> q_packets q = Null \<longleftrightarrow> pks = []"
  by (cases pks) (auto simp: queue_holds_def queue_blocks_def)

lemma link_empty:
  "q_packets q = Null \<Longrightarrow> \<exists>q'. link_packet q i pk = Inr q' \<and> queue_holds q' [pk] \<and>
     q_nodes q' = (q_nodes q)(i \<mapsto> \<lparr>n_packet = pk, n_next = Null\<rparr>)"
  by (auto simp: link_packet_def queue_holds_def queue_blocks_def intro!: exI [of _ "[i]"])

lemma link_more:
  assumes q: "queue_blocks q (is @ [j])" and i: "q_nodes q i = None"
  shows "\<exists>q'. link_packet q i pk = Inr q' \<and>
    queue_holds q' (map (\<lambda>i. n_packet (the (q_nodes q i))) (is @ [j]) @ [pk]) \<and>
    (\<forall>k. q_nodes q' k = None \<longleftrightarrow> q_nodes q k = None \<and> k \<noteq> i)"
proof -
  have c: "chain (q_nodes q) (q_packets q) (is @ [j])" "distinct (is @ [j])" "q_last q = Ptr j 0"
    using q by (simp_all add: queue_blocks_def)
  obtain n where n: "q_nodes q j = Some n" using chain_alloc [OF c(1), of j] by auto
  have new: "i \<notin> set (is @ [j])" using chain_alloc [OF c(1)] i by blast
  have p: "q_packets q \<noteq> Null" using c(1) by auto
  note s = chain_snoc [OF c(1,2) n new, of pk]
  let ?h = "(q_nodes q)(j \<mapsto> n\<lparr>n_next := Ptr i 0\<rparr>, i \<mapsto> \<lparr>n_packet = pk, n_next = Null\<rparr>)"
  let ?q = "q\<lparr>q_last := Ptr i 0, q_nodes := ?h\<rparr>"
  have "map (\<lambda>i. n_packet (the (?h i))) is = map (\<lambda>i. n_packet (the (q_nodes q i))) is"
    using c(2) new by auto
  then have "queue_holds ?q (map (\<lambda>i. n_packet (the (q_nodes q i))) (is @ [j]) @ [pk])"
    unfolding queue_holds_def queue_blocks_def
    using s c(2) new n by (intro exI [of _ "is @ [j, i]"]) auto
  then show ?thesis
    using p n c(3) by (auto simp: link_packet_def struct_at_def)
qed

lemma link_packet_ok:
  assumes "queue_holds q pks" and "q_nodes q i = None"
  shows "\<exists>q'. link_packet q i pk = Inr q' \<and> queue_holds q' (pks @ [pk]) \<and>
    (\<forall>k. q_nodes q' k = None \<longleftrightarrow> q_nodes q k = None \<and> k \<noteq> i)"
proof -
  obtain "is" where q: "queue_blocks q is" "pks = map (\<lambda>i. n_packet (the (q_nodes q i))) is"
    using assms(1) by (auto simp: queue_holds_def)
  show ?thesis
  proof (cases "is" rule: rev_cases)
    case Nil
    then show ?thesis
      using q link_empty [of q i pk] by (auto simp: queue_blocks_def)
  next
    case (snoc xs j)
    then show ?thesis using link_more [OF _ assms(2), of xs j pk] q by simp
  qed
qed

lemma unlink_packet_ok:
  assumes "queue_holds q (pk # pks)"
  shows "\<exists>q'. unlink_packet q = Inr (pk, q') \<and> queue_holds q' pks \<and> q_nodes q' = q_nodes q"
proof -
  obtain i "is" where q: "queue_blocks q (i # is)" "pk = n_packet (the (q_nodes q i))"
      "pks = map (\<lambda>i. n_packet (the (q_nodes q i))) is"
    using assms by (auto simp: queue_holds_def Cons_eq_map_conv)
  obtain n where n: "q_nodes q i = Some n" "q_packets q = Ptr i 0" "chain (q_nodes q) (n_next n) is"
    using q(1) by (auto simp: queue_blocks_def)
  have "is \<noteq> [] \<Longrightarrow> n_next n \<noteq> Null" using n(3) by (cases "is") auto
  then have "queue_blocks (q\<lparr>q_packets := n_next n, q_last := (if n_next n = Null then Null else q_last q)\<rparr>) is"
    using q(1) n by (auto simp: queue_blocks_def split: if_splits)
  then show ?thesis
    using q n by (auto simp: unlink_packet_def struct_at_def queue_holds_def)
qed

section \<open>Freeing\<close>

lemma free_packets_wp:
  assumes "chain (q_nodes q) (q_packets q) is" and "distinct is" and "\<forall>i \<in> set is. blocks w i \<noteq> None"
    and "\<And>w' q'. blocks w' = (\<lambda>i. if i \<in> set is then None else blocks w i) \<Longrightarrow> fresh w' = fresh w \<Longrightarrow>
      mframe (set is) w w' \<Longrightarrow> q_nodes q' = (\<lambda>i. if i \<in> set is then None else q_nodes q i) \<Longrightarrow>
      q_packets q' = q_packets q \<Longrightarrow> Q q' w'"
  shows "wp (free_packets q) Q w"
proof -
  have "wp (loop free_step (p, q)) (\<lambda>(p', q') w'. blocks w' = (\<lambda>i. if i \<in> set is then None else blocks w i) \<and>
      fresh w' = fresh w \<and> mframe (set is) w w' \<and> q_nodes q' = (\<lambda>i. if i \<in> set is then None else q_nodes q i) \<and> q_packets q' = q_packets q) w"
    if "chain (q_nodes q) p is" "distinct is" "\<forall>i \<in> set is. blocks w i \<noteq> None" for p q "is" w
    using that
  proof (induction "is" arbitrary: p q w)
    case Nil
    then show ?case by (intro loop_step_wp) (simp add: free_step_def)
  next
    case (Cons i "is")
    then obtain n where n: "q_nodes q i = Some n" "p = Ptr i 0" "chain (q_nodes q) (n_next n) is" by auto
    let ?q = "q\<lparr>q_nodes := (q_nodes q)(i := None)\<rparr>"
    have c: "chain (q_nodes ?q) (n_next n) is" "distinct is" using n Cons.prems(2) by simp_all
    show ?case
      unfolding n(2)
    proof (rule loop_step_wp, simp add: free_step_def struct_at_def n(1), rule free_wp [OF refl], goal_cases)
      case 1
      then show ?case using Cons.prems(3) by simp
    next
      case (2 w')
      have b: "\<forall>i \<in> set is. blocks w' i \<noteq> None" using 2 Cons.prems(2,3) by auto
      show ?case
        by (rule wp_mono [OF Cons.IH [OF c b]])
           (use 2 Cons.prems(2) in \<open>auto simp: fun_eq_iff elim!: mframe_trans\<close>)
    qed
  qed
  from this [OF assms(1-3)] show ?thesis
    unfolding free_packets_def wp_bind by (rule wp_mono) (auto intro: assms(4))
qed

section \<open>First in, first out\<close>

text \<open>\<open>n\<close> calls of the reader, which hands each packet to nobody else.\<close>

primrec take_all :: "('q \<Rightarrow> fault + (packet \<times> 'q)) \<Rightarrow> nat \<Rightarrow> 'q \<Rightarrow> fault + (packet list \<times> 'q)" where
  "take_all deq 0 q = Inr ([], q)"
| "take_all deq (Suc n) q =
     (case deq q of Inl e \<Rightarrow> Inl e
      | Inr (pk, q) \<Rightarrow> (case take_all deq n q of Inl e \<Rightarrow> Inl e | Inr (pks, q) \<Rightarrow> Inr (pk # pks, q)))"

primrec put_packets :: "('q \<Rightarrow> nat \<Rightarrow> packet \<Rightarrow> fault + 'q) \<Rightarrow> 'q \<Rightarrow> (nat \<times> packet) list \<Rightarrow> fault + 'q" where
  "put_packets enq q [] = Inr q"
| "put_packets enq q (x # xs) =
     (case enq q (fst x) (snd x) of Inl e \<Rightarrow> Inl e | Inr q \<Rightarrow> put_packets enq q xs)"

locale packet_fifo =
  fixes holds :: "'q \<Rightarrow> packet list \<Rightarrow> bool" and free_at :: "'q \<Rightarrow> nat \<Rightarrow> bool"
    and enq :: "'q \<Rightarrow> nat \<Rightarrow> packet \<Rightarrow> fault + 'q" and deq :: "'q \<Rightarrow> fault + (packet \<times> 'q)"
  assumes enq: "holds q pks \<Longrightarrow> free_at q i \<Longrightarrow>
      \<exists>q'. enq q i pk = Inr q' \<and> holds q' (pks @ [pk]) \<and> (\<forall>k. k \<noteq> i \<longrightarrow> free_at q k \<longrightarrow> free_at q' k)"
    and deq: "holds q (pk # pks) \<Longrightarrow> \<exists>q'. deq q = Inr (pk, q') \<and> holds q' pks"
begin

lemma put_holds:
  assumes "holds q pks" and "distinct (map fst xs)" and "\<forall>i \<in> fst ` set xs. free_at q i"
  shows "\<exists>q'. put_packets enq q xs = Inr q' \<and> holds q' (pks @ map snd xs)"
  using assms
proof (induction xs arbitrary: q pks)
  case (Cons x xs)
  obtain q1 where q1: "enq q (fst x) (snd x) = Inr q1" "holds q1 (pks @ [snd x])"
      "\<And>k. k \<noteq> fst x \<Longrightarrow> free_at q k \<Longrightarrow> free_at q1 k"
    using enq [OF Cons.prems(1), of "fst x" "snd x"] Cons.prems(3) by auto
  have "\<forall>i \<in> fst ` set xs. free_at q1 i"
  proof
    fix i assume i: "i \<in> fst ` set xs"
    moreover have "fst x \<notin> fst ` set xs" using Cons.prems(2) by simp
    ultimately have "i \<noteq> fst x" by blast
    then show "free_at q1 i" using i Cons.prems(3) by (intro q1(3)) auto
  qed
  from Cons.IH [OF q1(2) _ this] show ?case using q1(1) Cons.prems(2) by auto
qed simp

lemma take_holds:
  assumes "holds q (pks @ rest)"
  shows "\<exists>q'. take_all deq (length pks) q = Inr (pks, q') \<and> holds q' rest"
  using assms
proof (induction pks arbitrary: q)
  case (Cons pk pks)
  then obtain q1 where "deq q = Inr (pk, q1)" "holds q1 (pks @ rest)"
    using deq [of q pk "pks @ rest"] by auto
  with Cons.IH show ?case by fastforce
qed simp

lemma put_take:
  assumes "holds q []" and "distinct (map fst xs)" and "\<forall>i \<in> fst ` set xs. free_at q i"
  shows "\<exists>q1 q2. put_packets enq q xs = Inr q1 \<and> take_all deq (length xs) q1 = Inr (map snd xs, q2) \<and> holds q2 []"
proof -
  obtain q1 where q1: "put_packets enq q xs = Inr q1" "holds q1 (map snd xs @ [])"
    using put_holds [OF assms] by auto
  from take_holds [OF this(2)] q1(1) show ?thesis by auto
qed

end

interpretation packets: packet_fifo queue_holds "\<lambda>q i. q_nodes q i = None" link_packet unlink_packet
proof
  fix q pks pk and i
  assume "queue_holds q pks" and "q_nodes q i = None"
  from link_packet_ok [OF this, of pk]
  show "\<exists>q'. link_packet q i pk = Inr q' \<and> queue_holds q' (pks @ [pk]) \<and>
      (\<forall>k. k \<noteq> i \<longrightarrow> q_nodes q k = None \<longrightarrow> q_nodes q' k = None)" by auto
next
  fix q pk pks
  assume "queue_holds q (pk # pks)"
  from unlink_packet_ok [OF this]
  show "\<exists>q'. unlink_packet q = Inr (pk, q') \<and> queue_holds q' pks" by auto
qed

end
