(* ===== verification/ServerClient.thy ===== *)
theory ServerClient
  imports Handlers Queue
begin

text \<open>
  One client of the server, \<open>src/excom-server/client.c\<close>: the callbacks the event loop runs
  (connect, read, write, close), the reassembly of packets (\<open>check_packet\<close>) and the worker thread
  that handles them. The constants are those of the epoll backend.

  The mutexes are the bool of theory \<open>Prelude\<close>, so a thread that unlocks one it does not hold
  faults; of the two functions in which this happens there is also the run with mutexes that do not
  check. Where the worker waits for its condition variable, an argument \<open>wait\<close> of the model says
  what the other threads do in the meantime. Printing, and the results the code ignores, are left
  out.
\<close>

section \<open>Events\<close>

abbreviation (input) EVENT_READ :: u32 where "EVENT_READ \<equiv> 0x001"
abbreviation (input) EVENT_WRITE :: u32 where "EVENT_WRITE \<equiv> 0x004"
abbreviation (input) EVENT_ERROR :: u32 where "EVENT_ERROR \<equiv> 0x008"
abbreviation (input) EVENT_CLOSE :: u32 where "EVENT_CLOSE \<equiv> 0x2010"

text \<open>
  \<open>excom_event_t\<close> as the callbacks see it. Its \<open>root\<close> is null, never set, or the event that is
  registered for the descriptor.
\<close>

datatype event_root = RootNull | RootUnset | RootRegistered

record event =
  ev_fd :: int
  ev_flags :: u32
  ev_root :: event_root

definition deref_root :: "event \<Rightarrow> unit cmd" where
  "deref_root ev =
     (case ev_root ev of RootNull \<Rightarrow> fail NullDeref | RootUnset \<Rightarrow> fail BadMember | RootRegistered \<Rightarrow> ret ())"

section \<open>State\<close>

record client_data = conn +
  cd_queue :: pqueue
  cd_mutex :: mutex
  cd_disconnected :: bool
  cd_in :: buffer
  cd_enc :: buffer

text \<open>
  \<open>excom_server_client_t\<close>: its descriptor, the flags of its registered event, its data with the
  block the struct lies in, the flags of the successive calls of \<open>excom_event_update\<close>, whether
  \<open>excom_event_remove\<close> was called, and how often its descriptor was closed.
\<close>

record server_client =
  sc_fd :: int
  sc_flags :: u32
  sc_data :: "(ptr \<times> client_data) option"
  sc_updates :: "u32 list"
  sc_removed :: bool
  sc_closed :: nat

text \<open>\<open>client_data\<close>, the macro that reads \<open>client->data\<close>.\<close>

definition with_data ::
    "server_client \<Rightarrow> (client_data \<Rightarrow> client_data cmd) \<Rightarrow> server_client cmd" where
  "with_data c f =
     (case sc_data c of None \<Rightarrow> fail NullDeref
      | Some (p, d) \<Rightarrow> bind (f d) (\<lambda>d. ret (c\<lparr>sc_data := Some (p, d)\<rparr>)))"

section \<open>Connecting\<close>

definition empty_queue :: pqueue where
  "empty_queue = \<lparr>q_packets = Null, q_last = Null, q_nodes = (\<lambda>_. None)\<rparr>"

text \<open>
  \<open>sz\<close> is \<open>sizeof(client_data_t)\<close>, \<open>pair\<close> the server's pair of keys \<open>server->enc\<close>. The thread that is
  started at the end runs \<open>worker\<close>; what starting it allocates is in theory \<open>Thread\<close>.
\<close>

definition excom_server_client_connect ::
    "sodium \<Rightarrow> size_t \<Rightarrow> encrypt_pair \<Rightarrow> server_client \<Rightarrow> server_client cmd" where
  "excom_server_client_connect S sz pair client =
     bind (excom_malloc sz) (\<lambda>p.
     if p = Null then fail NullDeref
     else
       bind (excom_buffer_init raw_buffer 16) (\<lambda>(_, inb).
       bind (excom_buffer_init raw_buffer 16) (\<lambda>(_, out).
       bind (excom_buffer_init raw_buffer 16) (\<lambda>(_, enc).
       bind mutex_init (\<lambda>_.
       ret (client\<lparr>sc_data := Some (p,
         \<lparr>c_state = STATE_PREHANDSHAKE, c_keys = (excom_encrypt_init S)\<lparr>e_local := Some pair\<rparr>, c_out = out,
          cd_queue = empty_queue, cd_mutex = False, cd_disconnected = False, cd_in = inb, cd_enc = enc\<rparr>)\<rparr>))))))"

section \<open>Reassembling packets\<close>

text \<open>\<open>sizeof(excom_packet_t)\<close> on a 64-bit host, and a struct that was not filled yet.\<close>

definition sizeof_packet :: size_t where
  "sizeof_packet = 56"

definition raw_packet :: packet where
  "raw_packet = \<lparr>pk_size = 0, pk_id = 0, pk_type = 0, pk_data = []\<rparr>"

text \<open>
  One round of the loop of \<open>check_packet\<close>. The size in the header is read and compared, in 32 bits,
  with what is pending; \<open>in.mutex\<close> is left locked when the packet is not complete.
\<close>

definition check_step :: "sodium \<Rightarrow> client_data \<Rightarrow> (bool \<times> client_data) cmd" where
  "check_step S d =
     (if \<not> 4 < excom_buffer_remaining (cd_in d) then ret (False, d)
      else
        bind (lock_buffer (cd_in d)) (\<lambda>inb.
        bind (asks little) (\<lambda>le.
        bind (unpack_at (excom_protocol_unpack_uint32_t le) (ptr_add (b_buf inb) (unat (b_pos inb)))) (\<lambda>(_, sz).
        if excom_buffer_remaining inb < ucast (4 + sz) then ret (False, d\<lparr>cd_in := inb\<rparr>)
        else
          bind (excom_malloc sizeof_packet) (\<lambda>p.
          if p = Null then fail NullDeref
          else
            bind (excom_protocol_read_packet S raw_packet inb (Some (c_keys d))) (\<lambda>(err, packet, inb, keys).
            bind (unlock_buffer inb) (\<lambda>inb.
            let d = d\<lparr>cd_in := inb, c_keys := the keys\<rparr> in
            if err \<noteq> 0 then bind (excom_free p) (\<lambda>_. ret (False, d))
            else
              bind (lift_fault (case p of Ptr i _ \<Rightarrow> link_packet (cd_queue d) i packet | _ \<Rightarrow> Inl NullDeref)) (\<lambda>q.
              ret (True, d\<lparr>cd_queue := q\<rparr>)))))))))"

text \<open>
  \<open>check_packet\<close> unlocks the mutex of the input after the loop, also when it is not locked. POSIX
  leaves that undefined, which is a fault here (\<open>Checked\<close>). The default mutexes of Linux, which are
  what \<open>pthread_mutex_init(mutex, NULL)\<close> gives there, are documented not to check: unlocking one leaves it
  unlocked (\<open>Fast\<close>).
\<close>

datatype mutex_kind = Checked | Fast

definition unlock_on :: "mutex_kind \<Rightarrow> mutex \<Rightarrow> mutex cmd" where
  "unlock_on kind m = (case kind of Checked \<Rightarrow> mutex_unlock m | Fast \<Rightarrow> ret False)"

lemma unlock_on_simps [simp]:
  "unlock_on Checked m = mutex_unlock m" "unlock_on Fast m = ret False" "unlock_on kind True = ret False"
  by (simp_all add: unlock_on_def split: mutex_kind.split)

definition check_packet_on :: "mutex_kind \<Rightarrow> sodium \<Rightarrow> client_data \<Rightarrow> client_data cmd" where
  "check_packet_on kind S d =
     bind (mutex_lock (cd_mutex d)) (\<lambda>m.
     bind (loop (check_step S) (d\<lparr>cd_mutex := m\<rparr>)) (\<lambda>d.
     bind (unlock_on kind (b_mutex (cd_in d))) (\<lambda>mi.
     bind (unlock_on kind (cd_mutex d)) (\<lambda>m.
     ret (d\<lparr>cd_in := (cd_in d)\<lparr>b_mutex := mi\<rparr>, cd_mutex := m\<rparr>)))))"

definition check_packet :: "sodium \<Rightarrow> client_data \<Rightarrow> client_data cmd" where
  "check_packet S d = check_packet_on Checked S d"

section \<open>Closing\<close>

text \<open>
  The worker is joined before the struct is freed. \<open>event.root\<close> is what is removed from the event
  base.
\<close>

definition excom_server_client_close :: "event \<Rightarrow> server_client \<Rightarrow> server_client cmd" where
  "excom_server_client_close ev client =
     (case sc_data client of
        None \<Rightarrow> ret client
      | Some (p, d) \<Rightarrow>
          if cd_disconnected d then ret client
          else
            bind (excom_buffer_destroy (cd_in d)) (\<lambda>_.
            bind (excom_buffer_destroy (c_out d)) (\<lambda>_.
            bind (mutex_lock (cd_mutex d)) (\<lambda>m.
            bind (free_packets (cd_queue d)) (\<lambda>_.
            bind (mutex_unlock m) (\<lambda>_.
            bind (excom_free p) (\<lambda>_.
            bind (deref_root ev) (\<lambda>_.
            ret (client\<lparr>sc_data := None, sc_removed := True\<rparr>)))))))))"

section \<open>Reading and writing\<close>

text \<open>
  The loop of \<open>excom_server_client_read\<close>: \<open>err\<close> is the local variable, the third component whether
  the function has returned.
\<close>

definition read_step :: "event \<Rightarrow> int \<times> server_client \<times> bool \<Rightarrow> (bool \<times> int \<times> server_client \<times> bool) cmd" where
  "read_step ev x =
     (case x of (err, client, done) \<Rightarrow>
        case sc_data client of
          None \<Rightarrow> ret (False, x)
        | Some (p, d) \<Rightarrow>
            if err \<noteq> 0 \<or> cd_disconnected d then ret (False, x)
            else
              bind (sys_read 32) (\<lambda>out.
              case out of
                Inl _ \<Rightarrow> bind (asks errno) (\<lambda>err. ret (True, err, client, done))
              | Inr buf \<Rightarrow>
                  if buf \<noteq> [] then
                    bind (excom_buffer_cappend (cd_in d) (Lit buf) (of_nat (length buf))) (\<lambda>(_, inb).
                    ret (True, err, client\<lparr>sc_data := Some (p, d\<lparr>cd_in := inb\<rparr>)\<rparr>, done))
                  else
                    bind (excom_server_client_close ev client) (\<lambda>client.
                    ret (False, err, client\<lparr>sc_closed := Suc (sc_closed client)\<rparr>, True))))"

definition excom_server_client_read_on :: "mutex_kind \<Rightarrow> sodium \<Rightarrow> event \<Rightarrow> server_client \<Rightarrow> server_client cmd" where
  "excom_server_client_read_on kind S ev client =
     bind (set_errno 0) (\<lambda>_.
     bind (loop (read_step ev) (0, client, False)) (\<lambda>(err, client, done).
     if \<not> done \<and> err = EAGAIN then with_data client (check_packet_on kind S) else ret client))"

definition excom_server_client_read :: "sodium \<Rightarrow> event \<Rightarrow> server_client \<Rightarrow> server_client cmd" where
  "excom_server_client_read S ev client = excom_server_client_read_on Checked S ev client"

lemma check_packet_eq: "check_packet S = check_packet_on Checked S"
  by (simp add: check_packet_def fun_eq_iff)

lemma excom_server_client_read_eq:
  "excom_server_client_read S ev client =
     bind (set_errno 0) (\<lambda>_.
     bind (loop (read_step ev) (0, client, False)) (\<lambda>(err, client, done).
     if \<not> done \<and> err = EAGAIN then with_data client (check_packet S) else ret client))"
  unfolding excom_server_client_read_def excom_server_client_read_on_def check_packet_eq ..

text \<open>\<open>excom_event_update\<close> on the client's event, after its flags were set.\<close>

definition update_event :: "server_client \<Rightarrow> u32 \<Rightarrow> server_client" where
  "update_event client fl = client\<lparr>sc_flags := fl, sc_updates := sc_updates client @ [fl]\<rparr>"

definition excom_server_client_write :: "event \<Rightarrow> server_client \<Rightarrow> server_client cmd" where
  "excom_server_client_write ev client =
     (case sc_data client of
        None \<Rightarrow> ret client
      | Some (p, d) \<Rightarrow>
          if cd_disconnected d then ret client
          else
            bind (excom_buffer_write (c_out d) (sc_fd client)) (\<lambda>(err, out).
            let client = client\<lparr>sc_data := Some (p, d\<lparr>c_out := out\<rparr>)\<rparr> in
            if err = EAGAIN \<and> xor (ev_flags ev) EVENT_WRITE = 0 then
              bind (deref_root ev) (\<lambda>_. ret (update_event client (or (sc_flags client) EVENT_WRITE)))
            else if err = 0 \<and> and (ev_flags ev) EVENT_WRITE \<noteq> 0 then
              bind (deref_root ev) (\<lambda>_. ret (update_event client (xor (sc_flags client) EVENT_WRITE)))
            else ret client))"

section \<open>The worker\<close>

text \<open>
  One round of the inner loop: the packet is unlinked, handled, and the client's event asks to
  write. The local variable \<open>packet\<close> equals \<open>client_data->packets\<close> at the start of each round.
\<close>

definition drain_step :: "sodium \<Rightarrow> server_client \<Rightarrow> (bool \<times> server_client) cmd" where
  "drain_step S client =
     (case sc_data client of
        None \<Rightarrow> fail NullDeref
      | Some (p, d) \<Rightarrow>
          if q_packets (cd_queue d) = Null then ret (False, client)
          else
            bind (lift_fault (unlink_packet (cd_queue d))) (\<lambda>(packet, q).
            bind (server_handle_packet S (d\<lparr>cd_queue := q\<rparr>) packet) (\<lambda>d.
            ret (True, update_event (client\<lparr>sc_data := Some (p, d)\<rparr>) (or (sc_flags client) EVENT_WRITE)))))"

text \<open>
  One round of the outer loop. There is no loop around the wait, and a round that ends the worker
  leaves the mutex locked.
\<close>

definition worker_step ::
    "sodium \<Rightarrow> (server_client \<Rightarrow> server_client cmd) \<Rightarrow> server_client \<Rightarrow> (bool \<times> server_client) cmd" where
  "worker_step S wait client =
     bind (with_data client (\<lambda>d. bind (mutex_lock (cd_mutex d)) (\<lambda>m. ret (d\<lparr>cd_mutex := m\<rparr>)))) (\<lambda>client.
     bind (case sc_data client of
         None \<Rightarrow> fail NullDeref
       | Some (p, d) \<Rightarrow>
           if q_packets (cd_queue d) = Null then
             bind (with_data client (\<lambda>d. bind (mutex_unlock (cd_mutex d)) (\<lambda>m. ret (d\<lparr>cd_mutex := m\<rparr>)))) (\<lambda>client.
             bind (wait client) (\<lambda>client.
             with_data client (\<lambda>d. bind (mutex_lock (cd_mutex d)) (\<lambda>m. ret (d\<lparr>cd_mutex := m\<rparr>)))))
           else ret client) (\<lambda>client.
     case sc_data client of
       None \<Rightarrow> fail NullDeref
     | Some (p, d) \<Rightarrow>
         if cd_disconnected d then ret (False, client)
         else
           bind (with_data client (\<lambda>d. bind (mutex_unlock (cd_mutex d)) (\<lambda>m. ret (d\<lparr>cd_mutex := m\<rparr>)))) (\<lambda>client.
           bind (loop (drain_step S) client) (\<lambda>client. ret (True, client)))))"

definition worker ::
    "sodium \<Rightarrow> (server_client \<Rightarrow> server_client cmd) \<Rightarrow> server_client \<Rightarrow> server_client cmd" where
  "worker S wait client = loop (worker_step S wait) client"

end
