(* ===== verification/Epoll.thy ===== *)
theory Epoll
  imports Loop
begin

text \<open>
  The \<open>epoll\<close> backend of the event loop, \<open>src/excom/event/epoll.c\<close>, with the system calls that it,
  the server and the client make. The kernel is an argument: a record of functions on a state of its own, each
  giving an error number or a result. A call that fails sets \<open>errno\<close>.
\<close>

section \<open>System calls\<close>

datatype epoll_op = EPOLL_CTL_ADD | EPOLL_CTL_DEL | EPOLL_CTL_MOD

text \<open>
  \<open>'e\<close> are the pointers to events. \<open>k_wait\<close> gets the epoll descriptor, the most events it may report
  and the timeout; what it reports are the flags and the pointer of each ready event.
\<close>

record ('k, 'e) kernel =
  k_create :: "'k \<Rightarrow> (int + int) \<times> 'k"
  k_ctl :: "epoll_op \<Rightarrow> int \<Rightarrow> int \<Rightarrow> (u32 \<times> 'e) option \<Rightarrow> 'k \<Rightarrow> (int + unit) \<times> 'k"
  k_wait :: "int \<Rightarrow> int \<Rightarrow> int \<Rightarrow> 'k \<Rightarrow> (int + (u32 \<times> 'e) list) \<times> 'k"
  k_socket :: "'k \<Rightarrow> (int + int) \<times> 'k"
  k_bind :: "int \<Rightarrow> u16 \<Rightarrow> u32 \<Rightarrow> 'k \<Rightarrow> (int + unit) \<times> 'k"
  k_listen :: "int \<Rightarrow> 'k \<Rightarrow> (int + unit) \<times> 'k"
  k_keepalive :: "int \<Rightarrow> 'k \<Rightarrow> (int + unit) \<times> 'k"
  k_accept :: "int \<Rightarrow> 'k \<Rightarrow> (int + int) \<times> 'k"
  k_getfl :: "int \<Rightarrow> 'k \<Rightarrow> (int + u32) \<times> 'k"
  k_setfl :: "int \<Rightarrow> u32 \<Rightarrow> 'k \<Rightarrow> (int + unit) \<times> 'k"
  k_close :: "int \<Rightarrow> 'k \<Rightarrow> (int + unit) \<times> 'k"
  k_gethost :: "byte list \<Rightarrow> 'k \<Rightarrow> u32 option \<times> 'k"
  k_connect :: "int \<Rightarrow> u32 \<Rightarrow> u16 \<Rightarrow> 'k \<Rightarrow> (int + unit) \<times> 'k"

text \<open>The base, with the state of the kernel; the structs that contain a base extend the record.\<close>

record 'k epoll_base =
  ep_loop :: bool
  ep_epollfd :: int
  ep_timeout :: int
  ep_maxevents :: int
  ep_kernel :: 'k

definition syscall ::
    "('k \<Rightarrow> (int + 'r) \<times> 'k) \<Rightarrow> ('k, 'a) epoll_base_scheme \<Rightarrow> ((int + 'r) \<times> ('k, 'a) epoll_base_scheme) cmd" where
  "syscall f base =
     (case f (ep_kernel base) of
        (Inl e, k) \<Rightarrow> bind (set_errno e) (\<lambda>_. ret (Inl e, base\<lparr>ep_kernel := k\<rparr>))
      | (Inr x, k) \<Rightarrow> ret (Inr x, base\<lparr>ep_kernel := k\<rparr>))"

section \<open>The backend\<close>

definition excom_event_base_epoll_init ::
    "('k, 'e) kernel \<Rightarrow> ('k, 'a) epoll_base_scheme \<Rightarrow> (int \<times> ('k, 'a) epoll_base_scheme) cmd" where
  "excom_event_base_epoll_init K base =
     bind (syscall (k_create K) (base\<lparr>ep_loop := True\<rparr>)) (\<lambda>(r, base).
     let fd = (case r of Inl _ \<Rightarrow> - 1 | Inr fd \<Rightarrow> fd);
         base = base\<lparr>ep_epollfd := fd, ep_timeout := 500, ep_maxevents := 32\<rparr> in
     if fd < 1 then bind excom_return_errno (\<lambda>err. ret (err, base)) else ret (0, base))"

text \<open>The three calls of \<open>epoll_ctl\<close> and the handling of their result.\<close>

definition epoll_ctl ::
    "('k, 'e) kernel \<Rightarrow> epoll_op \<Rightarrow> ('k, 'a) epoll_base_scheme \<Rightarrow> int \<Rightarrow> (u32 \<times> 'e) option \<Rightarrow>
       (int \<times> ('k, 'a) epoll_base_scheme) cmd" where
  "epoll_ctl K op base fd ev =
     bind (syscall (k_ctl K op (ep_epollfd base) fd ev) base) (\<lambda>(r, base).
     case r of
       Inl _ \<Rightarrow> bind excom_return_errno (\<lambda>err. ret (err, base))
     | Inr _ \<Rightarrow> ret (0, base))"

text \<open>An event is given by its pointer \<open>e\<close>, its descriptor and its flags.\<close>

definition excom_event_epoll_update ::
    "('k, 'e) kernel \<Rightarrow> ('k, 'a) epoll_base_scheme \<Rightarrow> 'e \<Rightarrow> int \<Rightarrow> u32 \<Rightarrow> (int \<times> ('k, 'a) epoll_base_scheme) cmd" where
  "excom_event_epoll_update K base e fd flags = epoll_ctl K EPOLL_CTL_MOD base fd (Some (flags, e))"

definition excom_event_epoll_add ::
    "('k, 'e) kernel \<Rightarrow> ('k, 'a) epoll_base_scheme \<Rightarrow> 'e \<Rightarrow> int \<Rightarrow> u32 \<Rightarrow> (int \<times> ('k, 'a) epoll_base_scheme) cmd" where
  "excom_event_epoll_add K base e fd flags = epoll_ctl K EPOLL_CTL_ADD base fd (Some (flags, e))"

definition excom_event_epoll_remove ::
    "('k, 'e) kernel \<Rightarrow> ('k, 'a) epoll_base_scheme \<Rightarrow> int \<Rightarrow> (int \<times> ('k, 'a) epoll_base_scheme) cmd" where
  "excom_event_epoll_remove K base fd = epoll_ctl K EPOLL_CTL_DEL base fd None"

text \<open>
  The loop. \<open>at\<close> reads the descriptor and the data of the event at a pointer, \<open>run\<close> is the runner: it
  gets the event (root, descriptor, data and flags).
\<close>

primrec epoll_dispatch ::
    "('s \<Rightarrow> 'e \<Rightarrow> fault + (int \<times> 'd)) \<Rightarrow> ('e \<Rightarrow> int \<Rightarrow> 'd \<Rightarrow> u32 \<Rightarrow> 's \<Rightarrow> 's cmd) \<Rightarrow> (u32 \<times> 'e) list \<Rightarrow> 's \<Rightarrow> 's cmd" where
  "epoll_dispatch at run [] s = ret s"
| "epoll_dispatch at run (ev # evs) s =
     bind (lift_fault (at s (snd ev))) (\<lambda>(fd, data).
     bind (run (snd ev) fd data (fst ev) s) (\<lambda>s.
     epoll_dispatch at run evs s))"

definition epoll_loop_step ::
    "('k, 'e) kernel \<Rightarrow> (('k, 'a) epoll_base_scheme \<Rightarrow> 'e \<Rightarrow> fault + (int \<times> 'd)) \<Rightarrow>
      ('e \<Rightarrow> int \<Rightarrow> 'd \<Rightarrow> u32 \<Rightarrow> ('k, 'a) epoll_base_scheme \<Rightarrow> ('k, 'a) epoll_base_scheme cmd) \<Rightarrow>
      ('k, 'a) epoll_base_scheme \<Rightarrow> (bool \<times> ('k, 'a) epoll_base_scheme) cmd" where
  "epoll_loop_step K at run base =
     (if \<not> ep_loop base then ret (False, base)
      else
        bind (syscall (k_wait K (ep_epollfd base) (ep_maxevents base) (ep_timeout base)) base) (\<lambda>(r, base).
        case r of
          Inl e \<Rightarrow> ret (True, if e = EINTR then base\<lparr>ep_loop := False\<rparr> else base)
        | Inr events \<Rightarrow> bind (epoll_dispatch at run events base) (\<lambda>base. ret (True, base))))"

definition excom_event_epoll_loop ::
    "('k, 'e) kernel \<Rightarrow> (('k, 'a) epoll_base_scheme \<Rightarrow> 'e \<Rightarrow> fault + (int \<times> 'd)) \<Rightarrow>
      ('e \<Rightarrow> int \<Rightarrow> 'd \<Rightarrow> u32 \<Rightarrow> ('k, 'a) epoll_base_scheme \<Rightarrow> ('k, 'a) epoll_base_scheme cmd) \<Rightarrow>
      ('k, 'a) epoll_base_scheme \<Rightarrow> ('k, 'a) epoll_base_scheme cmd" where
  "excom_event_epoll_loop K at run base = loop (epoll_loop_step K at run) base"

definition excom_event_epoll_loop_end :: "('k, 'a) epoll_base_scheme \<Rightarrow> ('k, 'a) epoll_base_scheme" where
  "excom_event_epoll_loop_end base = base\<lparr>ep_loop := False\<rparr>"

end
