(* ===== verification/Server.thy ===== *)
theory Server
  imports ServerClient Epoll
begin

text \<open>
  The server, \<open>src/excom/server.c\<close> and \<open>inc/excom/server.h\<close>, on the epoll backend: binding, accepting
  clients, the runner of its event loop, the list of clients, and shutting down.
\<close>

section \<open>State\<close>

text \<open>
  \<open>excom_server_client_t\<close> with its place in the list; the struct is a malloc block. Its event is its
  first field.
\<close>

record server_node =
  sn_client :: server_client
  sn_prev :: ptr
  sn_next :: ptr

datatype event_ptr = ListenEvent | ClientEvent nat

text \<open>\<open>sv_listen\<close> is the descriptor in the local event of \<open>excom_server_run\<close>.\<close>

record 'k server = "'k epoll_base" +
  sv_sock :: int
  sv_port :: u16
  sv_addr :: u32
  sv_enc :: encrypt_pair
  sv_clients :: ptr
  sv_nodes :: "nat \<Rightarrow> server_node option"
  sv_listen :: int

abbreviation (input) O_NONBLOCK :: u32 where "O_NONBLOCK \<equiv> 0x800"
abbreviation (input) EVENT_LISTEN :: u32 where "EVENT_LISTEN \<equiv> 0x2019"

definition excom_server_init :: "'k server \<Rightarrow> 'k server" where
  "excom_server_init server = server\<lparr>sv_sock := - 1, sv_addr := 0, sv_port := 5656, sv_clients := Null\<rparr>"

section \<open>Binding\<close>

text \<open>The macro \<open>ERROR_CHECK\<close> on the result of a system call; \<open>go\<close> is the rest of the function.\<close>

definition ERROR_CHECK :: "int + 'r \<Rightarrow> 's \<Rightarrow> ('r \<Rightarrow> (int \<times> 's) cmd) \<Rightarrow> (int \<times> 's) cmd" where
  "ERROR_CHECK r s go =
     (case r of Inl _ \<Rightarrow> bind excom_return_errno (\<lambda>err. ret (err, s)) | Inr x \<Rightarrow> go x)"

definition socket_non_blocking ::
    "('k, 'e) kernel \<Rightarrow> int \<Rightarrow> ('k, 'a) epoll_base_scheme \<Rightarrow> (int \<times> ('k, 'a) epoll_base_scheme) cmd" where
  "socket_non_blocking K fd s =
     bind (syscall (k_getfl K fd) s) (\<lambda>(r, s).
     ERROR_CHECK r s (\<lambda>flags.
     bind (syscall (k_setfl K fd (or flags O_NONBLOCK)) s) (\<lambda>(r, s).
     ERROR_CHECK r s (\<lambda>_. ret (0, s)))))"

text \<open>The last \<open>ERROR_CHECK\<close> tests what \<open>socket_non_blocking\<close> returned for being negative.\<close>

definition excom_server_bind :: "('k, 'e) kernel \<Rightarrow> 'k server \<Rightarrow> (int \<times> 'k server) cmd" where
  "excom_server_bind K server =
     bind (syscall (k_socket K) server) (\<lambda>(r, server).
     let server = server\<lparr>sv_sock := (case r of Inl _ \<Rightarrow> - 1 | Inr fd \<Rightarrow> fd)\<rparr> in
     ERROR_CHECK r server (\<lambda>sock.
     bind (syscall (k_bind K sock (sv_port server) (sv_addr server)) server) (\<lambda>(r, server).
     ERROR_CHECK r server (\<lambda>_.
     bind (syscall (k_listen K sock) server) (\<lambda>(r, server).
     ERROR_CHECK r server (\<lambda>_.
     bind (syscall (k_keepalive K sock) server) (\<lambda>(_, server).
     bind (socket_non_blocking K sock server) (\<lambda>(err, server).
     if err < 0 then bind excom_return_errno (\<lambda>err. ret (err, server)) else ret (0, server)))))))))"

section \<open>The list of clients\<close>

text \<open>\<open>_accept\<close> before it connects the client in block \<open>i\<close>, and after.\<close>

definition link_prev ::
    "nat \<Rightarrow> server_client \<Rightarrow> ptr \<times> (nat \<Rightarrow> server_node option) \<Rightarrow> fault + (nat \<Rightarrow> server_node option)" where
  "link_prev i c x =
     (case x of (clients, h) \<Rightarrow>
        let h = h(i \<mapsto> \<lparr>sn_client = c, sn_prev = clients, sn_next = Null\<rparr>) in
        if clients \<noteq> Null then set_struct clients (sn_next_update (\<lambda>_. Ptr i 0)) h else Inr h)"

definition link_next ::
    "nat \<Rightarrow> ptr \<times> (nat \<Rightarrow> server_node option) \<Rightarrow> fault + (ptr \<times> (nat \<Rightarrow> server_node option))" where
  "link_next i x =
     (case x of (clients, h) \<Rightarrow>
        andthen (set_struct (Ptr i 0) (sn_next_update (\<lambda>_. clients)) h) (\<lambda>h. Inr (Ptr i 0, h)))"

text \<open>\<open>_disconnect\<close> on the client at \<open>p\<close>, up to freeing it.\<close>

definition unlink_client ::
    "ptr \<Rightarrow> ptr \<times> (nat \<Rightarrow> server_node option) \<Rightarrow> fault + (ptr \<times> (nat \<Rightarrow> server_node option))" where
  "unlink_client p x =
     (case x of (clients, h) \<Rightarrow>
        andthen (struct_at h p) (\<lambda>(i, n).
        let clients = (if clients = p then sn_next n else clients) in
        andthen (if sn_prev n \<noteq> Null then set_struct (sn_prev n) (sn_next_update (\<lambda>_. sn_next n)) h else Inr h) (\<lambda>h.
        andthen (struct_at h p) (\<lambda>(i, n).
        andthen (if sn_next n \<noteq> Null then set_struct (sn_next n) (sn_prev_update (\<lambda>_. sn_prev n)) h else Inr h) (\<lambda>h.
        Inr (clients, h))))))"

section \<open>Callbacks\<close>

definition close_fd :: "('k, 'e) kernel \<Rightarrow> int \<Rightarrow> 'k server \<Rightarrow> 'k server cmd" where
  "close_fd K fd server = bind (syscall (k_close K fd) server) (\<lambda>(_, server). ret server)"

text \<open>
  A callback of theory \<open>ServerClient\<close> on the client at \<open>p\<close>. What it did to the event base and to its
  descriptor is recorded in the client, and is done here: the updates of its event in their order,
  its removal, the closes.
\<close>

primrec event_updates ::
    "('k, event_ptr) kernel \<Rightarrow> nat \<Rightarrow> int \<Rightarrow> u32 list \<Rightarrow> 'k server \<Rightarrow> 'k server cmd" where
  "event_updates K i fd [] server = ret server"
| "event_updates K i fd (fl # fls) server =
     bind (excom_event_epoll_update K server (ClientEvent i) fd fl) (\<lambda>(_, server). event_updates K i fd fls server)"

primrec closes :: "('k, 'e) kernel \<Rightarrow> int \<Rightarrow> nat \<Rightarrow> 'k server \<Rightarrow> 'k server cmd" where
  "closes K fd 0 server = ret server"
| "closes K fd (Suc n) server = bind (close_fd K fd server) (closes K fd n)"

definition on_client ::
    "('k, event_ptr) kernel \<Rightarrow> ptr \<Rightarrow> (server_client \<Rightarrow> server_client cmd) \<Rightarrow> 'k server \<Rightarrow> 'k server cmd" where
  "on_client K p f server =
     bind (lift_fault (struct_at (sv_nodes server) p)) (\<lambda>(i, n).
     let c = sn_client n in
     bind (f (c\<lparr>sc_updates := [], sc_removed := False, sc_closed := 0\<rparr>)) (\<lambda>c'.
     bind (event_updates K i (sc_fd c) (sc_updates c')
             (server\<lparr>sv_nodes := (sv_nodes server)(i \<mapsto> n\<lparr>sn_client := c'\<rparr>)\<rparr>)) (\<lambda>server.
     bind (if sc_removed c' then bind (excom_event_epoll_remove K server (sc_fd c)) (\<lambda>(_, server). ret server)
           else ret server) (\<lambda>server.
     closes K (sc_fd c) (sc_closed c') server))))"

text \<open>
  One round of \<open>_accept\<close>. \<open>ssz\<close> and \<open>dsz\<close> are the sizes of \<open>excom_server_client_t\<close> and
  \<open>client_data_t\<close>. The struct comes from \<open>malloc\<close>, so the root of its event is not set; \<open>connect\<close> has
  set \<open>data\<close> before it is read. The call of \<open>excom_server_client_read\<close> passes that event.
\<close>

definition new_client :: "int \<Rightarrow> server_client" where
  "new_client fd = \<lparr>sc_fd = fd, sc_flags = EVENT_LISTEN, sc_data = None, sc_updates = [], sc_removed = False, sc_closed = 0\<rparr>"

definition accept_step ::
    "sodium \<Rightarrow> ('k, event_ptr) kernel \<Rightarrow> size_t \<Rightarrow> size_t \<Rightarrow> int \<Rightarrow> 'k server \<Rightarrow> (bool \<times> 'k server) cmd" where
  "accept_step S K ssz dsz listen server =
     bind (syscall (k_accept K listen) server) (\<lambda>(r, server).
     case r of
       Inl _ \<Rightarrow> ret (False, server)
     | Inr fd \<Rightarrow>
         bind (excom_malloc ssz) (\<lambda>p.
         case p of
           Ptr i _ \<Rightarrow>
             bind (lift_fault (link_prev i (new_client fd) (sv_clients server, sv_nodes server))) (\<lambda>h.
             bind (socket_non_blocking K fd (server\<lparr>sv_nodes := h\<rparr>)) (\<lambda>(err, server).
             if err < 0 then bind (close_fd K fd server) (\<lambda>server. ret (True, server))
             else
               bind (on_client K p (excom_server_client_connect S dsz (sv_enc server)) server) (\<lambda>server.
               bind (excom_event_epoll_add K server (ClientEvent i) fd EVENT_LISTEN) (\<lambda>(_, server).
               bind (lift_fault (link_next i (sv_clients server, sv_nodes server))) (\<lambda>(clients, h).
               bind (on_client K p (excom_server_client_read S \<lparr>ev_fd = fd, ev_flags = EVENT_LISTEN, ev_root = RootUnset\<rparr>)
                       (server\<lparr>sv_clients := clients, sv_nodes := h\<rparr>)) (\<lambda>server.
               ret (True, server)))))))
         | _ \<Rightarrow> fail NullDeref))"

definition server_accept ::
    "sodium \<Rightarrow> ('k, event_ptr) kernel \<Rightarrow> size_t \<Rightarrow> size_t \<Rightarrow> int \<Rightarrow> 'k server \<Rightarrow> 'k server cmd" where
  "server_accept S K ssz dsz listen server = loop (accept_step S K ssz dsz listen) server"

text \<open>\<open>_disconnect\<close>; \<open>data\<close> is the data of the event, a pointer to a client or null.\<close>

definition server_disconnect :: "('k, 'e) kernel \<Rightarrow> int \<Rightarrow> ptr \<Rightarrow> 'k server \<Rightarrow> 'k server cmd" where
  "server_disconnect K fd data server =
     bind (if data = Null then ret server
           else
             bind (lift_fault (unlink_client data (sv_clients server, sv_nodes server))) (\<lambda>(clients, h).
             bind (excom_free data) (\<lambda>_.
             ret (server\<lparr>sv_clients := clients, sv_nodes := (case data of Ptr i _ \<Rightarrow> h(i := None) | _ \<Rightarrow> h)\<rparr>))))
       (close_fd K fd)"

section \<open>The runner\<close>

text \<open>The error on the listening socket is read off with \<open>read(event.fd, NULL, 0)\<close>.\<close>

definition on_event ::
    "sodium \<Rightarrow> ('k, event_ptr) kernel \<Rightarrow> size_t \<Rightarrow> size_t \<Rightarrow> event_ptr \<Rightarrow> int \<Rightarrow> ptr \<Rightarrow> u32 \<Rightarrow> 'k server \<Rightarrow> 'k server cmd" where
  "on_event S K ssz dsz root fd data flags server =
     (let ev = \<lparr>ev_fd = fd, ev_flags = flags, ev_root = RootRegistered\<rparr> in
      if fd = sv_sock server then
        if and flags EVENT_READ \<noteq> 0 then server_accept S K ssz dsz fd server
        else if and flags EVENT_ERROR \<noteq> 0 then
          bind (sys_read 0) (\<lambda>r.
          bind (asks errno) (\<lambda>e.
          bind (if r = Inr [] \<and> e = 0 then set_errno EIO else ret ()) (\<lambda>_.
          ret (excom_event_epoll_loop_end server))))
        else if and flags EVENT_CLOSE \<noteq> 0 then fail Exits
        else ret server
      else
        bind (if and flags EVENT_READ \<noteq> 0 then on_client K data (excom_server_client_read S ev) server else ret server) (\<lambda>server.
        bind (if and flags EVENT_WRITE \<noteq> 0 then on_client K data (excom_server_client_write ev) server else ret server) (\<lambda>server.
        if and flags EVENT_CLOSE \<noteq> 0 then
          bind (on_client K data (excom_server_client_close ev) server) (\<lambda>server.
          server_disconnect K fd data server)
        else ret server)))"

definition event_at :: "'k server \<Rightarrow> event_ptr \<Rightarrow> fault + (int \<times> ptr)" where
  "event_at server e =
     (case e of
        ListenEvent \<Rightarrow> Inr (sv_listen server, Lit [])
      | ClientEvent i \<Rightarrow> andthen (struct_at (sv_nodes server) (Ptr i 0)) (\<lambda>(_, n). Inr (sc_fd (sn_client n), Ptr i 0)))"

definition excom_server_run ::
    "sodium \<Rightarrow> ('k, event_ptr) kernel \<Rightarrow> size_t \<Rightarrow> size_t \<Rightarrow> 'k server \<Rightarrow> (int \<times> 'k server) cmd" where
  "excom_server_run S K ssz dsz server =
     bind (excom_event_base_epoll_init K server) (\<lambda>(err, server).
     if err \<noteq> 0 then bind excom_return_errno (\<lambda>err. ret (err, server))
     else
       bind (excom_event_epoll_add K (server\<lparr>sv_listen := sv_sock server\<rparr>) ListenEvent (sv_sock server) EVENT_LISTEN) (\<lambda>(_, server).
       bind (excom_event_epoll_loop K event_at (on_event S K ssz dsz) server) (\<lambda>server.
       ret (0, server))))"

section \<open>Shutting down\<close>

text \<open>The event \<open>shutdown\<close> has no root, and the server's own descriptor.\<close>

definition destroy_step ::
    "('k, event_ptr) kernel \<Rightarrow> ptr \<times> 'k server \<Rightarrow> (bool \<times> ptr \<times> 'k server) cmd" where
  "destroy_step K x =
     (case x of (client, server) \<Rightarrow>
        if client = Null then ret (False, x)
        else
          bind (lift_fault (struct_at (sv_nodes server) client)) (\<lambda>(i, n).
          let next = sn_next n in
          bind (on_client K client
                 (excom_server_client_close \<lparr>ev_fd = sv_sock server, ev_flags = EVENT_CLOSE, ev_root = RootNull\<rparr>) server) (\<lambda>server.
          bind (server_disconnect K (sv_sock server) client server) (\<lambda>server.
          ret (True, next, server)))))"

definition excom_server_destroy :: "('k, event_ptr) kernel \<Rightarrow> 'k server \<Rightarrow> 'k server cmd" where
  "excom_server_destroy K server =
     bind (loop (destroy_step K) (sv_clients server, server)) (\<lambda>(_, server).
     bind (close_fd K (sv_sock server) (server\<lparr>sv_clients := Null\<rparr>)) (\<lambda>server.
     ret (server\<lparr>sv_sock := - 1\<rparr>)))"

end
