(* ===== verification/EpollProps.thy ===== *)
theory EpollProps
  imports Epoll
begin

text \<open>The event loop as a relation: which batches of events a run of the loop serves.\<close>

section \<open>Rounds\<close>

text \<open>
  A batch was handed to the runner: \<open>xs\<close> are the states before, between and after its events. From each one the
  runner is called for the next event of the batch, with the descriptor and the data that are registered for it
  then, and returns in the next state.
\<close>

definition handed ::
    "('s \<Rightarrow> 'e \<Rightarrow> fault + (int \<times> 'd)) \<Rightarrow> ('e \<Rightarrow> int \<Rightarrow> 'd \<Rightarrow> u32 \<Rightarrow> 's \<Rightarrow> 's cmd) \<Rightarrow> (u32 \<times> 'e) list \<Rightarrow> ('s \<times> world) list \<Rightarrow> bool" where
  "handed at run evs xs \<longleftrightarrow> length xs = Suc (length evs) \<and>
     (\<forall>i < length evs. \<exists>fd data. at (fst (xs ! i)) (snd (evs ! i)) = Inr (fd, data) \<and>
        run (snd (evs ! i)) fd data (fst (evs ! i)) (fst (xs ! i)) (snd (xs ! i)) = Inr (xs ! Suc i))"

lemma handed_Nil [simp]: "handed at run [] xs \<longleftrightarrow> (\<exists>x. xs = [x])"
  by (auto simp: handed_def length_Suc_conv)

lemma handed_Cons:
  "handed at run (ev # evs) xs \<longleftrightarrow> (\<exists>x ys fd data. xs = x # ys \<and> at (fst x) (snd ev) = Inr (fd, data) \<and>
     run (snd ev) fd data (fst ev) (fst x) (snd x) = Inr (hd ys) \<and> handed at run evs ys)"
proof -
  have h: "length ys = Suc n \<Longrightarrow> ys ! 0 = hd ys" for ys :: "('x \<times> world) list" and n by (cases ys) auto
  show ?thesis by (cases xs) (auto simp: handed_def All_less_Suc2 h)
qed

lemma dispatch_handed:
  "epoll_dispatch at run evs s w = Inr (s', w') \<longleftrightarrow> (\<exists>xs. handed at run evs xs \<and> hd xs = (s, w) \<and> last xs = (s', w'))"
proof (induction evs arbitrary: s w)
  case (Cons ev evs)
  show ?case (is "?l \<longleftrightarrow> ?r")
  proof
    assume ?l
    then obtain fd data s1 w1 where r: "at s (snd ev) = Inr (fd, data)" "run (snd ev) fd data (fst ev) s w = Inr (s1, w1)"
      "epoll_dispatch at run evs s1 w1 = Inr (s', w')"
      by (auto simp: lift_fault_def elim!: bind_InrE split: sum.splits)
    then obtain xs where "handed at run evs xs" "hd xs = (s1, w1)" "last xs = (s', w')" using Cons.IH by blast
    moreover from this have "xs \<noteq> []" by (auto simp: handed_def)
    ultimately show ?r using r by (intro exI [of _ "(s, w) # xs"]) (simp add: handed_Cons)
  next
    assume ?r
    then obtain ys fd data where r: "at s (snd ev) = Inr (fd, data)" "run (snd ev) fd data (fst ev) s w = Inr (hd ys)"
      "handed at run evs ys" "last ((s, w) # ys) = (s', w')"
      by (auto simp: handed_Cons)
    moreover have "ys \<noteq> []" using r(3) by (auto simp: handed_def)
    ultimately have "epoll_dispatch at run evs (fst (hd ys)) (snd (hd ys)) = Inr (s', w')"
      using Cons.IH [of "fst (hd ys)" "snd (hd ys)"] by auto
    then show ?l using r(1,2) by (cases "hd ys") (simp add: bind_def lift_fault_def)
  qed
qed (auto simp: ret_def intro: exI [of _ "[(s', w')]"])

text \<open>
  \<open>served K at run base w bs base' w'\<close>: the kernel reports the batches \<open>bs\<close> one after the other, every
  event of a batch goes to the runner in order, and then the loop is over, because it was ended
  before the next wait or because a signal interrupted the wait. A wait that fails otherwise is
  repeated.
\<close>

inductive served ::
    "('k, 'e) kernel \<Rightarrow> (('k, 'a) epoll_base_scheme \<Rightarrow> 'e \<Rightarrow> fault + (int \<times> 'd)) \<Rightarrow>
      ('e \<Rightarrow> int \<Rightarrow> 'd \<Rightarrow> u32 \<Rightarrow> ('k, 'a) epoll_base_scheme \<Rightarrow> ('k, 'a) epoll_base_scheme cmd) \<Rightarrow>
      ('k, 'a) epoll_base_scheme \<Rightarrow> world \<Rightarrow> (u32 \<times> 'e) list list \<Rightarrow> ('k, 'a) epoll_base_scheme \<Rightarrow> world \<Rightarrow> bool"
  for K at run where
  ended: "\<not> ep_loop base \<Longrightarrow> served K at run base w [] base w"
| interrupted: "ep_loop base \<Longrightarrow> k_wait K (ep_epollfd base) (ep_maxevents base) (ep_timeout base) (ep_kernel base) = (Inl EINTR, k) \<Longrightarrow>
    served K at run base w [] (base\<lparr>ep_kernel := k, ep_loop := False\<rparr>) (w\<lparr>errno := EINTR\<rparr>)"
| failed: "ep_loop base \<Longrightarrow> k_wait K (ep_epollfd base) (ep_maxevents base) (ep_timeout base) (ep_kernel base) = (Inl e, k) \<Longrightarrow>
    e \<noteq> EINTR \<Longrightarrow> served K at run (base\<lparr>ep_kernel := k\<rparr>) (w\<lparr>errno := e\<rparr>) bs base' w' \<Longrightarrow> served K at run base w bs base' w'"
| batch: "ep_loop base \<Longrightarrow> k_wait K (ep_epollfd base) (ep_maxevents base) (ep_timeout base) (ep_kernel base) = (Inr evs, k) \<Longrightarrow>
    handed at run evs xs \<Longrightarrow> hd xs = (base\<lparr>ep_kernel := k\<rparr>, w) \<Longrightarrow> last xs = (base1, w1) \<Longrightarrow>
    served K at run base1 w1 bs base' w' \<Longrightarrow> served K at run base w (evs # bs) base' w'"

inductive_cases served_stoppedE: "served K at run (base\<lparr>ep_kernel := k, ep_loop := False\<rparr>) w bs base' w'"

lemma epoll_loop_step_cases:
  "epoll_loop_step K at run base w =
    (if \<not> ep_loop base then Inr ((False, base), w)
     else case k_wait K (ep_epollfd base) (ep_maxevents base) (ep_timeout base) (ep_kernel base) of
       (Inl e, k) \<Rightarrow> Inr ((True, if e = EINTR then base\<lparr>ep_kernel := k, ep_loop := False\<rparr> else base\<lparr>ep_kernel := k\<rparr>), w\<lparr>errno := e\<rparr>)
     | (Inr evs, k) \<Rightarrow> (case epoll_dispatch at run evs (base\<lparr>ep_kernel := k\<rparr>) w of Inl f \<Rightarrow> Inl f | Inr (b, w') \<Rightarrow> Inr ((True, b), w')))"
  by (auto simp: epoll_loop_step_def syscall_def bind_def ret_def set_errno_def modify_def split: sum.splits prod.splits)

lemma served_runs: "served K at run base w bs base' w' \<Longrightarrow> loop (epoll_loop_step K at run) base w = Inr (base', w')"
proof (induction rule: served.induct)
  case (ended base w)
  then show ?case by (intro loop_stops) (simp add: epoll_loop_step_cases)
next
  case (interrupted base k w)
  let ?b = "base\<lparr>ep_kernel := k, ep_loop := False\<rparr>"
  have "loop (epoll_loop_step K at run) base w = loop (epoll_loop_step K at run) ?b (w\<lparr>errno := EINTR\<rparr>)"
    using interrupted by (intro loop_goes) (simp add: epoll_loop_step_cases)
  also have "\<dots> = Inr (?b, w\<lparr>errno := EINTR\<rparr>)" by (rule loop_stops) (simp add: epoll_loop_step_cases)
  finally show ?case by simp
next
  case (failed base e k w bs base' w')
  then have "epoll_loop_step K at run base w = Inr ((True, base\<lparr>ep_kernel := k\<rparr>), w\<lparr>errno := e\<rparr>)"
    by (simp add: epoll_loop_step_cases)
  then show ?case using failed.IH by (simp add: loop_goes [where body = "epoll_loop_step K at run"])
next
  case (batch base evs k xs w base1 w1 bs base' w')
  then have "epoll_dispatch at run evs (base\<lparr>ep_kernel := k\<rparr>) w = Inr (base1, w1)" unfolding dispatch_handed by blast
  then have "epoll_loop_step K at run base w = Inr ((True, base1), w1)"
    using batch.hyps(1,2) by (simp add: epoll_loop_step_cases)
  then show ?case using batch.IH by (simp add: loop_goes [where body = "epoll_loop_step K at run"])
qed

lemma runs_served:
  assumes "loop (epoll_loop_step K at run) base w = Inr (base', w')"
  shows "\<exists>bs. served K at run base w bs base' w'"
  using assms
proof (induction rule: loop_induct)
  case (stop base w base' w')
  then show ?case by (auto simp: epoll_loop_step_cases intro: served.ended split: if_splits prod.splits sum.splits)
next
  case (go base w b1 w1 base' w')
  then obtain bs where bs: "served K at run b1 w1 bs base' w'" by blast
  have l: "ep_loop base" using go(1) by (auto simp: epoll_loop_step_cases split: if_splits)
  obtain r k where k: "k_wait K (ep_epollfd base) (ep_maxevents base) (ep_timeout base) (ep_kernel base) = (r, k)"
    by fastforce
  show ?case
  proof (cases r)
    case (Inl e)
    show ?thesis
    proof (cases "e = EINTR")
      case True
      then have "b1 = base\<lparr>ep_kernel := k, ep_loop := False\<rparr>" "w1 = w\<lparr>errno := EINTR\<rparr>"
        using go(1) l k Inl by (simp_all add: epoll_loop_step_cases)
      moreover from this have "base' = b1" "w' = w1" using bs by (auto elim: served_stoppedE)
      ultimately show ?thesis using served.interrupted [OF l, of K k at run w] k Inl True by auto
    next
      case False
      then show ?thesis
        using served.failed [OF l, of K e k at run w bs base' w'] bs go(1) l k Inl by (auto simp: epoll_loop_step_cases)
    qed
  next
    case (Inr evs)
    then have "epoll_dispatch at run evs (base\<lparr>ep_kernel := k\<rparr>) w = Inr (b1, w1)"
      using go(1) l k by (auto simp: epoll_loop_step_cases split: sum.splits)
    then show ?thesis using served.batch [OF l _ _ _ _ bs] k Inr unfolding dispatch_handed by blast
  qed
qed

section \<open>Properties\<close>

text \<open>
  C16. The event loop dispatches whole batches: a run of \<open>excom_event_epoll_loop\<close> that returns is a
  sequence of batches reported by the kernel, each handed to the runner event by event in order (one call
  of the runner for each event, with the descriptor and data registered for it), also after the runner
  has ended the loop; and every such sequence is a run.
\<close>

theorem epoll_loop_batches:
  "excom_event_epoll_loop K at run base w = Inr (base', w') \<longleftrightarrow> (\<exists>bs. served K at run base w bs base' w')"
  using runs_served [of K at run base w base' w'] served_runs [of K at run base w _ base' w']
  unfolding excom_event_epoll_loop_def by blast

end
