(* ===== verification/Receive.thy ===== *)
theory Receive
  imports ServerClient
begin

text \<open>
  Receiving: what the reader leaves in a packet besides its values, and the rule of the server's
  \<open>check_packet\<close>: the frames at the front of the input become packets at the end of the queue, in
  order.
\<close>

section \<open>Strings of a packet are not literals\<close>

definition owned_string :: "xstring \<Rightarrow> bool" where
  "owned_string s \<longleftrightarrow> (\<forall>bs. s_body s \<noteq> Lit bs) \<and> (s_size s = 0 \<longrightarrow> s_body s = Null)"

definition owned :: "fval list \<Rightarrow> bool" where
  "owned data \<longleftrightarrow> (\<forall>s. SVal s \<in> set data \<longrightarrow> owned_string s)"

lemma owned_simps [simp]:
  "owned []" "owned (NVal n # vs) \<longleftrightarrow> owned vs" "owned (SVal s # vs) \<longleftrightarrow> owned_string s \<and> owned vs"
  "owned_string excom_string_init"
  by (auto simp: owned_def owned_string_def excom_string_init_def)

lemma dupfill_owned:
  assumes "excom_string_dupfill s sz body w = Inr ((r, s'), w')" and "owned_string s"
  shows "owned_string s'"
proof (cases "sz = 0")
  case True
  then show ?thesis using assms by (auto simp: excom_string_dupfill_def ret_def owned_string_def)
next
  case False
  with assms show ?thesis
    by (auto simp: excom_string_dupfill_def excom_malloc_def ret_def Let_def owned_string_def
        elim!: bind_InrE split: if_splits)
qed

lemma read_fields_owned:
  "read_fields le fs pos cur w = Inr ((vs, cur'), w') \<Longrightarrow> owned vs"
proof (induction fs arbitrary: cur w vs cur' w')
  case (Cons f fs)
  then show ?case
    by (auto simp: ret_def Let_def elim!: bind_InrE split: field.splits dest!: dupfill_owned)
qed (simp add: ret_def)

lemma read_packet_owned:
  assumes "excom_protocol_read_packet S pk inb enc w = Inr ((r, pk', inb', enc'), w')" and "owned (pk_data pk)"
  shows "owned (pk_data pk')"
  using assms
  by (auto simp: excom_protocol_read_packet_def ret_def Let_def elim!: bind_InrE
      split: if_splits option.splits dest!: read_fields_owned)

lemma owned_below:
  assumes "owned data" and "data_val w data vs" and "hwf w" and "i \<in> data_ids data"
  shows "i < fresh w"
proof -
  obtain v where v: "v \<in> set data" "i \<in> fv_ids v" using assms(4) by (auto simp: data_ids_def)
  obtain s where s: "v = SVal s" "i \<in> pids (s_body s)"
    by (cases v) (use v(2) in \<open>simp_all add: str_ids_def\<close>)
  then obtain k where k: "s_body s = Ptr i k" by (cases "s_body s") auto
  then have "0 < unat (s_size s)"
    using assms(1) v(1) s(1) by (auto simp: owned_def owned_string_def unat_gt_0)
  moreover obtain bs where "str_val w s bs"
    using assms(2) v(1) unfolding s(1) data_val_def by (induction rule: list_all2_induct) (auto simp: fv_val_def)
  ultimately obtain cs where "blocks w i = Some cs"
    unfolding str_val_def k by (auto simp: reads_Ptr)
  then show ?thesis using assms(3) by (rule allocated_below_fresh [rotated])
qed

section \<open>Frames become packets\<close>

text \<open>The packet \<open>raw\<close> is the frame \<open>f\<close>; its strings are in blocks of their own.\<close>

definition arrived :: "world \<Rightarrow> packet \<Rightarrow> frame \<Rightarrow> bool" where
  "arrived w raw f \<longleftrightarrow> (\<exists>vs. f = (pk_id raw, pk_type raw, vs) \<and> data_val w (pk_data raw) vs) \<and>
     (\<forall>i \<in> data_ids (pk_data raw). i < fresh w) \<and> owned (pk_data raw)"

lemma arrived_frame:
  assumes "arrived w raw f" and "mframe {} w w'" and "hwf w"
  shows "arrived w' raw f"
  using assms data_val_frame [OF _ assms(2,3)] mframe_fresh [OF assms(2)] by (fastforce simp: arrived_def)

text \<open>The state between two rounds of the loop.\<close>

definition receiving :: "world \<Rightarrow> client_data \<Rightarrow> bool" where
  "receiving w d \<longleftrightarrow> buf_ok w (cd_in d) \<and> hwf w \<and> plenty w \<and> little w \<and>
     (\<forall>i. q_nodes (cd_queue d) i \<noteq> None \<longrightarrow> i < fresh w)"

text \<open>
  The bytes after the last whole frame. The loop waits for the rest of a frame if more than four of
  its bytes are there and the announced size says, by the code's own comparison, that some are
  missing.
\<close>

definition incomplete :: "byte list \<Rightarrow> bool" where
  "incomplete rest \<longleftrightarrow> 4 < length rest \<longrightarrow>
     (\<exists>n r. rest = be32 n @ r \<and> length rest < unat (4 + n))"

lemma size_check:
  assumes "buf_ok w b" and "pending w b = be32 n @ r"
  shows "excom_buffer_remaining b < ucast (4 + n) \<longleftrightarrow> 4 + length r < unat (4 + n)"
  using remaining_pending [OF assms(1)] assms(2)
  by (simp add: word_less_nat_alt unsigned_ucast_eq take_bit_nat_eq_self_iff less_trans [OF unat_u32_bound])

lemma pending_word:
  assumes "buf_ok w b" and "pending w b = be32 n @ r"
  shows "unpack_at (excom_protocol_unpack_uint32_t le) (ptr_add (b_buf b) (unat (b_pos b))) w = Inr ((4, n), w)"
proof -
  have "reads w (ptr_add (b_buf b) (unat (b_pos b))) 4 (be32 n)"
    using reads_take [OF pending_reads [OF assms(1)], of 4] assms(2) by simp
  then show ?thesis by (rule unpack_at_run) (simp_all add: unpack_u32_run)
qed

lemma unat_4_plus_le: "unat (4 + of_nat n :: u32) \<le> 4 + n"
proof -
  have "4 + of_nat n = (of_nat (4 + n) :: u32)" by simp
  then show ?thesis unfolding unat_of_nat by (simp only: unat_of_nat mod_less_eq_dividend)
qed

text \<open>What the code sees of a pending frame before it reads it: enough bytes, and their size.\<close>

lemma header_pending:
  assumes "buf_ok w b" and "plenty w" and "pending w b = enc_header (of_nat (length body)) i ty @ body @ rest"
  defines "n \<equiv> of_nat (length body) :: u32"
  shows "\<not> \<not> 4 < excom_buffer_remaining b" and "\<not> excom_buffer_remaining b < 4"
    and "unpack_at (excom_protocol_unpack_uint32_t True) (ptr_add (b_buf b) (unat (b_pos b))) w = Inr ((4, n), w)"
    and "\<not> excom_buffer_remaining b < ucast (4 + n)" and "\<not> malloc_fails sizeof_packet w"
proof -
  obtain t where t: "pending w b = be32 n @ t" "4 + length body \<le> length t"
    using assms(3) by (auto simp: n_def enc_header_eq)
  show "\<not> \<not> 4 < excom_buffer_remaining b" "\<not> excom_buffer_remaining b < 4"
    using remaining_pending [OF assms(1)] t by (cases t, simp_all add: word_less_nat_alt)
  show "unpack_at (excom_protocol_unpack_uint32_t True) (ptr_add (b_buf b) (unat (b_pos b))) w = Inr ((4, n), w)"
    by (rule pending_word [OF assms(1) t(1)])
  show "\<not> excom_buffer_remaining b < ucast (4 + n)"
    using size_check [OF assms(1) t(1)] unat_4_plus_le [of "length body"] t(2) by (simp add: n_def)
  show "\<not> malloc_fails sizeof_packet w"
    by (rule malloc_succeeds [OF assms(2)]) (simp add: sizeof_packet_def)
qed

lemma frame_pending:
  assumes "buf_ok w b" and "plenty w" and "pending w b = enc_frame f @ rest"
  defines "n \<equiv> of_nat (length (enc_fields (snd (snd f)))) :: u32"
  shows "\<not> \<not> 4 < excom_buffer_remaining b" and "\<not> excom_buffer_remaining b < 4"
    and "wp (unpack_at (excom_protocol_unpack_uint32_t True) (ptr_add (b_buf b) (unat (b_pos b)))) Q w = Q (4, n) w"
    and "\<not> excom_buffer_remaining b < ucast (4 + n)" and "\<not> malloc_fails sizeof_packet w"
proof -
  have "pending w b = enc_header (of_nat (length (enc_fields (snd (snd f))))) (fst f) (fst (snd f)) @ enc_fields (snd (snd f)) @ rest"
    using assms(3) by (cases f) (simp add: enc_frame_def)
  note h = header_pending [OF assms(1,2) this, folded n_def]
  show "\<not> \<not> 4 < excom_buffer_remaining b" "\<not> excom_buffer_remaining b < 4" "\<not> excom_buffer_remaining b < ucast (4 + n)"
    "\<not> malloc_fails sizeof_packet w" by (fact h)+
  show "wp (unpack_at (excom_protocol_unpack_uint32_t True) (ptr_add (b_buf b) (unat (b_pos b)))) Q w = Q (4, n) w"
    using h(3) by (rule wp_run)
qed

text \<open>
  A frame that a connection with these keys reads as it is: packets are not sealed yet, or its body is
  empty and so not sealed.
\<close>

definition clear :: "encrypt option \<Rightarrow> frame \<Rightarrow> bool" where
  "clear enc f \<longleftrightarrow> (encrypting enc \<longrightarrow> packet_fields (fst (snd f)) = Some [])"

lemma clear_plain [simp]: "\<not> e_remote_active e \<Longrightarrow> clear (Some e) f"
  by (simp add: clear_def encrypting_def)

lemma clear_bare [simp]: "packet_fields (fst (snd f)) = Some [] \<Longrightarrow> clear enc f"
  by (simp add: clear_def)

text \<open>The reader on a whole frame.\<close>

lemma read_frame_ready:
  assumes f: "frame_ok f" and ok: "buf_ok w b" "hwf w" "plenty w" "little w" and cl: "clear enc f"
    and pend: "pending w b = enc_frame f @ rest"
  shows "wp (excom_protocol_read_packet S raw_packet b enc) (\<lambda>(r, raw, b', enc') w'. r = 0 \<and> enc' = enc \<and>
    arrived w' raw f \<and> (\<forall>i \<in> data_ids (pk_data raw). fresh w \<le> i) \<and> mframe {} w w' \<and> hwf w' \<and> plenty w' \<and>
    (\<exists>pos. b' = b\<lparr>b_pos := pos\<rparr>) \<and> buf_ok w' b' \<and> pending w' b' = rest) w"
proof -
  obtain i ty vs where f3: "f = (i, ty, vs)" by (cases f)
  obtain fs where fs: "packet_fields ty = Some fs" "fields_ok fs vs" "length (enc_fields vs) < 2 ^ 32"
    using f f3 by (auto simp: frame_ok_def split: option.splits)
  have p: "pending w b = enc_header (of_nat (length (enc_fields vs))) i ty @ enc_fields vs @ rest"
    using pend f3 by (simp add: enc_frame_def)
  let ?len = "8 + length (enc_fields vs)"
  let ?in = "b\<lparr>b_pos := b_pos b + of_nat ?len\<rparr>"
  have le: "?len \<le> length (pending w b)" unfolding p by simp
  note adv = advance [OF ok(1) le]
  have R: "wp (excom_protocol_read_packet S raw_packet b enc) (\<lambda>(r, pk', b', enc') w'. r = 0 \<and> enc' = enc \<and>
    (\<exists>data. pk' = \<lparr>pk_size = of_nat (length (enc_fields vs)), pk_id = i, pk_type = ty, pk_data = data\<rparr> \<and>
      fetched w w' data vs) \<and> b' = ?in) w"
  proof (cases "encrypting enc")
    case False
    then show ?thesis
      using read_packet_plain [OF ok False p fs(1,2) append_Nil2 [symmetric] fs(3), where S = S and pk = raw_packet] by simp
  next
    case True
    then have "vs = []" and "packet_fields ty = Some []" using cl fs(1,2) f3 by (auto simp: clear_def fields_ok_def)
    then show ?thesis
      using read_packet_bare [OF ok, of i ty rest S raw_packet enc] p by (simp add: enc_fields_def)
  qed
  have own: "owned (pk_data (fst (snd x)))" if "excom_protocol_read_packet S raw_packet b enc w = Inr (x, w')" for x w'
    using that by (cases x) (auto dest!: read_packet_owned simp: raw_packet_def)
  have rest: "drop ?len (pending w b) = rest" unfolding p by simp
  have b': "buf_ok w' ?in" "pending w' ?in = rest" if "mframe {} w w'" for w'
    using buf_frame [OF adv(2) ok(2) that] adv(4) rest by simp_all
  show ?thesis
    by (rule wp_mono [OF wp_also [OF R own]], assumption)
       (use b' f3 in \<open>auto simp: fetched_def arrived_def intro: owned_below\<close>)
qed

definition took_frame ::
    "world \<Rightarrow> client_data \<Rightarrow> packet list \<Rightarrow> frame \<Rightarrow> byte list \<Rightarrow> world \<Rightarrow> client_data \<Rightarrow> bool" where
  "took_frame w d pks f rest w' d' \<longleftrightarrow> (\<exists>raw inb q.
     d' = d\<lparr>cd_in := inb, cd_queue := q\<rparr> \<and> \<not> b_mutex inb \<and> (\<exists>pos. inb = (cd_in d)\<lparr>b_pos := pos\<rparr>) \<and>
     receiving w' d' \<and> pending w' inb = rest \<and> queue_holds q (pks @ [raw]) \<and> arrived w' raw f \<and>
     (\<forall>i \<in> data_ids (pk_data raw). fresh w \<le> i) \<and> mframe {} w w')"

text \<open>What the reader does with a frame that it takes: the packet, the keys after it, and what is left of the input.\<close>

definition reads_frame ::
    "world \<Rightarrow> buffer \<Rightarrow> encrypt \<Rightarrow> frame \<Rightarrow> byte list \<Rightarrow> int \<times> packet \<times> buffer \<times> encrypt option \<Rightarrow> world \<Rightarrow> bool" where
  "reads_frame w b keys f rest x w' \<longleftrightarrow> (case x of (r, raw, b', enc') \<Rightarrow> r = 0 \<and> enc' = Some keys \<and>
     arrived w' raw f \<and> (\<forall>i \<in> data_ids (pk_data raw). fresh w \<le> i) \<and> mframe {} w w' \<and> hwf w' \<and> plenty w' \<and>
     (\<exists>pos. b' = b\<lparr>b_pos := pos\<rparr>) \<and> buf_ok w' b' \<and> pending w' b' = rest)"

text \<open>One round on input that the reader takes a frame from, whatever its keys make of it.\<close>

lemma check_step_reads:
  assumes r: "receiving w d" and lock: "\<not> b_mutex (cd_in d)"
    and pend: "pending w (cd_in d) = enc_header (of_nat (length body)) i ty @ body @ tail" and q: "queue_holds (cd_queue d) pks"
    and R: "\<And>w1 b. buf_ok w1 b \<Longrightarrow> pending w1 b = pending w (cd_in d) \<Longrightarrow> hwf w1 \<Longrightarrow> plenty w1 \<Longrightarrow> little w1 \<Longrightarrow>
      wp (excom_protocol_read_packet S raw_packet b (Some (c_keys d))) (reads_frame w1 b keys f rest) w1"
  shows "wp (check_step S d) (\<lambda>(go, d') w'. go \<and> took_frame w (d\<lparr>c_keys := keys\<rparr>) pks f rest w' d') w"
proof -
  have ok: "buf_ok w (cd_in d)" "hwf w" "plenty w" "little w" and nodes: "\<And>i. q_nodes (cd_queue d) i \<noteq> None \<Longrightarrow> i < fresh w"
    using r by (simp_all add: receiving_def)
  let ?b = "(cd_in d)\<lparr>b_mutex := True\<rparr>"
  note front = header_pending [OF ok(1,3) pend]
  have word: "wp (unpack_at (excom_protocol_unpack_uint32_t True) (ptr_add (b_buf (cd_in d)) (unat (b_pos (cd_in d))))) Q w =
      Q (4, of_nat (length body)) w" for Q
    using front(3) by (rule wp_run)
  have k: "b_buf ?b = b_buf (cd_in d)" "b_pos ?b = b_pos (cd_in d)" by simp_all
  show ?thesis
    unfolding check_step_def if_not_P [OF front(1)] lock_buffer_simps(1) [OF lock] bind_ret wp_bind wp_asks k ok(4)
      mutex_irrelevant
  proof (simp add: ok(4) front word, rule malloc_wp, goal_cases)
    case (1 w')
    with front(5) show ?case by simp
  next
    case (2 w1 bs)
    have b1: "buf_ok w1 ?b" "pending w1 ?b = pending w (cd_in d)"
      using buf_frame [OF _ ok(2) 2(6), of ?b] ok(1) by simp_all
    have h1: "hwf w1" "plenty w1" "little w1"
      using mframe_hwf [OF 2(6) ok(2)] mframe_plenty [OF 2(6) ok(3)] mframe_envD(5) [OF 2(6)] ok(4) by simp_all
    show ?case
    proof (simp, rule wp_mono [OF R [OF b1 h1]], goal_cases)
      case (1 x w2)
      then obtain raw pos where x: "x = (0, raw, ?b\<lparr>b_pos := pos\<rparr>, Some keys)" by (cases x) (auto simp: reads_frame_def)
      note 1 = 1 [unfolded x reads_frame_def prod.case]
      have f02: "mframe {} w w2" using 2(6) 1 by (auto elim!: mframe_trans)
      have m: "mframe {} w1 w2" using 1 by simp
      have "q_nodes (cd_queue d) (fresh w) = None" using nodes by blast
      then obtain q' where q': "link_packet (cd_queue d) (fresh w) raw = Inr q'" "queue_holds q' (pks @ [raw])"
          "\<forall>k. q_nodes q' k = None \<longleftrightarrow> q_nodes (cd_queue d) k = None \<and> k \<noteq> fresh w"
        using link_packet_ok [OF q] by blast
      let ?in = "(?b\<lparr>b_pos := pos\<rparr>)\<lparr>b_mutex := False\<rparr>" and ?d = "d\<lparr>c_keys := keys\<rparr>"
      have b3: "buf_ok w2 ?in" "pending w2 ?in = rest"
        using 1 by (simp_all only: mutex_irrelevant)
      have "k < fresh w2" if "q_nodes q' k \<noteq> None" for k
        using q'(3) that nodes [of k] mframe_fresh [OF m] 2(5) by (cases "k = fresh w") simp_all
      then have rc: "receiving w2 (?d\<lparr>cd_in := ?in, cd_queue := q'\<rparr>)"
        using b3 1 h1(3) mframe_envD(5) [OF m] by (simp add: receiving_def)
      have pos: "?in = (cd_in ?d)\<lparr>b_pos := pos\<rparr>" using lock by (cases "cd_in d") simp
      have "took_frame w ?d pks f rest w2 (?d\<lparr>cd_in := ?in, cd_queue := q'\<rparr>)"
        unfolding took_frame_def
        by (intro exI conjI) (rule refl, simp, rule pos, rule rc, rule b3(2), rule q'(2), use 1 in simp, use 1 2(5) in auto, rule f02)
      moreover have same: "?d\<lparr>cd_in := ?in, cd_queue := q'\<rparr> = d\<lparr>cd_in := ?in, c_keys := keys, cd_queue := q'\<rparr>" by simp
      ultimately show ?case using q'(1) unfolding x same by simp
    qed
  qed
qed

text \<open>One round on a whole frame that the keys leave as it is.\<close>

lemma check_step_frame:
  assumes r: "receiving w d" and lock: "\<not> b_mutex (cd_in d)" and cl: "clear (Some (c_keys d)) f"
    and f: "frame_ok f" and pend: "pending w (cd_in d) = enc_frame f @ rest" and q: "queue_holds (cd_queue d) pks"
  shows "wp (check_step S d) (\<lambda>(go, d') w'. go \<and> took_frame w d pks f rest w' d') w"
proof -
  have p: "pending w (cd_in d) =
      enc_header (of_nat (length (enc_fields (snd (snd f))))) (fst f) (fst (snd f)) @ enc_fields (snd (snd f)) @ rest"
    using pend by (cases f) (simp add: enc_frame_def)
  have d: "d\<lparr>c_keys := c_keys d\<rparr> = d" by simp
  show ?thesis
    by (rule check_step_reads [OF r lock p q, of S "c_keys d" f rest, unfolded d])
       (rule wp_mono [OF read_frame_ready [OF f _ _ _ _ cl]], use pend in \<open>auto simp: reads_frame_def\<close>)
qed

text \<open>A round without a whole frame: the loop ends, with the input locked if it has looked at a size.\<close>

lemma check_step_stop:
  assumes r: "receiving w d" and lock: "\<not> b_mutex (cd_in d)" and rest: "incomplete (pending w (cd_in d))"
  shows "check_step S d w =
    Inr ((False, d\<lparr>cd_in := (cd_in d)\<lparr>b_mutex := 4 < length (pending w (cd_in d))\<rparr>\<rparr>), w)"
proof -
  have ok: "buf_ok w (cd_in d)" "little w" using r by (simp_all add: receiving_def)
  have rem: "4 < excom_buffer_remaining (cd_in d) \<longleftrightarrow> 4 < length (pending w (cd_in d))"
    using remaining_pending [OF ok(1)] by (simp add: word_less_nat_alt)
  show ?thesis
  proof (cases "4 < length (pending w (cd_in d))")
    case True
    then obtain n t where t: "pending w (cd_in d) = be32 n @ t" "length (pending w (cd_in d)) < unat (4 + n)"
      using rest by (auto simp: incomplete_def)
    let ?b = "(cd_in d)\<lparr>b_mutex := True\<rparr>"
    have "unpack_at (excom_protocol_unpack_uint32_t True) (ptr_add (b_buf ?b) (unat (b_pos ?b))) w = Inr ((4, n), w)"
      by (rule pending_word) (use ok t in simp_all)
    moreover have "excom_buffer_remaining (cd_in d) < ucast (4 + n)"
      using size_check [OF ok(1) t(1)] t by simp
    ultimately show ?thesis
      using True rem lock ok(2) by (simp add: check_step_def run_simps)
  next
    case False
    have "cd_in d = (cd_in d)\<lparr>b_mutex := False\<rparr>" using lock by (cases "cd_in d") simp
    then show ?thesis
      using False rem by (simp add: check_step_def ret_run)
  qed
qed

lemma check_loop_ready:
  assumes "receiving w d" and "\<not> b_mutex (cd_in d)" and "\<forall>f \<in> set frames. clear (Some (c_keys d)) f" and "\<forall>f \<in> set frames. frame_ok f"
    and "pending w (cd_in d) = concat (map enc_frame frames) @ rest" and "incomplete rest" and "queue_holds (cd_queue d) pks"
  shows "wp (loop (check_step S) d) (\<lambda>d' w'. \<exists>raws inb q. d' = d\<lparr>cd_in := inb, cd_queue := q\<rparr> \<and>
    b_mutex inb = (4 < length rest) \<and> receiving w' d' \<and> pending w' inb = rest \<and> queue_holds q (pks @ raws) \<and>
    list_all2 (arrived w') raws frames \<and> mframe {} w w') w"
  using assms
proof (induction frames arbitrary: w d pks)
  case Nil
  let ?b = "(cd_in d)\<lparr>b_mutex := 4 < length rest\<rparr>"
  have "loop (check_step S) d w = Inr (d\<lparr>cd_in := ?b\<rparr>, w)"
    using check_step_stop [OF Nil.prems(1,2), of S] Nil.prems(5,6) by (intro loop_stops) simp
  moreover have "receiving w (d\<lparr>cd_in := ?b\<rparr>)" "pending w ?b = rest"
    using Nil.prems(1,5) by (simp_all add: receiving_def)
  ultimately show ?case
    using Nil.prems(7) by (auto simp: wp_def intro!: exI [of _ ?b] exI [of _ "cd_queue d"])
next
  case (Cons f frames)
  have f: "clear (Some (c_keys d)) f" "frame_ok f" "pending w (cd_in d) = enc_frame f @ concat (map enc_frame frames) @ rest"
    using Cons.prems(3-5) by simp_all
  show ?case
  proof (rule loop_step_wp, rule wp_mono [OF check_step_frame [OF Cons.prems(1,2) f Cons.prems(7)]], clarsimp, goal_cases)
    case (1 go d1 w1)
    then obtain raw inb q where 2: "d1 = d\<lparr>cd_in := inb, cd_queue := q\<rparr>" "\<not> b_mutex inb" "receiving w1 d1"
        "pending w1 inb = concat (map enc_frame frames) @ rest" "queue_holds q (pks @ [raw])" "arrived w1 raw f" "mframe {} w w1"
      unfolding took_frame_def by blast
    have h: "hwf w1" using 2(3) by (simp add: receiving_def)
    show ?case
    proof (rule wp_mono [OF Cons.IH [OF 2(3), of "pks @ [raw]"]], goal_cases)
      case (7 d' w')
      then obtain raws inb' q' where 3: "d' = d1\<lparr>cd_in := inb', cd_queue := q'\<rparr>" "b_mutex inb' = (4 < length rest)"
          "receiving w' d'" "pending w' inb' = rest" "queue_holds q' ((pks @ [raw]) @ raws)"
          "list_all2 (arrived w') raws frames" "mframe {} w1 w'"
        by blast
      have m: "mframe {} w w'" using 2(7) 3(7) by (rule mframe_trans) auto
      have a: "list_all2 (arrived w') (raw # raws) (f # frames)"
        using 3(6) arrived_frame [OF 2(6) 3(7) h] by simp
      show ?case
        using 2(1) 3 m a by (intro exI [of _ "raw # raws"] exI [of _ inb'] exI [of _ q']) simp
    qed (use 2 Cons.prems in simp_all)
  qed
qed

text \<open>
  \<open>check_packet\<close> as a whole. Unless the loop ended on an incomplete frame, the input is not locked
  when it is unlocked a second time.
\<close>

lemma check_packet_ends:
  assumes "loop (check_step S) (d\<lparr>cd_mutex := True\<rparr>) w = Inr (d1, w1)" and "\<not> cd_mutex d" and "cd_mutex d1"
  shows "check_packet_on kind S d w =
    (if kind = Fast \<or> b_mutex (cd_in d1)
     then Inr (d1\<lparr>cd_in := (cd_in d1)\<lparr>b_mutex := False\<rparr>, cd_mutex := False\<rparr>, w1) else Inl BadUnlock)"
  using assms by (cases kind) (auto simp: check_packet_on_def bind_def ret_def fail_def)

lemma check_packet_on_ready:
  assumes "receiving w d" and "\<not> b_mutex (cd_in d)" and "\<forall>f \<in> set frames. clear (Some (c_keys d)) f" and "\<forall>f \<in> set frames. frame_ok f"
    and "pending w (cd_in d) = concat (map enc_frame frames) @ rest" and "incomplete rest" and "queue_holds (cd_queue d) pks"
    and "\<not> cd_mutex d"
  shows "if kind = Fast \<or> 4 < length rest then
      wp (check_packet_on kind S d) (\<lambda>d' w'. \<exists>raws inb q. d' = d\<lparr>cd_in := inb, cd_queue := q\<rparr> \<and>
        \<not> b_mutex inb \<and> receiving w' d' \<and> pending w' inb = rest \<and> queue_holds q (pks @ raws) \<and>
        list_all2 (arrived w') raws frames \<and> mframe {} w w') w
    else check_packet_on kind S d w = Inl BadUnlock"
proof -
  let ?d = "d\<lparr>cd_mutex := True\<rparr>"
  have L: "wp (loop (check_step S) ?d) (\<lambda>d' w'. \<exists>raws inb q. d' = ?d\<lparr>cd_in := inb, cd_queue := q\<rparr> \<and>
    b_mutex inb = (4 < length rest) \<and> receiving w' d' \<and> pending w' inb = rest \<and> queue_holds q (pks @ raws) \<and>
    list_all2 (arrived w') raws frames \<and> mframe {} w w') w"
    by (rule check_loop_ready) (use assms in \<open>simp_all add: receiving_def\<close>)
  obtain d1 w1 raws inb q where l: "loop (check_step S) ?d w = Inr (d1, w1)" "d1 = ?d\<lparr>cd_in := inb, cd_queue := q\<rparr>"
    "b_mutex inb = (4 < length rest)" "receiving w1 d1" "pending w1 inb = rest" "queue_holds q (pks @ raws)"
    "list_all2 (arrived w1) raws frames" "mframe {} w w1"
    using L by (auto elim!: wpE)
  have m1: "cd_mutex d1" using l(2) by simp
  note ends = check_packet_ends [OF l(1) assms(8) m1, of kind]
  show ?thesis
  proof (cases "kind = Fast \<or> 4 < length rest")
    case True
    moreover have "d1\<lparr>cd_in := (cd_in d1)\<lparr>b_mutex := False\<rparr>, cd_mutex := False\<rparr> = d\<lparr>cd_in := inb\<lparr>b_mutex := False\<rparr>, cd_queue := q\<rparr>"
      using assms(8) l(2) by (cases d) simp
    ultimately have "check_packet_on kind S d w = Inr (d\<lparr>cd_in := inb\<lparr>b_mutex := False\<rparr>, cd_queue := q\<rparr>, w1)"
      using ends l(2,3) by auto
    moreover have "receiving w1 (d\<lparr>cd_in := inb\<lparr>b_mutex := False\<rparr>, cd_queue := q\<rparr>)"
      using l(2,4) by (simp add: receiving_def)
    ultimately show ?thesis
      using True l by (auto simp: wp_def intro!: exI [of _ raws] exI [of _ "inb\<lparr>b_mutex := False\<rparr>"] exI [of _ q])
  next
    case False
    then show ?thesis using ends l(2,3) by simp
  qed
qed

lemmas check_packet_ready = check_packet_on_ready [where kind = Checked, simplified, folded check_packet_eq]

end
