(* ===== verification/ProtocolProps.thy ===== *)
theory ProtocolProps
  imports Protocol EncryptionProps
begin

text \<open>The properties of reading and writing packets, from the rules of theory \<open>Protocol\<close>.\<close>

section \<open>In the clear\<close>

lemma no_leak: "appended w b bs w' b' \<Longrightarrow> fresh w \<le> i \<Longrightarrow> i \<notin> bids b' \<Longrightarrow> blocks w' i = None"
  by (auto simp: appended_def intro: bstepD(4))

text \<open>
  C10. The writer refines the wire format: without an active remote key, on a little-endian host
  with a byte of slack after \<open>char buf[4]\<close>, \<open>excom_protocol_write_packet\<close> returns 0, appends
  exactly the frame of the packet's id, type and field values to the output buffer, records the
  size of the body in the packet, and of the blocks it allocated only the output buffer's own is
  left.
\<close>

theorem write_packet_correct:
  assumes "sane w" and "ready w out" and "packet_fields (pk_type pk) = Some fs"
    and "data_val w (pk_data pk) vs" and "fields_ok fs vs" and "\<forall>i \<in> data_ids (pk_data pk). i < fresh w"
    and "\<not> encrypting enc" and "unat (b_used out) + 64 + length (enc_fields vs) < 2 ^ 32"
  shows "wp (excom_protocol_write_packet S pk out enc) (\<lambda>(r, pk', out', enc') w'. r = 0 \<and> enc' = enc \<and>
    unat (pk_size pk') = length (enc_fields vs) \<and> ready w' out' \<and>
    contents w' out' = contents w out @ enc_frame (pk_id pk, pk_type pk, vs) \<and>
    (\<forall>i. fresh w \<le> i \<longrightarrow> i \<notin> bids out' \<longrightarrow> blocks w' i = None)) w"
proof -
  have cr: "crypto_ready S enc" using assms(7) by (simp add: crypto_ready_def)
  have pl: "enc_fields vs = payload S enc w (enc_fields vs)" using assms(7) by (simp add: payload_def)
  have n: "unat (of_nat (length (enc_fields vs)) :: u32) = length (enc_fields vs)"
    using assms(8) by (intro unat_of_nat_u32) simp
  show ?thesis
    by (rule wp_mono [OF write_packet_ready [OF assms(1-6) cr refl pl assms(8)]])
       (use assms(7) n no_leak in
         \<open>auto simp: enc_after_def payload_draws_def appended_def enc_frame_def intro: bstepD(4)\<close>)
qed

definition error_packet :: "byte \<Rightarrow> packet" where
  "error_packet b = \<lparr>pk_size = 0, pk_id = 1, pk_type = packet_error, pk_data = [NVal b]\<rparr>"

lemma error_packet_simps [simp]:
  "pk_type (error_packet b) = 3" "pk_id (error_packet b) = 1" "pk_data (error_packet b) = [NVal b]"
  by (simp_all add: error_packet_def)

lemma trio_ready [simp]:
  "sane (trio bs)" "ready (trio bs) (on_block 1 1 0)" "ready (trio bs) (on_block 2 1 0)"
  "contents (trio bs) (on_block 1 1 0) = []" "contents (trio bs) (on_block 2 1 0) = []"
  by (simp_all add: sane_def trio_def ready_def buf_ok_def hwf_def plenty_def contents_def)

theorem write_packet_correct_witness:
  "wp (excom_protocol_write_packet xor_sodium (error_packet 4) (on_block 2 1 0) None)
     (\<lambda>(r, pk', out', enc') w'. r = 0 \<and> contents w' out' = [0, 0, 0, 1, 0, 1, 0, 3, 4]) (trio [])"
proof -
  have "enc_frame (1, 3, [WNum 4]) = [0, 0, 0, 1, 0, 1, 0, 3, 4]"
    by (simp add: enc_frame_def enc_header_eq be32_def be16_def byte_of_def)
  then show ?thesis
    by (intro wp_mono [OF write_packet_correct [where vs = "[WNum 4]"]]) (auto simp: encrypting_def)
qed

text \<open>
  C11. The reader takes a frame off the front: without an active remote key, when a whole frame is
  pending in the input buffer, \<open>excom_protocol_read_packet\<close> returns 0, the packet has the id, the
  type and the field values of the frame, its strings in blocks of their own, exactly the frame is
  consumed, and nothing else the reader allocated is left.
\<close>

theorem read_packet_correct:
  assumes "buf_ok w inb" and "hwf w" and "plenty w" and "little w" and "\<not> encrypting enc"
    and "pending w inb = enc_frame (i, ty, vs) @ rest" and "packet_fields ty = Some fs" and "fields_ok fs vs"
    and "length (enc_fields vs) < 2 ^ 32"
  shows "wp (excom_protocol_read_packet S pk inb enc) (\<lambda>(r, pk', inb', enc') w'. r = 0 \<and> enc' = enc \<and>
    pk_id pk' = i \<and> pk_type pk' = ty \<and> data_val w' (pk_data pk') vs \<and> pending w' inb' = rest \<and>
    (\<forall>k. fresh w \<le> k \<longrightarrow> k \<notin> data_ids (pk_data pk') \<longrightarrow> blocks w' k = None)) w"
proof -
  have pend: "pending w inb = enc_header (of_nat (length (enc_fields vs))) i ty @ enc_fields vs @ rest"
    using assms(6) by (simp add: enc_frame_def)
  let ?n = "8 + length (enc_fields vs)"
  have "?n \<le> length (pending w inb)" unfolding pend by simp
  note adv = advance [OF assms(1) this]
  have dr: "drop ?n (pending w inb) = rest" unfolding pend by simp
  have pe: "pending w' (inb\<lparr>b_pos := b_pos inb + of_nat ?n\<rparr>) = rest" if "mframe {} w w'" for w'
    using buf_frame(3) [OF adv(2) assms(2) that] adv(4) dr by simp
  show ?thesis
    by (rule wp_mono [OF read_packet_plain [OF assms(1-5) pend assms(7,8) _ assms(9), where post = "[]"]])
       (use pe in \<open>auto simp: fetched_def\<close>)
qed

text \<open>A world whose block 0 is the input.\<close>

lemma trio_input:
  assumes "length bs < 2 ^ 62" and "n = of_nat (length bs)"
  shows "buf_ok (trio bs) (on_block 0 n n)" and "pending (trio bs) (on_block 0 n n) = bs"
proof -
  have "unat n = length bs" using assms by (simp add: unat_of_nat)
  then show "buf_ok (trio bs) (on_block 0 n n)" "pending (trio bs) (on_block 0 n n) = bs"
    using assms(1) by (simp_all add: buf_ok_def pending_def contents_def)
qed

lemma trio_env [simp]: "little (trio bs)" "junk (trio bs) i k = 170" "slack (trio bs) = 1" "mallocs (trio bs) = []"
  by (simp_all add: trio_def)

theorem read_packet_correct_witness:
  "wp (excom_protocol_read_packet xor_sodium (error_packet 0) (on_block 0 16 16) None)
     (\<lambda>(r, pk', inb', enc') w'. r = 0 \<and> data_val w' (pk_data pk') [WStr [104, 105]] \<and> pending w' inb' = [9, 9])
     (trio (enc_frame (1, packet_command, [WStr [104, 105]]) @ [9, 9]))"
proof -
  let ?bs = "enc_frame (1, packet_command, [WStr [104, 105]]) @ [9, 9]"
  have l: "length ?bs = 16" by (simp add: enc_frame_def)
  note t = trio_input [of ?bs 16]
  show ?thesis
    by (rule wp_mono [OF read_packet_correct [OF t(1) _ _ _ _ t(2)]]) (use l in \<open>auto simp: encrypting_def\<close>)
qed

text \<open>
  C2. What is written is what is read, while nothing is encrypted: without an active remote key, writing a
  packet of any known type into an empty buffer and reading it back from that buffer gives a packet with
  the same id, the same type and the same field values, and leaves nothing in the buffer.
\<close>

theorem packet_roundtrip:
  assumes "sane w" and "ready w b" and "packet_fields (pk_type pk) = Some fs"
    and "data_val w (pk_data pk) vs" and "fields_ok fs vs" and "\<forall>i \<in> data_ids (pk_data pk). i < fresh w"
    and "\<not> encrypting enc" and "b_used b = 0" and "64 + length (enc_fields vs) < 2 ^ 32"
  shows "wp (bind (excom_protocol_write_packet S pk b enc) (\<lambda>(r1, _, b, _).
           bind (excom_protocol_read_packet S pk0 b enc) (\<lambda>(r2, pk', b, _). ret (r1, r2, pk', b))))
         (\<lambda>(r1, r2, pk', b') w'. r1 = 0 \<and> r2 = 0 \<and> pk_id pk' = pk_id pk \<and> pk_type pk' = pk_type pk \<and>
           data_val w' (pk_data pk') vs \<and> pending w' b' = []) w"
proof -
  have cr: "crypto_ready S enc" using assms(7) by (simp add: crypto_ready_def)
  have pl: "enc_fields vs = payload S enc w (enc_fields vs)" using assms(7) by (simp add: payload_def)
  have fit: "unat (b_used b) + 64 + length (enc_fields vs) < 2 ^ 32" using assms(8,9) by simp
  have len: "length (enc_fields vs) < 2 ^ 32" using assms(9) by simp
  let ?hd = "enc_header (of_nat (length (enc_fields vs))) (pk_id pk) (pk_type pk)"
  have ok: "buf_ok w b" "hwf w" "plenty w" using assms(2) by (simp_all add: ready_def)
  have "b_pos b = 0" using ok(1) assms(8) by (auto simp: unat_eq_0 elim: buf_ok_cases)
  have "contents w b = []" using length_contents [OF ok(1)] assms(8) by simp
  have wr: "wp (excom_protocol_write_packet S pk b enc) (\<lambda>(r, _, b', _) w'. r = 0 \<and> ready w' b' \<and> little w' \<and>
      pending w' b' = ?hd @ enc_fields vs @ []) w"
    by (rule wp_mono [OF write_packet_ready [OF assms(1-6) cr refl pl fit]])
       (use assms(1) \<open>contents w b = []\<close> \<open>b_pos b = 0\<close> in
         \<open>auto simp: payload_draws_def appended_def pending_def bstep_def sane_def mframe_envD assms(7)\<close>)
  show ?thesis
    unfolding wp_bind
  proof (rule wp_mono [OF wr], goal_cases)
    case (1 x w1)
    obtain r p b1 e where x: "x = (r, p, b1, e)" by (cases x)
    have q: "r = 0" "buf_ok w1 b1" "hwf w1" "plenty w1" "little w1" "pending w1 b1 = ?hd @ enc_fields vs @ []"
      using 1 unfolding x by (auto simp: ready_def)
    let ?n = "8 + length (enc_fields vs)"
    have "?n \<le> length (pending w1 b1)" using q(6) by simp
    note adv = advance [OF q(2) this]
    have pe: "pending w' (b1\<lparr>b_pos := b_pos b1 + of_nat ?n\<rparr>) = []" if "mframe {} w1 w'" for w'
      using buf_frame(3) [OF adv(2) q(3) that] adv(4) q(6) by simp
    have "wp (excom_protocol_read_packet S pk0 b1 enc) (\<lambda>(r2, pk', b', _) w'. r2 = 0 \<and> pk_id pk' = pk_id pk \<and>
        pk_type pk' = pk_type pk \<and> data_val w' (pk_data pk') vs \<and> pending w' b' = []) w1"
      by (rule wp_mono [OF read_packet_plain [OF q(2-5) assms(7) q(6) assms(3,5) _ len, where post = "[]"]])
         (use pe in \<open>auto simp: fetched_def\<close>)
    then show ?case
      unfolding x by (auto simp: q(1) elim!: wp_mono)
  qed
qed

theorem packet_roundtrip_witness:
  "wp (bind (excom_protocol_write_packet xor_sodium (error_packet 4) (on_block 2 1 0) None) (\<lambda>(r1, _, b, _).
     bind (excom_protocol_read_packet xor_sodium (error_packet 0) b None) (\<lambda>(r2, pk', b, _). ret (r1, r2, pk', b))))
   (\<lambda>(r1, r2, pk', b') w'. data_val w' (pk_data pk') [WNum 4]) (trio [])"
  by (rule wp_mono [OF packet_roundtrip [where vs = "[WNum 4]"]]) (auto simp: encrypting_def)


section \<open>Trusting the input\<close>

text \<open>
  C38. The size in the header is not what the reader advances by: a packet of a type without fields
  (\<open>ok\<close>, \<open>ping\<close>, \<open>pong\<close>) that announces a body is accepted, and the body stays in the input, where
  it is read as the header of the next packet: a peer can hide a packet of its choice inside
  another one.
\<close>

theorem read_packet_smuggles:
  assumes "buf_ok w inb" and "hwf w" and "plenty w" and "little w" and "\<not> encrypting enc"
    and "pending w inb = enc_header (of_nat (length body)) i ty @ body @ rest"
    and "packet_fields ty = Some []" and "length body < 2 ^ 32"
  shows "wp (excom_protocol_read_packet S pk inb enc) (\<lambda>(r, pk', inb', enc') w'. r = 0 \<and>
    pk_type pk' = ty \<and> pending w' inb' = body @ rest) w"
proof -
  have "8 \<le> length (pending w inb)" unfolding assms(6) by simp
  note adv = advance [OF assms(1) this]
  have dr: "drop 8 (pending w inb) = body @ rest" unfolding assms(6) by simp
  have pe: "pending w' (inb\<lparr>b_pos := b_pos inb + of_nat 8\<rparr>) = body @ rest" if "mframe {} w w'" for w'
    using buf_frame(3) [OF adv(2) assms(2) that] adv(4) dr by simp
  show ?thesis
    by (rule wp_mono [OF read_packet_plain [OF assms(1-7), where post = body and vs = "[]"]])
       (use assms(8) pe in \<open>auto simp: fetched_def\<close>)
qed

theorem read_packet_smuggles_witness:
  "wp (excom_protocol_read_packet xor_sodium (error_packet 0) (on_block 0 17 17) None)
     (\<lambda>(r, pk', inb', enc') w'. r = 0 \<and> pk_type pk' = packet_ping \<and> pending w' inb' = enc_frame (9, packet_reject, [WNum 1]))
     (trio (enc_header 9 1 packet_ping @ enc_frame (9, packet_reject, [WNum 1])))"
proof -
  let ?f = "enc_frame (9, packet_reject, [WNum 1])"
  let ?bs = "enc_header 9 1 packet_ping @ ?f"
  have l: "length ?f = 9" by (simp add: enc_frame_def)
  then have b: "?bs = enc_header (of_nat (length ?f)) 1 packet_ping @ ?f @ []" by simp
  have t: "buf_ok (trio ?bs) (on_block 0 17 17)" "pending (trio ?bs) (on_block 0 17 17) = ?bs"
    using trio_input [of ?bs 17] l by simp_all
  have t2: "pending (trio ?bs) (on_block 0 17 17) = enc_header (of_nat (length ?f)) 1 packet_ping @ ?f @ []"
    unfolding t(2) by (rule b)
  show ?thesis
    by (rule wp_mono [OF read_packet_smuggles [OF t(1) _ _ _ _ t2]]) (use l in \<open>auto simp: encrypting_def\<close>)
qed

text \<open>
  A packet of type \<open>INVALID\<close> makes the reader return 1 without freeing the buffer it made, and
  with the input already past the header: every such packet leaks a block.
\<close>

theorem read_packet_invalid_leaks:
  assumes "buf_ok w inb" and "hwf w" and "plenty w" and "little w" and "\<not> encrypting enc"
    and "pending w inb = enc_header (of_nat (length body)) i packet_INVALID @ body @ rest"
    and "length body < 2 ^ 32"
  shows "wp (excom_protocol_read_packet S pk inb enc) (\<lambda>(r, pk', inb', enc') w'. r = 1 \<and>
    b_pos inb' = b_pos inb + 8 \<and> (\<exists>k \<ge> fresh w. blocks w' k \<noteq> None)) w"
proof (rule read_header_wp [OF assms(1-4,6)], goal_cases)
  case (1 w1)
  note w1 = this
  let ?in = "inb\<lparr>b_pos := b_pos inb + 8\<rparr>" and ?b = "new_buffer (fresh w)"
  let ?use = "ucast (of_nat (length body) :: u32) :: size_t"
  note hd = header_taken [OF assms(1,2,6,7) w1(2)]
  have app: "wp (excom_buffer_bappend_remaining2 ?b ?in ?use) (\<lambda>(r, b') w'. r = 0 \<and> appended w1 ?b body w' b') w1"
    by (rule bappend_remaining2_ready [OF w1(1) hd(4,5)]) (use hd(1) assms(7) in simp)
  have leak: "\<exists>k \<ge> fresh w. blocks w2 k \<noteq> None" if ap: "appended w1 ?b body w2 b2" and nb: "body \<noteq> []" for w2 b2
  proof -
    have s: "bstep w1 ?b w2 b2" and c: "contents w2 b2 = body" using ap by (simp_all add: appended_def)
    obtain k where k: "k \<in> bids b2"
      using c nb bstepD(1) [OF s] by (auto simp: contents_def bids_def elim!: buf_ok_cases)
    have "fresh w \<le> k" using bstepD(3) [OF s k] w1(3) by auto
    moreover have "blocks w2 k \<noteq> None" using bstepD(1) [OF s] k by (auto simp: bids_def elim: buf_ok_cases)
    ultimately show ?thesis by blast
  qed
  show ?case
  proof (cases "body = []")
    case True
    then have "excom_buffer_bappend_remaining2 ?b ?in ?use = ret (0, ?b)"
      by (simp add: excom_buffer_bappend_remaining2_def new_buffer_def)
    then show ?thesis
      unfolding read_tail_def if_not_P [OF assms(5)] if_P [OF refl] using w1(5) by auto
  next
    case False
    then show ?thesis
      unfolding read_tail_def if_not_P [OF assms(5)] if_P [OF refl] wp_bind
      by (intro wp_mono [OF app]) (use leak in auto)
  qed
qed

theorem read_packet_invalid_leaks_witness:
  "wp (excom_protocol_read_packet xor_sodium (error_packet 0) (on_block 0 10 10) None)
     (\<lambda>(r, pk', inb', enc') w'. r = 1 \<and> (\<exists>k \<ge> 3. blocks w' k \<noteq> None)) (trio (enc_header 2 1 packet_INVALID @ [7, 7]))"
proof -
  let ?bs = "enc_header 2 1 packet_INVALID @ [7, 7]"
  have t: "buf_ok (trio ?bs) (on_block 0 10 10)" "pending (trio ?bs) (on_block 0 10 10) = ?bs"
    using trio_input [of ?bs 10] by simp_all
  have t2: "pending (trio ?bs) (on_block 0 10 10) =
      enc_header (of_nat (length [7 :: byte, 7])) 1 packet_INVALID @ [7, 7] @ []"
    unfolding t(2) by simp
  show ?thesis
    by (rule wp_mono [OF read_packet_invalid_leaks [OF t(1) _ _ _ _ t2]]) (auto simp: encrypting_def)
qed

text \<open>A string that claims to be longer than the rest of the block it is read from.\<close>

lemma command_overreads:
  assumes w: "plenty w2" "hwf w2" and blk: "blocks w2 k = Some xs" "length xs = 32"
    and r: "reads w2 (Ptr k 0) 4 (be32 n)" and n: "28 < unat n"
  shows "fails OutOfBounds (read_fields True [FString ''command''] (Ptr k 0) 0) w2"
proof -
  have nf: "\<not> malloc_fails (ucast (n + 1)) w2"
    using w(1) u32_succ_small [of n] by (intro malloc_succeeds) simp_all
  have "n \<noteq> 0" using n by auto
  then have "fails OutOfBounds (excom_string_dupfill excom_string_init n (Ptr k 4)) w2"
    unfolding excom_string_dupfill_def if_not_P [OF \<open>n \<noteq> 0\<close>]
  proof (intro fails_after malloc_wp, goal_cases)
    case (2 w3 js)
    have "k < fresh w2" using w(2) blk(1) by (rule allocated_below_fresh)
    then have "blocks w3 k = Some xs" using \<open>blocks w3 = _\<close> blk(1) by simp
    then show ?case using n blk(2) by (simp add: fails_def bind_def memcpy_def load_def)
  qed (use nf in simp)
  then show ?thesis
    unfolding read_fields.simps field.case unat_0 using r
    by (intro fails_first [where m = "bind _ _"] fails_after unpack_at_wp [where bs = "be32 n" and x = "(4, n)"])
       (auto simp: unpack_u32_run intro: fails_first)
qed

text \<open>
  C36. The length of a string is believed: when a \<open>command\<close> packet that is not encrypted has a body
  that fits into the first block of the reader's buffer, 32 bytes, and its length field is larger than
  the 28 bytes left of that block behind it, copying the string reads out of bounds, whatever the
  size of the body says.
\<close>

theorem read_packet_overreads:
  assumes "buf_ok w inb" and "hwf w" and "plenty w" and "little w" and "\<not> encrypting enc"
    and "pending w inb = enc_header (of_nat (4 + length bs)) i packet_command @ be32 n @ bs @ rest"
    and "4 + length bs \<le> 32" and "28 < unat n"
  shows "excom_protocol_read_packet S pk inb enc w = Inl OutOfBounds"
proof -
  let ?in = "inb\<lparr>b_pos := b_pos inb + 8\<rparr>" and ?b = "new_buffer (fresh w)" and ?body = "be32 n @ bs"
  let ?use = "ucast (of_nat (length ?body) :: u32) :: size_t"
  have pend: "pending w inb = enc_header (of_nat (length ?body)) i packet_command @ ?body @ rest" using assms(6) by simp
  obtain w1 where w1: "ready w1 ?b" "mframe {} w w1"
    and run: "excom_protocol_read_packet S pk inb enc w =
      read_tail S (of_nat (length ?body)) packet_command (pk\<lparr>pk_size := of_nat (length ?body), pk_id := i, pk_type := packet_command\<rparr>) ?in ?b enc w1"
    using read_header_run [OF assms(1-4) pend, of S pk enc] by metis
  have l: "length ?body \<le> 32" "length ?body < 2 ^ 32" using assms(7) by simp_all
  note hd = header_taken [OF assms(1,2) pend l(2) w1(2)]
  have ok1: "buf_ok w1 ?b" "hwf w1" "\<not> b_mutex ?b" and pl1: "plenty w1" using w1(1) by (simp_all add: ready_def new_buffer_def)
  have sep: "pids (ptr_add (b_buf ?in) (unat (b_pos ?in))) \<inter> bids ?b = {}" using hd(5) by (simp add: bids_def)
  have small: "\<not> grows ?b ?use" using hd(1) l(1) by (simp add: grows_def word_less_nat_alt)
  have "unat ?use \<noteq> 0" unfolding hd(1) by simp
  then have "?use \<noteq> 0" by (metis unat_0)
  then have "excom_buffer_bappend_remaining2 ?b ?in ?use = append_core ?b (ptr_add (b_buf ?in) (unat (b_pos ?in))) ?use"
    by (simp add: bappend_remaining2_core new_buffer_def)
  then have app: "wp (excom_buffer_bappend_remaining2 ?b ?in ?use) (\<lambda>(r, b') w'. buf_ok w' b' \<and> plenty w' \<and> hwf w' \<and>
      contents w' b' = ?body \<and> b_pos b' = 0 \<and> b_max b' = 32) w1"
    by (simp only:, intro append_core_wp [OF ok1 hd(4) sep])
       (use small hd(1) l(1) pl1 in \<open>auto simp: append_fails_def dest: bstepD(1) bstep_hwf [OF _ ok1(2)] bstep_plenty\<close>)
  have over: "fails OutOfBounds (read_fields True [FString ''command''] (b_buf b') 0) w2"
    if q: "buf_ok w2 b'" "plenty w2" "hwf w2" "contents w2 b' = ?body" "b_pos b' = 0" "b_max b' = 32" for b' w2
  proof -
    obtain k xs where blk: "b_buf b' = Ptr k 0" "blocks w2 k = Some xs" "length xs = 32"
      using q(1,4,6) by (cases rule: buf_ok_cases) (auto simp: contents_def)
    have "reads w2 (b_buf b') (length ?body) ?body" using pending_reads [OF q(1)] q(4,5) by (simp add: pending_def)
    from reads_take [OF this, of 4] have "reads w2 (Ptr k 0) 4 (be32 n)" using blk(1) by simp
    from command_overreads [OF q(2,3) blk(2,3) this assms(8)] show ?thesis unfolding blk(1) .
  qed
  have "fails OutOfBounds (read_tail S (of_nat (length ?body)) packet_command (pk\<lparr>pk_size := of_nat (length ?body), pk_id := i,
      pk_type := packet_command\<rparr>) ?in ?b enc) w1"
    unfolding read_tail_def if_not_P [OF assms(5)]
  proof (intro fails_after, unfold wp_bind, rule wp_mono [OF app], goal_cases)
    case (1 x w2)
    then show ?case by (cases x) (auto simp del: read_fields.simps intro!: fails_first over)
  qed
  then show ?thesis using run by (simp add: fails_def)
qed

theorem read_packet_overreads_witness:
  "excom_protocol_read_packet xor_sodium (error_packet 0) (on_block 0 12 12) None
     (trio (enc_header 4 1 packet_command @ be32 1000)) = Inl OutOfBounds"
proof -
  let ?bs = "enc_header 4 1 packet_command @ be32 1000"
  have t: "buf_ok (trio ?bs) (on_block 0 12 12)" "pending (trio ?bs) (on_block 0 12 12) = ?bs"
    using trio_input [of ?bs 12] by simp_all
  have t2: "pending (trio ?bs) (on_block 0 12 12) =
      enc_header (of_nat (4 + length ([] :: byte list))) 1 packet_command @ be32 1000 @ [] @ []"
    unfolding t(2) by simp
  show ?thesis
    by (rule read_packet_overreads [OF t(1) _ _ _ _ t2]) (auto simp: encrypting_def)
qed


section \<open>The scratch array\<close>

lemma pack_fields_length:
  "excom_protocol_pack_uint32_t le buf n = Inr (k, buf') \<Longrightarrow> length buf' = length buf"
  "excom_protocol_pack_uint8_t buf b = Inr (k, buf') \<Longrightarrow> length buf' = length buf"
  by (auto simp: pack_u32_run pack_u8_run split: if_splits)

lemma lift_InrE:
  assumes "lift_fault r w = Inr (x, w')"
  shows "r = Inr x \<and> w' = w"
  using assms by (auto simp: lift_fault_def split: sum.splits)

lemma write_fields_length:
  "write_fields le fs data buf b sz w = Inr ((buf', b', sz'), w') \<Longrightarrow> length buf' = length buf"
proof (induction le fs data buf b sz arbitrary: w rule: write_fields.induct)
  case (2 le name fs s vs buf b sz)
  from 2(2) show ?case
    by (auto elim!: bind_InrE dest!: lift_InrE pack_fields_length(1) 2(1))
next
  case (3 le name fs n vs buf b sz)
  from 3(2) show ?case
    by (auto elim!: bind_InrE dest!: lift_InrE pack_fields_length(2) 3(1))
qed (simp_all add: ret_def fail_def)

text \<open>
  \<open>char buf[4]\<close> is a byte too small: when nothing happens to lie after it in the stack frame,
  \<open>excom_protocol_write_packet\<close> writes out of bounds (if nothing else goes wrong before) for every
  packet but one of type \<open>INVALID\<close>, on hosts of either byte order, encrypted or not.
\<close>

theorem write_packet_overflows:
  assumes "slack w = 0" and "pk_type pk \<noteq> packet_INVALID"
  shows "\<exists>f. excom_protocol_write_packet S pk out enc w = Inl f"
proof -
  have header: "faults (lift_fault (excom_protocol_pack_uint32_t le buf n)) w1" if "length buf = 4" for le buf n w1
    using that by (simp add: pack_u32_run)
  have "faults (excom_protocol_write_packet S pk out enc) w"
    unfolding excom_protocol_write_packet_def
  proof (rule faults_then, goal_cases)
    case (1 x0 w0)
    obtain le buf0 where x0: "x0 = (le, buf0)" "length buf0 = 4"
      using 1 assms(1) by (cases x0) (auto simp: asks_def)
    show ?case
      unfolding x0(1) prod.case
    proof (rule faults_then, unfold case_prod_unfold, rule faults_then, unfold if_not_P [OF assms(2)], rule faults_then, goal_cases)
      case (1 x1 w1 x2 w2 x3 w3)
      have len: "length (fst x3) = 4"
        using 1(3) x0(2)
        by (cases x3; cases "packet_fields (pk_type pk)") (auto simp: ret_def dest!: write_fields_length)
      show ?case
        by (rule faults_then) (intro faults_first header len)
    qed
  qed
  then show ?thesis by (simp add: faults_def)
qed

theorem write_packet_overflows_witness:
  "\<exists>f. excom_protocol_write_packet xor_sodium (error_packet 4) (on_block 1 1 0) None (trio []\<lparr>slack := 0\<rparr>) = Inl f"
  by (rule write_packet_overflows) simp_all

section \<open>Encrypted\<close>

lemma write_packet_sealed:
  assumes "sane w" and "ready w b" and "packet_fields (pk_type pk) = Some fs"
    and "data_val w (pk_data pk) vs" and "fields_ok fs vs" and "\<forall>i \<in> data_ids (pk_data pk). i < fresh w"
    and "crypto_ready S enc" and u: "b_used b = 0" and fit: "64 + length (enc_fields vs) < 2 ^ 31"
  shows "wp (excom_protocol_write_packet S pk b enc) (\<lambda>(r, _, b', _) w'. r = 0 \<and> buf_ok w' b' \<and> hwf w' \<and> plenty w' \<and> little w' \<and>
    pending w' b' = enc_header (of_nat (length (payload S enc w (enc_fields vs)))) (pk_id pk) (pk_type pk) @ payload S enc w (enc_fields vs)) w"
proof -
  have ok: "buf_ok w b" using assms(2) by (simp add: ready_def)
  have "b_pos b = 0" using ok u by (auto simp: unat_eq_0 elim: buf_ok_cases)
  moreover have "contents w b = []" using length_contents [OF ok] u by simp
  moreover have "unat (b_used b) + 64 + length (enc_fields vs) < 2 ^ 32" using u fit by simp
  ultimately show ?thesis
    using assms(1) by (intro wp_mono [OF write_packet_ready [OF assms(1-7) refl refl]])
      (auto simp: appended_def pending_def bstep_def sane_def mframe_envD ready_def)
qed

text \<open>
  C25. Encrypted packets: when both sides have the other's public key, writing a packet with a
  nonempty body and reading it on the other side gives the same id, type and field values, but the
  reader advances by the header, the nonce and the plaintext only: the last 32 bytes of the
  ciphertext stay in the input, where the next packet is expected.
\<close>

theorem packet_roundtrip_sealed:
  assumes "sane w" and "ready w b" and "packet_fields (pk_type pk) = Some fs"
    and "data_val w (pk_data pk) vs" and "fields_ok fs vs" and "\<forall>i \<in> data_ids (pk_data pk). i < fresh w"
    and "sodium_ok S" and "peers S e1 e2" and "e_remote_active e1" and "e_remote_active e2"
    and "b_used b = 0" and "64 + length (enc_fields vs) < 2 ^ 31" and "enc_fields vs \<noteq> []"
  shows "wp (bind (excom_protocol_write_packet S pk b (Some e1)) (\<lambda>(r1, _, b, _).
           bind (excom_protocol_read_packet S pk0 b (Some e2)) (\<lambda>(r2, pk', b, _). ret (r1, r2, pk', b))))
         (\<lambda>(r1, r2, pk', b') w'. r1 = 0 \<and> r2 = 0 \<and> pk_id pk' = pk_id pk \<and> pk_type pk' = pk_type pk \<and>
           data_val w' (pk_data pk') vs \<and> length (pending w' b') = 32) w"
proof -
  note E = peers_ok [OF assms(7,8)]
  let ?body = "enc_fields vs"
  have en: "encrypting (Some e1)" "encrypting (Some e2)" using assms(9,10) by (simp_all add: encrypting_def)
  have cr: "crypto_ready S (Some e1)" using assms(7) E(1) by (simp add: crypto_ready_def)
  let ?n = "randomness 24 (drawn (body_draws ?body) w)" and ?k = "e_nm_kkey (prepped S e2)"
  let ?c = "sealed S e1 ?n ?body"
  have pl: "?n @ ?c = payload S (Some e1) w ?body" using en assms(13) by (simp add: payload_def sealed_body_def)
  have c: "length ?c = 32 + length ?body" "box_open_afternm S ?c ?n ?k = Some (replicate 32 0 @ ?body)"
    using sealed [OF assms(7) E(1) length_randomness [of 24 "drawn (body_draws ?body) w"], of ?body] E(3) by simp_all
  let ?hd = "enc_header (of_nat (length (?n @ ?c))) (pk_id pk) (pk_type pk)"
  note wr = write_packet_sealed [OF assms(1-6) cr assms(11,12), folded pl]
  show ?thesis
    unfolding wp_bind
  proof (rule wp_mono [OF wr], goal_cases)
    case (1 x w1)
    obtain r p b1 e where x: "x = (r, p, b1, e)" by (cases x)
    have q: "r = 0" "buf_ok w1 b1" "hwf w1" "plenty w1" "little w1" "pending w1 b1 = ?hd @ (?n @ ?c) @ []"
      using 1 unfolding x by auto
    let ?m = "32 + length ?body"
    have "?m \<le> length (pending w1 b1)" using q(6) c(1) by simp
    note adv = advance [OF q(2) this]
    have pe: "length (pending w' (b1\<lparr>b_pos := b_pos b1 + of_nat ?m\<rparr>)) = 32" if "mframe {} w1 w'" for w'
      using buf_frame(3) [OF adv(2) q(3) that] adv(4) q(6) c(1) by simp
    have en2: "enc_ok S (the (Some e2))" using E(2) by simp
    have len: "length (?n @ ?c) < 2 ^ 31" using c(1) assms(12) by simp
    have got: "?body = (case box_open_afternm S ?c ?n (e_nm_kkey (prepped S (the (Some e2)))) of
        None \<Rightarrow> map (junk w1 (fresh w1)) [0..<32] | Some m \<Rightarrow> drop 32 m)" using c(2) by simp
    have "wp (excom_protocol_read_packet S pk0 b1 (Some e2)) (\<lambda>(r2, pk', b', _) w'. r2 = 0 \<and> pk_id pk' = pk_id pk \<and>
        pk_type pk' = pk_type pk \<and> data_val w' (pk_data pk') vs \<and> length (pending w' b') = 32) w1"
      by (rule wp_mono [OF read_packet_sealed [OF q(2-5) en(2) assms(7) en2 q(6) refl length_randomness got assms(3,5) _ len,
              where post = "[]"]])
         (use pe in \<open>auto simp: fetched_def\<close>)
    then show ?case
      unfolding x by (auto simp: q(1) elim!: wp_mono)
  qed
qed

definition talker :: "byte \<Rightarrow> byte \<Rightarrow> encrypt" where
  "talker x y = (paired xor_sodium (replicate 32 x) (box_public xor_sodium (replicate 32 y)))\<lparr>e_remote_active := True\<rparr>"

lemma talker_simps [simp]: "e_remote_active (talker x y)" "enc_ok xor_sodium (talker x y)"
  by (simp_all add: talker_def enc_ok_def paired_def excom_encrypt_init_def)

lemma talker_peers: "peers xor_sodium (talker x y) (talker y x)"
  using paired_peers [of "replicate 32 x" "replicate 32 y" xor_sodium] by (simp add: talker_def peers_def paired_def)

theorem packet_roundtrip_sealed_witness:
  "wp (bind (excom_protocol_write_packet xor_sodium (error_packet 4) (on_block 2 1 0) (Some (talker 1 2))) (\<lambda>(r1, _, b, _).
     bind (excom_protocol_read_packet xor_sodium (error_packet 0) b (Some (talker 2 1))) (\<lambda>(r2, pk', b, _). ret (r1, r2, pk', b))))
   (\<lambda>(r1, r2, pk', b') w'. data_val w' (pk_data pk') [WNum 4] \<and> length (pending w' b') = 32) (trio [])"
  by (rule wp_mono [OF packet_roundtrip_sealed [where vs = "[WNum 4]", OF _ _ _ _ _ _ xor_sodium_ok talker_peers]]) auto

text \<open>
  C37. A ciphertext that libsodium rejects is not rejected by the reader: it ignores the result of
  the decryption, returns 0 and fills the packet from a buffer that was never written. An
  \<open>error\<close> packet then has the uninitialised first byte of the new block as its reason.
\<close>

theorem read_packet_accepts_forgery:
  assumes "buf_ok w inb" and "hwf w" and "plenty w" and "little w" and "e_remote_active e" and "sodium_ok S" and "enc_ok S e"
    and "pending w inb = enc_header (of_nat (24 + length c)) i packet_error @ nonce @ c @ rest" and "length nonce = 24"
    and "box_open_afternm S c nonce (e_nm_kkey (prepped S e)) = None" and "24 + length c < 2 ^ 31"
  shows "wp (excom_protocol_read_packet S pk inb (Some e)) (\<lambda>(r, pk', inb', enc') w'. r = 0 \<and>
    pk_type pk' = packet_error \<and> pk_data pk' = [NVal (junk w (fresh w) 0)]) w"
proof -
  let ?j = "junk w (fresh w)"
  have pend: "pending w inb = enc_header (of_nat (length (nonce @ c))) i packet_error @ (nonce @ c) @ rest"
    using assms(8,9) by simp
  have en: "encrypting (Some e)" "enc_ok S (the (Some e))" using assms(5,7) by (simp_all add: encrypting_def)
  have got: "map ?j [0..<32] = (case box_open_afternm S c nonce (e_nm_kkey (prepped S (the (Some e)))) of
      None \<Rightarrow> map ?j [0..<32] | Some m \<Rightarrow> drop 32 m)" using assms(10) by simp
  have fields: "map ?j [0..<32] = enc_fields [WNum (?j 0)] @ map ?j [1..<32]"
    by (simp add: upt_conv_Cons)
  have len: "length (nonce @ c) < 2 ^ 31" using assms(9,11) by simp
  have v: "data_val w' data [WNum b] \<longleftrightarrow> data = [NVal b]" for w' data b
    by (cases data) auto
  have ty: "packet_fields packet_error = Some [FNumber8 ''reason'']" "fields_ok [FNumber8 ''reason''] [WNum (?j 0)]"
    by simp_all
  show ?thesis
    by (rule wp_mono [OF read_packet_sealed [OF assms(1-4) en(1) assms(6) en(2) pend refl assms(9) got ty fields len]])
       (auto simp: fetched_def v)
qed

theorem read_packet_accepts_forgery_witness:
  "wp (excom_protocol_read_packet xor_sodium (error_packet 0) (on_block 0 33 33) (Some (talker 1 2)))
     (\<lambda>(r, pk', inb', enc') w'. r = 0 \<and> pk_data pk' = [NVal 170]) (trio (enc_header 25 1 packet_error @ replicate 24 6 @ [5]))"
proof -
  let ?bs = "enc_header 25 1 packet_error @ replicate 24 6 @ [5]"
  have t: "buf_ok (trio ?bs) (on_block 0 33 33)" "pending (trio ?bs) (on_block 0 33 33) = ?bs"
    using trio_input [of ?bs 33] by simp_all
  have t2: "pending (trio ?bs) (on_block 0 33 33) =
      enc_header (of_nat (24 + length [5 :: byte])) 1 packet_error @ replicate 24 6 @ [5] @ []"
    unfolding t(2) by simp
  have none: "box_open_afternm xor_sodium [5] n k = None" for n k
  proof (cases "box_open_afternm xor_sodium [5] n k")
    case (Some m)
    then show ?thesis using box_opens [OF xor_sodium_ok, of "[5]" n k m] by simp
  qed
  show ?thesis
    by (rule wp_mono [OF read_packet_accepts_forgery [OF t(1) _ _ _ _ xor_sodium_ok _ t2]]) (auto simp: none)
qed

section \<open>Sending\<close>

lemma init_err: "hwf w \<Longrightarrow> plenty w \<Longrightarrow> \<exists>w'. excom_buffer_init raw_buffer 32 w = Inr ((0, new_buffer (fresh w)), w') \<and>
    ready w' (new_buffer (fresh w)) \<and> mframe {} w w' \<and> fresh w' = Suc (fresh w)"
  using buffer_init_wp [of w 32 raw_buffer] by (auto simp: wp_iff new_buffer_def)

lemma protocol_write_run:
  assumes "sane w" and "hwf w" and "plenty w" and "packet_fields (pk_type pk) = Some fs"
    and "data_val w (pk_data pk) vs" and "fields_ok fs vs" and "\<forall>i \<in> data_ids (pk_data pk). i < fresh w"
    and "\<not> encrypting enc" and "64 + length (enc_fields vs) < 2 ^ 32"
  obtains w1 w2 b pk' where "mframe {} w w1" "fresh w1 = Suc (fresh w)"
    "appended w1 (new_buffer (fresh w)) (enc_frame (pk_id pk, pk_type pk, vs)) w2 b"
    "excom_protocol_write S pk sock enc w =
       bind (excom_buffer_write b sock) (\<lambda>(err, buffer).
         if err \<noteq> 0 then ret (err, pk', enc)
         else bind (excom_buffer_destroy buffer) (\<lambda>_. ret (0, pk', enc))) w2"
proof -
  let ?b = "new_buffer (fresh w)"
  obtain w1 where w1: "excom_buffer_init raw_buffer 32 w = Inr ((0, ?b), w1)" "ready w1 ?b" "mframe {} w w1"
      "fresh w1 = Suc (fresh w)"
    using init_err [OF assms(2,3)] by blast
  have cr: "crypto_ready S enc" using assms(8) by (simp add: crypto_ready_def)
  have pl: "enc_fields vs = payload S enc w1 (enc_fields vs)" using assms(8) by (simp add: payload_def)
  have s1: "sane w1" using assms(1) mframe_envD [OF w1(3)] by (simp add: sane_def)
  have d1: "data_val w1 (pk_data pk) vs" using assms(5) w1(3) assms(2) by (rule data_val_frame) simp
  have o1: "\<forall>i \<in> data_ids (pk_data pk). i < fresh w1" using assms(7) w1(4) by auto
  have fit: "unat (b_used ?b) + 64 + length (enc_fields vs) < 2 ^ 32" using assms(9) by simp
  have "wp (excom_protocol_write_packet S pk ?b enc) (\<lambda>(r, pk', b', enc') w'. r = 0 \<and> enc' = enc \<and>
      appended w1 ?b (enc_frame (pk_id pk, pk_type pk, vs)) w' b') w1"
    by (rule wp_mono [OF write_packet_ready [OF s1 w1(2) assms(4) d1 assms(6) o1 cr refl pl fit]])
       (use assms(8) in \<open>auto simp: enc_after_def payload_draws_def enc_frame_def\<close>)
  then obtain pk' b w2 where w2: "excom_protocol_write_packet S pk ?b enc w1 = Inr ((0, pk', b, enc), w2)"
      "appended w1 ?b (enc_frame (pk_id pk, pk_type pk, vs)) w2 b"
    by (auto simp: wp_iff)
  show ?thesis
    by (rule that [OF w1(3,4) w2(2), of pk']) (simp add: excom_protocol_write_def bind_run w1(1) w2(1))
qed

lemma enc_frame_nonempty: "enc_frame x \<noteq> []"
  by (cases x) (simp add: enc_frame_def enc_header_eq be32_def)

lemma flushed_blocks:
  assumes f: "flushed sock w b r w' b'" and ok: "buf_ok w b" "hwf w" and ne: "pending w b \<noteq> []" and fr: "b_freeable b"
  shows "(\<lambda>i. if i \<in> bids b' then None else blocks w' i) = (\<lambda>i. if i \<in> bids b then None else blocks w i)"
proof (cases "drop (fst (write_answer (outs w) (length (pending w b)))) (pending w b) = []")
  case True
  then have d: "b_buf b' = Null" "\<forall>i \<in> bids b. blocks w' i = None"
    using f ne fr by (auto simp: flushed_def split: prod.splits)
  have "blocks w' i = blocks w i" if "i \<notin> bids b" for i
  proof (cases "i < fresh w")
    case True
    then show ?thesis using ioframe_blocks [OF flushed_frame [OF f] _ that] by simp
  next
    case False
    then show ?thesis
      using ioframe_hwf [OF flushed_frame [OF f] ok(2)] ok(2) f
      by (auto simp: hwf_def flushed_def split: prod.splits)
  qed
  then show ?thesis using d by (auto simp: bids_def)
next
  case False
  then have d: "blocks w' = blocks w" "contents w' b' = contents w b" "bids b' \<subseteq> bids b"
    using f by (auto simp: flushed_def split: prod.splits)
  have c: "contents w b \<noteq> []" using ne by (auto simp: pending_def)
  then obtain i bs where "b_buf b = Ptr i 0" using ok(1) by (auto simp: contents_def elim: buf_ok_cases)
  moreover have "bids b' \<noteq> {}" using c d(2) by (auto simp: contents_def bids_def split: ptr.splits)
  ultimately have "bids b' = bids b" using d(3) by (auto simp: bids_def)
  then show ?thesis by (simp only: d(1))
qed

text \<open>
  \<open>excom_protocol_write\<close> on a descriptor that takes some bytes returns 0 whatever part of
  the packet the single \<open>write\<close> took: the descriptor gets only that prefix of the frame, the rest
  is destroyed with the buffer, and the heap is as before.
\<close>

theorem protocol_write_truncates:
  assumes "sane w" and "hwf w" and "plenty w" and "packet_fields (pk_type pk) = Some fs"
    and "data_val w (pk_data pk) vs" and "fields_ok fs vs" and "\<forall>i \<in> data_ids (pk_data pk). i < fresh w"
    and "\<not> encrypting enc" and "64 + length (enc_fields vs) < 2 ^ 32" and "outs w = Inr k # os"
  shows "wp (excom_protocol_write S pk sock enc) (\<lambda>(r, pk', enc') w'. r = 0 \<and> blocks w' = blocks w \<and>
    wire w' sock = wire w sock @ take k (enc_frame (pk_id pk, pk_type pk, vs))) w"
proof -
  let ?fr = "enc_frame (pk_id pk, pk_type pk, vs)" and ?b = "new_buffer (fresh w)"
  obtain w1 w2 b pk' where q: "mframe {} w w1" "fresh w1 = Suc (fresh w)" "appended w1 ?b ?fr w2 b"
    and run: "excom_protocol_write S pk sock enc w =
       bind (excom_buffer_write b sock) (\<lambda>(err, buffer).
         if err \<noteq> 0 then ret (err, pk', enc)
         else bind (excom_buffer_destroy buffer) (\<lambda>_. ret (0, pk', enc))) w2"
    by (rule protocol_write_run [OF assms(1-9), of S sock])
  have s: "bstep w1 ?b w2 b" and r2: "ready w2 b" and p2: "pending w2 b = ?fr"
    using q(3) by (simp_all add: appended_def pending_def)
  have ok: "buf_ok w2 b" "hwf w2" "\<not> b_mutex b" and fr: "b_freeable b"
    using r2 bstepD(6) [OF s] by (simp_all add: ready_def)
  have env: "outs w2 = Inr k # os" "wire w2 = wire w"
    using mframe_envD [OF bstepD(2) [OF s]] mframe_envD [OF q(1)] assms(10) by simp_all
  have ans: "write_answer (outs w2) (length (pending w2 b)) = (min k (length ?fr), 0)"
    using env(1) p2 enc_frame_nonempty by (simp add: write_answer_def)
  have bid: "bids ?b = {fresh w}" by simp
  have final: "wp (bind (excom_buffer_write b sock) (\<lambda>(err, buffer).
         if err \<noteq> 0 then ret (err, pk', enc)
         else bind (excom_buffer_destroy buffer) (\<lambda>_. ret (0, pk', enc))))
      (\<lambda>(r, pk', enc') w'. r = 0 \<and> blocks w' = blocks w \<and> wire w' sock = wire w sock @ take k ?fr) w2"
    unfolding wp_bind
  proof (rule wp_mono [OF buffer_write_wp [OF ok]], clarify, goal_cases)
    case (1 r b3 w3)
    have e: "r = 0" "buf_ok w3 b3" "b_freeable b3" "wire w3 sock = wire w sock @ take k ?fr"
      using 1 ans env(2) fr p2 by (auto simp: flushed_def min_def)
    have "(\<lambda>i. if i \<in> bids b3 then None else blocks w3 i) = blocks w"
      using flushed_blocks [OF 1 ok(1,2) _ fr] destroyed_blocks [OF s assms(2) q(1,2) bid] p2 enc_frame_nonempty by simp
    then show ?case
      using e by (auto intro!: buffer_destroy_wp [OF e(2,3)] simp: mframe_envD(1))
  qed
  show ?thesis using final unfolding wp_def run .
qed

theorem protocol_write_truncates_witness:
  "wp (excom_protocol_write xor_sodium (error_packet 4) 7 None) (\<lambda>(r, pk', enc') w'. r = 0 \<and>
     wire w' 7 = take 3 (enc_frame (1, packet_error, [WNum 4]))) (trio []\<lparr>outs := [Inr 3]\<rparr>)"
  by (rule wp_mono [OF protocol_write_truncates [where vs = "[WNum 4]"]])
     (auto simp: encrypting_def trio_def sane_def hwf_def plenty_def)

text \<open>
  When the single \<open>write\<close> fails, \<open>excom_protocol_write\<close> returns its error number without
  destroying the buffer: the block of the packet leaks, and nothing was sent.
\<close>

theorem protocol_write_error_leaks:
  assumes "sane w" and "hwf w" and "plenty w" and "packet_fields (pk_type pk) = Some fs"
    and "data_val w (pk_data pk) vs" and "fields_ok fs vs" and "\<forall>i \<in> data_ids (pk_data pk). i < fresh w"
    and "\<not> encrypting enc" and "64 + length (enc_fields vs) < 2 ^ 32" and "outs w = Inl e # os" and "e \<noteq> 0"
  shows "wp (excom_protocol_write S pk sock enc) (\<lambda>(r, pk', enc') w'. r = e \<and> wire w' sock = wire w sock \<and>
    (\<exists>i \<ge> fresh w. blocks w' i \<noteq> None)) w"
proof -
  let ?fr = "enc_frame (pk_id pk, pk_type pk, vs)" and ?b = "new_buffer (fresh w)"
  obtain w1 w2 b pk' where q: "mframe {} w w1" "fresh w1 = Suc (fresh w)" "appended w1 ?b ?fr w2 b"
    and run: "excom_protocol_write S pk sock enc w =
       bind (excom_buffer_write b sock) (\<lambda>(err, buffer).
         if err \<noteq> 0 then ret (err, pk', enc)
         else bind (excom_buffer_destroy buffer) (\<lambda>_. ret (0, pk', enc))) w2"
    by (rule protocol_write_run [OF assms(1-9), of S sock])
  have s: "bstep w1 ?b w2 b" and r2: "ready w2 b" and p2: "pending w2 b = ?fr"
    using q(3) by (simp_all add: appended_def pending_def)
  have ok: "buf_ok w2 b" "hwf w2" "\<not> b_mutex b" using r2 by (simp_all add: ready_def)
  have env: "outs w2 = Inl e # os" "wire w2 = wire w"
    using mframe_envD [OF bstepD(2) [OF s]] mframe_envD [OF q(1)] assms(10) by simp_all
  have ans: "write_answer (outs w2) (length (pending w2 b)) = (0, e)"
    using env(1) p2 enc_frame_nonempty by (simp add: write_answer_def)
  have "pending w2 b \<noteq> []" using p2 enc_frame_nonempty by simp
  then obtain i where i: "b_buf b = Ptr i 0" "blocks w2 i \<noteq> None"
    using ok(1) by (auto simp: pending_def contents_def elim: buf_ok_cases)
  have "fresh w \<le> i" using bstepD(3) [OF s, of i] i(1) q(2) by (auto simp: bids_def new_buffer_def)
  then have leak: "\<exists>i \<ge> fresh w. blocks w2 i \<noteq> None" using i(2) by blast
  have final: "wp (bind (excom_buffer_write b sock) (\<lambda>(err, buffer).
         if err \<noteq> 0 then ret (err, pk', enc)
         else bind (excom_buffer_destroy buffer) (\<lambda>_. ret (0, pk', enc))))
      (\<lambda>(r, pk', enc') w'. r = e \<and> wire w' sock = wire w sock \<and> (\<exists>i \<ge> fresh w. blocks w' i \<noteq> None)) w2"
    unfolding wp_bind
  proof (rule wp_mono [OF buffer_write_wp [OF ok]], clarify, goal_cases)
    case (1 r b3 w3)
    have "r = e" "wire w3 sock = wire w sock" "blocks w3 = blocks w2"
      using 1 ans env(2) p2 enc_frame_nonempty by (auto simp: flushed_def)
    then show ?case using leak assms(11) by simp
  qed
  show ?thesis using final unfolding wp_def run .
qed

theorem protocol_write_error_leaks_witness:
  "wp (excom_protocol_write xor_sodium (error_packet 4) 7 None) (\<lambda>(r, pk', enc') w'. r = EIO \<and>
     (\<exists>i \<ge> 3. blocks w' i \<noteq> None)) (trio []\<lparr>outs := [Inl EIO]\<rparr>)"
  by (rule wp_mono [OF protocol_write_error_leaks [where vs = "[WNum 4]"]])
     (auto simp: encrypting_def trio_def sane_def hwf_def plenty_def)

end
