(* ===== verification/ServerProps.thy ===== *)
theory ServerProps
  imports Receive ProtocolProps
begin

text \<open>
  The properties of the server's side of a connection: the handlers refine the handshake protocol,
  the worker handles the queue in order, \<open>check_packet\<close> reassembles the frames in order.
\<close>

section \<open>Runs of the protocol\<close>

text \<open>The replies to a sequence of messages with their ids.\<close>

primrec spec_run :: "(protocol_state \<Rightarrow> msg \<Rightarrow> protocol_state \<times> msg list) \<Rightarrow> protocol_state \<Rightarrow>
    (u16 \<times> msg) list \<Rightarrow> protocol_state \<times> (u16 \<times> msg) list" where
  "spec_run f st [] = (st, [])"
| "spec_run f st (x # xs) =
     (let r = f st (snd x); rs = spec_run f (fst r) xs in (fst rs, map (Pair (fst x)) (snd r) @ snd rs))"

definition short_replies :: "protocol_state \<times> msg list \<Rightarrow> bool" where
  "short_replies r \<longleftrightarrow> length (snd r) \<le> 1 \<and> (\<forall>(t, vs) \<in> set (snd r). length (enc_fields vs) \<le> 64)"

lemma server_spec_short: "length pk = 32 \<Longrightarrow> short_replies (server_spec pk st m)"
  by (simp add: short_replies_def server_spec_def enc_fields_def split: prod.split)

lemma client_spec_short: "length pk = 32 \<Longrightarrow> short_replies (client_spec pk st m)"
  by (simp add: short_replies_def client_spec_def enc_fields_def hello_world_def split: prod.split)

lemma length_framed:
  assumes "sodium_ok S" and "enc_ok S e"
  shows "length (framed S e w i (t, vs)) \<le> 64 + length (enc_fields vs)"
  using length_payload_le [of S "Some e" w "enc_fields vs"] assms
  by (simp add: framed_def crypto_ready_def Let_def)

section \<open>One packet after the other\<close>

lemma handled_conn: "handled S w d raw r d' w' \<Longrightarrow> conn_ok S w' d'"
  by (simp add: handled_def answered_def)

text \<open>A connection has handled the packet of a frame with id \<open>i\<close>, as far as its peer can see.\<close>

definition replied ::
    "sodium \<Rightarrow> world \<Rightarrow> 'a conn_scheme \<Rightarrow> u16 \<Rightarrow> protocol_state \<times> msg list \<Rightarrow> world \<Rightarrow> 'a conn_scheme \<Rightarrow> bool" where
  "replied S w d i r w' d' \<longleftrightarrow>
     conn_ok S w' d' \<and> c_state d' = fst r \<and> b_pos (c_out d') = b_pos (c_out d) \<and> wire w' = wire w \<and> outs w' = outs w \<and>
     contents w' (c_out d') = contents w (c_out d) @ concat (map (framed S (c_keys d) w i) (snd r)) \<and>
     e_remote_pkey (c_keys d') = e_remote_pkey (c_keys d) \<and> e_local (c_keys d') = e_local (c_keys d) \<and>
     session_key S (c_keys d') = session_key S (c_keys d) \<and> junk w' = junk w \<and>
     e_remote_active (c_keys d') =
       (e_remote_active (c_keys d) \<or> c_state d = STATE_PREENCRYPT \<and> fst r = STATE_ENCRYPT)"

lemma handled_replied:
  assumes h: "handled S w1 d1 raw r d' w'" and m: "mframe {} w w1" and ok: "conn_ok S w d"
    and d1: "c_out d1 = c_out d" "c_keys d1 = c_keys d" "c_state d1 = c_state d"
  shows "replied S w d (pk_id raw) r w' d'"
proof -
  have "contents w1 (c_out d) = contents w (c_out d)"
    using conn_okD(1) [OF ok] by (intro buf_frame(2) [OF _ _ m]) (simp_all add: ready_def)
  moreover have "framed S (c_keys d) w1 = framed S (c_keys d) w"
    by (intro ext framed_cong) (rule mframe_envD(4) [OF m])
  ultimately show ?thesis
    using h mframe_envD(1,2,7) [OF m] d1 by (auto simp: replied_def handled_def answered_def dest: ioframe_junk)
qed

lemma replied_pending:
  assumes "replied S w d i r w' d'" and "conn_ok S w d"
  shows "pending w' (c_out d') = pending w (c_out d) @ concat (map (framed S (c_keys d) w i) (snd r))"
proof -
  have "unat (b_pos (c_out d)) \<le> length (contents w (c_out d))"
    using conn_okD(1) [OF assms(2)] by (auto simp: ready_def buf_ok_def contents_def split: ptr.splits)
  then show ?thesis using assms(1) by (simp add: replied_def pending_def)
qed

lemma short_framed:
  assumes ok: "conn_ok S w d" and r: "short_replies r"
  shows "length (concat (map (framed S (c_keys d) w i) (snd r))) \<le> 128"
proof (cases "snd r")
  case (Cons x xs)
  then have "xs = []" "length (enc_fields (snd x)) \<le> 64" using r by (auto simp: short_replies_def)
  then show ?thesis
    using length_framed [OF conn_okD(3,4) [OF ok], of w i "fst x" "snd x"] Cons by simp
qed simp

lemma replied_used:
  assumes "replied S w d i r w' d'" and "conn_ok S w d" and "short_replies r"
  shows "unat (b_used (c_out d')) \<le> unat (b_used (c_out d)) + 128"
proof -
  have "buf_ok w (c_out d)" "buf_ok w' (c_out d')"
    using assms(1) conn_okD(1) [OF assms(2)] by (simp_all add: replied_def conn_ok_def ready_def)
  moreover have "contents w' (c_out d') = contents w (c_out d) @ concat (map (framed S (c_keys d) w i) (snd r))"
    using assms(1) by (simp add: replied_def)
  ultimately show ?thesis
    using length_contents [of w "c_out d"] length_contents [of w' "c_out d'"] short_framed [OF assms(2,3), of i] by simp
qed

lemma handled_room:
  assumes ok: "conn_ok S w d" and h: "handled S w d raw r d' w'" and r: "short_replies r"
  shows "unat (b_used (c_out d')) \<le> unat (b_used (c_out d)) + 128"
  using replied_used [OF handled_replied [OF h mframe_refl ok refl refl refl] ok r]
    conn_okD(1) [OF ok] by (simp add: ready_def)

lemma raw_ok_frame:
  assumes r: "raw_ok w (c_out d) raw2 vs" and h: "handled S w d raw r d' w'" and wf: "hwf w"
    and dis: "data_ids (pk_data raw2) \<inter> data_ids (pk_data raw) = {}"
  shows "raw_ok w' (c_out d') raw2 vs"
proof -
  let ?I = "data_ids (pk_data raw) \<union> bids (c_out d)"
  have f: "ioframe ?I w w'" and b: "\<forall>j \<in> bids (c_out d'). j \<in> bids (c_out d) \<or> fresh w \<le> j"
    using h by (simp_all add: handled_def answered_def)
  have m: "mframe ?I (w\<lparr>wire := wire w', outs := outs w', ins := ins w', entropy := entropy w'\<rparr>) w'"
    using f by (simp add: ioframe_def)
  have "fv_val (w\<lparr>wire := a, outs := b, ins := c, entropy := e\<rparr>) = fv_val w" for a b c e
    by (intro ext) (auto simp: fv_val_def str_val_def reads_def load_def split: fval.splits ptr.splits option.splits)
  then have same: "data_val (w\<lparr>wire := a, outs := b, ins := c, entropy := e\<rparr>) xs ys = data_val w xs ys" for a b c e xs ys
    by (simp add: data_val_def)
  have "data_val w' (pk_data raw2) vs" if "data_val w (pk_data raw2) vs"
    by (rule data_val_frame [OF _ m]) (use that r wf dis same in \<open>auto simp: raw_ok_def\<close>)
  moreover have "data_ids (pk_data raw2) \<inter> bids (c_out d') = {}"
    using b r by (force simp: raw_ok_def)
  ultimately show ?thesis
    using r ioframe_fresh [OF f] by (force simp: raw_ok_def split: option.splits)
qed

text \<open>Packets on their way to the handlers: each as the reader leaves it, apart from the others.\<close>

primrec raws_ok :: "world \<Rightarrow> buffer \<Rightarrow> packet list \<Rightarrow> wval list list \<Rightarrow> bool" where
  "raws_ok w out [] vss = (vss = [])"
| "raws_ok w out (raw # raws) vss =
     (\<exists>vs vss'. vss = vs # vss' \<and> raw_ok w out raw vs \<and>
        (\<forall>raw2 \<in> set raws. data_ids (pk_data raw2) \<inter> data_ids (pk_data raw) = {}) \<and> raws_ok w out raws vss')"

lemma raws_ok_frame:
  assumes "raws_ok w (c_out d) raws vss" and "handled S w d raw r d' w'" and "hwf w"
    and "\<forall>raw2 \<in> set raws. data_ids (pk_data raw2) \<inter> data_ids (pk_data raw) = {}"
  shows "raws_ok w' (c_out d') raws vss"
  using assms(1,4)
proof (induction raws arbitrary: vss)
  case (Cons x xs)
  then show ?case using raw_ok_frame [OF _ assms(2,3), of x] by fastforce
qed simp

text \<open>The messages packets stand for.\<close>

definition messages :: "packet list \<Rightarrow> wval list list \<Rightarrow> (u16 \<times> msg) list" where
  "messages raws vss = map2 (\<lambda>raw vs. (pk_id raw, pk_type raw, vs)) raws vss"

lemma messages_Cons [simp]:
  "messages (raw # raws) (vs # vss) = (pk_id raw, pk_type raw, vs) # messages raws vss"
  "messages [] vss = []"
  by (simp_all add: messages_def)

text \<open>
  What a run over packets has done to a connection that was \<open>d\<close> in \<open>w\<close>: \<open>r\<close> is the answer of the
  specification, and besides the output buffer only the blocks \<open>I\<close> were written.
\<close>

definition conversed :: "sodium \<Rightarrow> nat set \<Rightarrow> world \<Rightarrow> 'a conn_scheme \<Rightarrow>
    protocol_state \<times> (u16 \<times> msg) list \<Rightarrow> 'a conn_scheme \<Rightarrow> world \<Rightarrow> bool" where
  "conversed S I w d r d' w' \<longleftrightarrow>
     conn_ok S w' d' \<and> c_state d' = fst r \<and> ioframe (I \<union> bids (c_out d)) w w' \<and>
     (\<forall>j \<in> bids (c_out d'). j \<in> bids (c_out d) \<or> fresh w \<le> j) \<and>
     e_remote_pkey (c_keys d') = e_remote_pkey (c_keys d) \<and> e_local (c_keys d') = e_local (c_keys d) \<and>
     session_key S (c_keys d') = session_key S (c_keys d) \<and> (e_remote_active (c_keys d) \<longrightarrow> e_remote_active (c_keys d')) \<and>
     (\<not> e_remote_active (c_keys d') \<longrightarrow>
        contents w' (c_out d') = contents w (c_out d) @ concat (map enc_frame (snd r)))"

lemma conversed_nil: "conn_ok S w d \<Longrightarrow> conversed S I w d (c_state d, []) d w"
  by (simp add: conversed_def)

lemma conversed_step:
  assumes h: "handled S w d raw r d1 w1" and c: "conversed S I w1 d1 (spec_run f (fst r) xs) d2 w2"
    and r: "r = f (c_state d) (pk_type raw, vs)"
  shows "conversed S (data_ids (pk_data raw) \<union> I) w d
    (spec_run f (c_state d) ((pk_id raw, pk_type raw, vs) # xs)) d2 w2"
proof -
  have a: "answered S (data_ids (pk_data raw)) w d (pk_id raw) (snd r) w1 d1" "c_state d1 = fst r"
    "e_remote_active (c_keys d) \<Longrightarrow> e_remote_active (c_keys d1)"
    using h by (auto simp: handled_def)
  have f: "ioframe (data_ids (pk_data raw) \<union> bids (c_out d)) w w1" "fresh w \<le> fresh w1"
    "\<forall>j \<in> bids (c_out d1). j \<in> bids (c_out d) \<or> fresh w \<le> j"
    using a(1) ioframe_fresh by (auto simp: answered_def)
  have "ioframe (I \<union> bids (c_out d1)) w1 w2" using c by (simp add: conversed_def)
  then have "ioframe (data_ids (pk_data raw) \<union> I \<union> bids (c_out d)) w w2"
    by (rule ioframe_trans [OF f(1)]) (use f(3) in auto)
  moreover have "\<forall>j \<in> bids (c_out d2). j \<in> bids (c_out d) \<or> fresh w \<le> j"
    using c f(2,3) by (fastforce simp: conversed_def)
  moreover have "\<not> e_remote_active (c_keys d) \<Longrightarrow>
      concat (map (framed S (c_keys d) w (pk_id raw)) (snd r)) = concat (map (enc_frame \<circ> Pair (pk_id raw)) (snd r))"
    by (intro arg_cong [of _ _ concat] map_cong) (auto simp: framed_plain)
  ultimately show ?thesis
    using a c unfolding r conversed_def by (auto simp: answered_def Let_def)
qed

text \<open>
  The bytes \<open>bs\<close> are the replies to a sequence of messages, in order: each framed with the id of its
  message and the keys \<open>e\<close>, which seal from the exchange of keys on; \<open>w\<close> is where its nonce was drawn.
\<close>

primrec said :: "sodium \<Rightarrow> (protocol_state \<Rightarrow> msg \<Rightarrow> protocol_state \<times> msg list) \<Rightarrow> encrypt \<Rightarrow> protocol_state \<Rightarrow>
    (u16 \<times> msg) list \<Rightarrow> byte list \<Rightarrow> bool" where
  "said S f e st [] bs \<longleftrightarrow> bs = []"
| "said S f e st (x # xs) bs \<longleftrightarrow> (\<exists>w bs'. let r = f st (snd x) in
     bs = concat (map (framed S e w (fst x)) (snd r)) @ bs' \<and>
     said S f (e\<lparr>e_remote_active := e_remote_active e \<or> st = STATE_PREENCRYPT \<and> fst r = STATE_ENCRYPT\<rparr>) (fst r) xs bs')"

lemma framed_keys:
  assumes "e_remote_active e' = e_remote_active e" and "session_key S e' = session_key S e"
  shows "framed S e' = framed S e"
  using assms by (auto simp: fun_eq_iff framed_def payload_def encrypting_def sealed_body_def sealed_def session_key_def Let_def)

lemma said_keys:
  assumes "e_remote_active e' = e_remote_active e" and "session_key S e' = session_key S e"
  shows "said S f e' st xs = said S f e st xs"
  using assms
proof (induction xs arbitrary: e e' st)
  case (Cons x xs)
  note [simp] = framed_keys [OF Cons.prems]
  have "said S f (e'\<lparr>e_remote_active := a\<rparr>) st' xs = said S f (e\<lparr>e_remote_active := a\<rparr>) st' xs" for a st'
    by (rule Cons.IH) (use Cons.prems in simp_all)
  then show ?case using Cons.prems(1) by (simp add: fun_eq_iff Let_def)
qed (simp add: fun_eq_iff)

section \<open>The worker\<close>

lemma client_data_more:
  fixes d d' :: client_data
  assumes "conn.more d' = conn.more d"
  shows "cd_queue d' = cd_queue d" and "cd_mutex d' = cd_mutex d" and "cd_in d' = cd_in d"
    and "cd_disconnected d' = cd_disconnected d"
  using assms by (cases d; cases d'; simp)+

lemma other_fields [simp]:
  "conn_ok S w (d\<lparr>cd_queue := q\<rparr>) = conn_ok S w d" "conn_ok S w (d\<lparr>cd_mutex := m\<rparr>) = conn_ok S w d"
  "conn_ok S w (d\<lparr>cd_in := b\<rparr>) = conn_ok S w d"
  "conversed S I w (d\<lparr>cd_queue := q\<rparr>) r d' w' = conversed S I w d r d' w'"
  "conversed S I w (d\<lparr>cd_mutex := m\<rparr>) r d' w' = conversed S I w d r d' w'"
  "conversed S I w d r (d'\<lparr>cd_mutex := m\<rparr>) w' = conversed S I w d r d' w'"
  by (simp_all add: conn_ok_def conversed_def)

definition all_ids :: "packet list \<Rightarrow> nat set" where
  "all_ids raws = (\<Union>raw \<in> set raws. data_ids (pk_data raw))"

lemma drain_ready:
  assumes "sc_data c = Some (p, d)" and "queue_holds (cd_queue d) raws" and "raws_ok w (c_out d) raws vss"
    and "conn_ok S w d" and "unat (b_used (c_out d)) + 128 * Suc (length raws) < 2 ^ 32"
    and "pk = ep_pkey (the (e_local (c_keys d)))"
  shows "wp (loop (drain_step S) c) (\<lambda>c' w'. \<exists>d'. sc_data c' = Some (p, d') \<and> queue_holds (cd_queue d') [] \<and>
    q_nodes (cd_queue d') = q_nodes (cd_queue d) \<and> cd_mutex d' = cd_mutex d \<and>
    (\<exists>bs. contents w' (c_out d') = contents w (c_out d) @ bs \<and>
      said S (server_spec pk) (c_keys d) (c_state d) (messages raws vss) bs) \<and>
    conversed S (all_ids raws) w d (spec_run (server_spec pk) (c_state d) (messages raws vss)) d' w') w"
  using assms
proof (induction raws arbitrary: c d w vss)
  case Nil
  then have "q_packets (cd_queue d) = Null" using queue_empty_iff by blast
  then show ?case
    using Nil by (intro loop_step_wp) (simp add: drain_step_def conversed_nil all_ids_def)
next
  case (Cons raw raws)
  obtain vs vss' where vss: "vss = vs # vss'" "raw_ok w (c_out d) raw vs" "raws_ok w (c_out d) raws vss'"
      "\<forall>raw2 \<in> set raws. data_ids (pk_data raw2) \<inter> data_ids (pk_data raw) = {}"
    using Cons.prems(3) by auto
  obtain q where q: "unlink_packet (cd_queue d) = Inr (raw, q)" "queue_holds q raws" "q_nodes q = q_nodes (cd_queue d)"
    using unlink_packet_ok [OF Cons.prems(2)] by auto
  let ?d = "d\<lparr>cd_queue := q\<rparr>" and ?r = "server_spec pk (c_state d) (pk_type raw, vs)"
  have ok: "conn_ok S w ?d" using Cons.prems(4) by simp
  have len: "length pk = 32" using conn_okD(5) [OF Cons.prems(4)] Cons.prems(6) by simp
  have ne: "q_packets (cd_queue d) \<noteq> Null" using queue_empty_iff [OF Cons.prems(2)] by simp
  have room: "roomy ?d" using Cons.prems(5) by (simp add: roomy_def)
  have H: "wp (server_handle_packet S ?d raw) (handled S w ?d raw ?r) w"
    using server_handle_packet_ready [OF ok room, of raw vs pk] vss(2) Cons.prems(6) by simp
  show ?case
  proof (rule loop_step_wp, simp add: drain_step_def Cons.prems(1) ne q(1), rule wp_mono [OF H], goal_cases)
    case (1 d1 w1)
    note h1 = 1
    have m: "conn.more d1 = conn.more ?d" using 1 by (simp add: handled_def answered_def)
    note cd = client_data_more [OF m]
    have ok1: "conn_ok S w1 d1" using 1 by (rule handled_conn)
    have used: "unat (b_used (c_out d1)) \<le> unat (b_used (c_out d)) + 128"
      using handled_room [OF ok 1 server_spec_short [OF len]] by simp
    have raws: "raws_ok w1 (c_out d1) raws vss'"
      using raws_ok_frame [OF _ 1, of raws vss'] vss conn_okD(1) [OF ok] by (simp add: ready_def)
    have pk: "pk = ep_pkey (the (e_local (c_keys d1)))"
      using 1 Cons.prems(6) by (simp add: handled_def answered_def)
    have st: "c_state d1 = fst ?r" using 1 by (simp add: handled_def)
    show ?case
    proof (rule wp_mono [OF Cons.IH [OF _ _ raws ok1 _ pk]], goal_cases)
      case 1
      show ?case by (simp add: update_event_def)
    next
      case 2
      show ?case using cd q by simp
    next
      case 3
      show ?case using used Cons.prems(5) by simp
    next
      case (4 c' w')
      then obtain d' where d': "sc_data c' = Some (p, d')" "queue_holds (cd_queue d') []"
        "q_nodes (cd_queue d') = q_nodes (cd_queue d)" "cd_mutex d' = cd_mutex d"
        "conversed S (all_ids raws) w1 d1 (spec_run (server_spec pk) (fst ?r) (messages raws vss')) d' w'"
        using cd q(3) st by auto
      obtain bs where bs: "contents w' (c_out d') = contents w1 (c_out d1) @ bs"
        "said S (server_spec pk) (c_keys d1) (fst ?r) (messages raws vss') bs"
        using 4 d'(1) st by auto
      let ?e = "(c_keys d)\<lparr>e_remote_active := e_remote_active (c_keys d) \<or> c_state d = STATE_PREENCRYPT \<and> fst ?r = STATE_ENCRYPT\<rparr>"
      have k: "e_remote_active (c_keys d1) = e_remote_active ?e" "session_key S (c_keys d1) = session_key S ?e"
        "contents w1 (c_out d1) = contents w (c_out d) @ concat (map (framed S (c_keys d) w (pk_id raw)) (snd ?r))"
        using h1 by (simp_all add: handled_def answered_def)
      have "said S (server_spec pk) ?e (fst ?r) (messages raws vss') bs" using bs(2) said_keys [OF k(1,2)] by simp
      then have said: "\<exists>bs. contents w' (c_out d') = contents w (c_out d) @ bs \<and>
          said S (server_spec pk) (c_keys d) (c_state d) (messages (raw # raws) vss) bs"
        unfolding vss(1) messages_Cons said.simps using bs(1) k(3) by (auto simp: Let_def)
      have "all_ids (raw # raws) = data_ids (pk_data raw) \<union> all_ids raws" by (simp add: all_ids_def)
      then show ?case
        using d'(1-4) said conversed_step [OF h1 d'(5), where vs = vs] vss(1) by auto
    qed
  qed
qed

lemma worker_step_ready:
  assumes c: "sc_data c = Some (p, d)" and q: "queue_holds (cd_queue d) raws" "raws \<noteq> []"
    and r: "raws_ok w (c_out d) raws vss" and ok: "conn_ok S w d" and m: "\<not> cd_mutex d" "\<not> cd_disconnected d"
    and fit: "unat (b_used (c_out d)) + 128 * Suc (length raws) < 2 ^ 32"
    and pk: "pk = ep_pkey (the (e_local (c_keys d)))"
  shows "wp (worker_step S wait c) (\<lambda>(go, c') w'. go \<and> (\<exists>d'. sc_data c' = Some (p, d') \<and>
    queue_holds (cd_queue d') [] \<and> q_nodes (cd_queue d') = q_nodes (cd_queue d) \<and> \<not> cd_mutex d' \<and>
    (\<exists>bs. contents w' (c_out d') = contents w (c_out d) @ bs \<and>
      said S (server_spec pk) (c_keys d) (c_state d) (messages raws vss) bs) \<and>
    conversed S (all_ids raws) w d (spec_run (server_spec pk) (c_state d) (messages raws vss)) d' w')) w"
proof -
  have ne: "q_packets (cd_queue d) \<noteq> Null" using queue_empty_iff [OF q(1)] q(2) by simp
  have d: "d\<lparr>cd_mutex := False\<rparr> = d" using m by (cases d) simp
  have c2: "sc_data (c\<lparr>sc_data := Some (p, d)\<rparr>) = Some (p, d)" by simp
  show ?thesis
    by (simp add: worker_step_def with_data_def c m ne d)
       (rule wp_mono [OF drain_ready [OF c2 q(1) r ok fit pk]], use m in auto)
qed

lemma flush_conn_ok:
  assumes "conn_ok S w d" and "flushed fd w (c_out d) r w' out"
  shows "conn_ok S w' (d\<lparr>c_out := out\<rparr>)"
  using assms flushed_ready [OF assms(2)] sane_frame [OF flushed_frame [OF assms(2)]] by (simp add: conn_ok_def)

section \<open>Examples\<close>

definition pair_of :: "byte \<Rightarrow> encrypt_pair" where
  "pair_of b = \<lparr>ep_pkey = replicate 32 b, ep_skey = replicate 32 (b + 1)\<rparr>"

text \<open>A connection on block 2 of a world \<open>trio\<close>, whose input is the \<open>n\<close> bytes of block 0.\<close>

definition peer :: "protocol_state \<Rightarrow> size_t \<Rightarrow> pqueue \<Rightarrow> client_data" where
  "peer st n q = \<lparr>c_state = st, c_keys = (excom_encrypt_init xor_sodium)\<lparr>e_local := Some (pair_of 7)\<rparr>,
     c_out = on_block 2 1 0, cd_queue = q, cd_mutex = False, cd_disconnected = False, cd_in = on_block 0 n n,
     cd_enc = raw_buffer\<rparr>"

lemma peer_simps [simp]:
  "c_state (peer st n q) = st" "c_out (peer st n q) = on_block 2 1 0" "cd_queue (peer st n q) = q"
  "cd_in (peer st n q) = on_block 0 n n" "\<not> cd_mutex (peer st n q)" "\<not> cd_disconnected (peer st n q)"
  "\<not> e_remote_active (c_keys (peer st n q))" "e_local (c_keys (peer st n q)) = Some (pair_of 7)"
  "roomy (peer st n q)" "\<not> b_mutex (on_block 0 n n)"
  by (simp_all add: peer_def roomy_def excom_encrypt_init_def on_block_def)

lemma peer_ok [simp]: "conn_ok xor_sodium (trio bs) (peer st n q)"
  by (simp add: conn_ok_def enc_ok_def) (simp add: peer_def excom_encrypt_init_def pair_of_def xor_sodium_def)

definition raw_of :: "u16 \<Rightarrow> fval list \<Rightarrow> packet" where
  "raw_of t data = \<lparr>pk_size = 0, pk_id = 1, pk_type = t, pk_data = data\<rparr>"

lemma raw_of_simps [simp]:
  "pk_type (raw_of t data) = t" "pk_id (raw_of t data) = 1" "pk_data (raw_of t data) = data"
  by (simp_all add: raw_of_def)

text \<open>A key in block 0, and a version 0.0.1 with an empty name.\<close>

definition key_in_0 :: fval where
  "key_in_0 = SVal \<lparr>s_size = 32, s_body = Ptr 0 0, s_freeable = True\<rparr>"

definition version_packet :: packet where
  "version_packet = raw_of packet_protocol_version [SVal excom_string_init, NVal 0, NVal 0, NVal 1]"

lemma version_packet_simps [simp]:
  "pk_type version_packet = 4" "pk_id version_packet = 1" "data_ids (pk_data version_packet) = {}"
  by (simp_all add: version_packet_def str_ids_def excom_string_init_def)

lemma raw_example [simp]:
  "raw_ok (trio (replicate 32 9)) (on_block 2 1 0) (raw_of packet_public_key [key_in_0]) [WStr (replicate 32 9)]"
  "raw_ok (trio bs) (on_block 2 1 0) version_packet [WStr [], WNum 0, WNum 0, WNum 1]"
  "raw_ok (trio bs) (on_block 2 1 0) (raw_of packet_ping []) []"
  "raw_ok (trio bs) (on_block 2 1 0) (raw_of packet_ok []) []"
  by (simp_all add: raw_ok_def key_in_0_def version_packet_def fields_ok_def str_val_def str_ids_def trio_def
      bids_def on_block_def reads_def load_def excom_string_init_def)

lemma key_ids [simp]: "fv_ids key_in_0 = {0}"
  by (simp add: key_in_0_def str_ids_def)

definition three :: pqueue where
  "three = \<lparr>q_packets = Ptr 1 0, q_last = Ptr 12 0,
     q_nodes = [1 \<mapsto> \<lparr>n_packet = version_packet, n_next = Ptr 11 0\<rparr>,
                11 \<mapsto> \<lparr>n_packet = raw_of packet_public_key [key_in_0], n_next = Ptr 12 0\<rparr>,
                12 \<mapsto> \<lparr>n_packet = raw_of packet_ping [], n_next = Null\<rparr>]\<rparr>"

lemma three_holds [simp]:
  "queue_holds three [version_packet, raw_of packet_public_key [key_in_0], raw_of packet_ping []]"
  unfolding queue_holds_def queue_blocks_def three_def by (rule exI [of _ "[1, 11, 12]"]) simp

lemma three_nodes [simp]: "q_nodes three (Suc 0) \<noteq> None"
  by (simp add: three_def)

lemma trio_block [simp]: "blocks (trio bs) (Suc 0) = Some [0]" "fresh (trio bs) = 3"
  by (simp_all add: trio_def)

definition client_of :: "client_data \<Rightarrow> server_client" where
  "client_of d = \<lparr>sc_fd = 5, sc_flags = 1, sc_data = Some (Ptr 1 0, d), sc_updates = [], sc_removed = False, sc_closed = 0\<rparr>"

lemma client_of_data [simp]: "sc_data (client_of d) = Some (Ptr 1 0, d)"
  by (simp add: client_of_def)

section \<open>What the handlers leave out\<close>

text \<open>
  Against the comments of \<open>excom_protocol_state_t\<close>, a \<open>reject\<close> does not lead to \<open>INVALID\<close> on either side, and the
  client does not wait for an \<open>ok\<close> in \<open>PREENCRYPT\<close>: there is none to be waited for, since it takes the \<open>ok\<close>
  before it enters that state.
\<close>

theorem reject_ignored:
  assumes "pk_type raw = packet_reject"
  shows "server_handle_packet S d raw = ret d" and "client_handle_packet S pair d raw = ret d"
  using assms by (simp_all add: server_handle_packet_def client_handle_packet_def)

theorem ok_ignored:
  assumes "pk_type raw = packet_ok" and "c_state d = STATE_PREENCRYPT"
  shows "client_handle_packet S pair d raw = ret d"
  using assms by (simp add: client_handle_packet_def client_ok_def)

section \<open>Properties\<close>

text \<open>
  C1. The server's handlers implement the handshake: handling a packet leaves the connection in the
  state the specification gives, and puts exactly its replies, each with the id of the packet and
  sealed if the connection was already encrypted, at the end of the output. A \<open>reject\<close> that is received
  changes nothing, against the comment at \<open>INVALID\<close> in \<open>protocol.h\<close> (\<open>reject_ignored\<close>).
\<close>

theorem server_handlers_refine:
  assumes "conn_ok S w d" and "roomy d" and "raw_ok w (c_out d) raw vs" and "e_local (c_keys d) = Some pair"
  shows "wp (server_handle_packet S d raw) (\<lambda>d' w'.
    let r = server_spec (ep_pkey pair) (c_state d) (pk_type raw, vs) in c_state d' = fst r \<and>
      contents w' (c_out d') = contents w (c_out d) @ concat (map (framed S (c_keys d) w (pk_id raw)) (snd r))) w"
  by (rule wp_mono [OF server_handle_packet_ready [OF assms(1-3) refl]])
     (use assms(4) in \<open>simp add: handled_def answered_def Let_def\<close>)

theorem server_handlers_refine_witness:
  "wp (server_handle_packet xor_sodium (peer STATE_PREHANDSHAKE 0 empty_queue) version_packet) (\<lambda>d' w'.
     c_state d' = STATE_PREENCRYPT \<and> contents w' (c_out d') = enc_frame (1, packet_ok, [])) (trio [])"
  by (rule wp_mono [OF server_handlers_refine [where vs = "[WStr [], WNum 0, WNum 0, WNum 1]" and pair = "pair_of 7"]])
     (simp_all add: server_spec_def version_accepted_def framed_plain)

text \<open>
  C15. The client's handlers implement their side of the handshake in the same sense. They take the server's \<open>ok\<close>
  in the first state and wait for its key in \<open>PREENCRYPT\<close>, and a \<open>reject\<close> changes nothing; the comments in
  \<open>protocol.h\<close> say otherwise (\<open>reject_ignored\<close>, \<open>ok_ignored\<close>).
\<close>

theorem client_handlers_refine:
  assumes "conn_ok S w d" and "roomy d" and "raw_ok w (c_out d) raw vs" and "e_local (c_keys d) = Some pair"
  shows "wp (client_handle_packet S pair d raw) (\<lambda>d' w'.
    let r = client_spec (ep_pkey pair) (c_state d) (pk_type raw, vs) in c_state d' = fst r \<and>
      contents w' (c_out d') = contents w (c_out d) @ concat (map (framed S (c_keys d) w (pk_id raw)) (snd r))) w"
  by (rule wp_mono [OF client_handle_packet_ready [OF assms refl]])
     (simp add: handled_def answered_def Let_def)

theorem client_handlers_refine_witness:
  "wp (client_handle_packet xor_sodium (pair_of 7) (peer STATE_PREHANDSHAKE 0 empty_queue) (raw_of packet_ok []))
     (\<lambda>d' w'. c_state d' = STATE_PREENCRYPT \<and>
       contents w' (c_out d') = enc_frame (1, packet_public_key, [WStr (replicate 32 7)])) (trio [])"
  by (rule wp_mono [OF client_handlers_refine [where vs = "[]" and pair = "pair_of 7"]])
     (simp_all add: client_spec_def framed_plain pair_of_def)

text \<open>
  C6. One round of the worker, with packets in the queue. It handles all of them in order, as the
  specification says: the bytes that it puts at the end of the output are exactly the replies, in order, each
  with the id of its packet and sealed from the exchange of keys on, and the state is the one the specification
  ends in. The queue is empty then and the mutex free. None of the packets is freed: what was allocated for
  them before the round is allocated after it.
\<close>

theorem worker_handles_queue:
  assumes "sc_data c = Some (p, d)" and "queue_holds (cd_queue d) raws" and "raws \<noteq> []"
    and "raws_ok w (c_out d) raws vss" and "conn_ok S w d" and "\<not> cd_mutex d" and "\<not> cd_disconnected d"
    and "unat (b_used (c_out d)) + 128 * Suc (length raws) < 2 ^ 32" and "e_local (c_keys d) = Some pair"
    and "q_nodes (cd_queue d) i \<noteq> None" and "i < fresh w" and "i \<notin> all_ids raws \<union> bids (c_out d)"
  shows "wp (worker_step S wait c) (\<lambda>(go, c') w'. go \<and> (\<exists>d'. sc_data c' = Some (p, d') \<and>
    queue_holds (cd_queue d') [] \<and> \<not> cd_mutex d' \<and> blocks w' i = blocks w i \<and>
    (\<exists>bs. contents w' (c_out d') = contents w (c_out d) @ bs \<and>
      said S (server_spec (ep_pkey pair)) (c_keys d) (c_state d) (messages raws vss) bs) \<and>
    c_state d' = fst (spec_run (server_spec (ep_pkey pair)) (c_state d) (messages raws vss)))) w"
  by (rule wp_mono [OF worker_step_ready [OF assms(1-8) refl]])
     (use assms(9-12) in \<open>auto simp: conversed_def ioframe_blocks\<close>)

theorem worker_handles_queue_witness:
  "wp (worker_step xor_sodium ret (client_of (peer STATE_PREHANDSHAKE 0 three)))
     (\<lambda>(go, c') w'. go \<and> blocks w' 1 = Some [0] \<and> (\<exists>d'. sc_data c' = Some (Ptr 1 0, d') \<and>
       contents w' (c_out d') = enc_frame (1, packet_ok, []) @ enc_frame (1, packet_public_key, [WStr (replicate 32 7)]) @
         enc_frame (1, packet_pong, []))) (trio (replicate 32 9))"
  by (rule wp_mono [OF worker_handles_queue [where d = "peer STATE_PREHANDSHAKE 0 three" and p = "Ptr 1 0" and raws = "[version_packet, raw_of packet_public_key [key_in_0], raw_of packet_ping []]"
        and vss = "[[WStr [], WNum 0, WNum 0, WNum 1], [WStr (replicate 32 9)], []]" and i = 1 and pair = "pair_of 7"]])
     (use three_nodes in \<open>auto simp: all_ids_def server_spec_def version_accepted_def is_key_def framed_plain framed_empty pair_of_def\<close>)

text \<open>
  The handshake succeeds: a peer that sends an accepted version, a key of 32 bytes and a ping
  gets the connection from its first state to the body state, in one round of the worker.
\<close>

theorem server_reaches_body:
  assumes "sc_data c = Some (p, d)" and "queue_holds (cd_queue d) [ra, rb, rc]"
    and "raws_ok w (c_out d) [ra, rb, rc] [vsa, vsb, []]" and "conn_ok S w d" and "\<not> cd_mutex d" and "\<not> cd_disconnected d"
    and "unat (b_used (c_out d)) + 512 < 2 ^ 32" and "c_state d = STATE_PREHANDSHAKE"
    and "pk_type ra = packet_protocol_version" and "version_accepted vsa"
    and "pk_type rb = packet_public_key" and "is_key vsb" and "pk_type rc = packet_ping"
  shows "wp (worker_step S wait c) (\<lambda>(go, c') w'. go \<and> (\<exists>d'. sc_data c' = Some (p, d') \<and> c_state d' = STATE_BODY)) w"
  by (rule wp_mono [OF worker_step_ready [OF assms(1,2) _ assms(3-6) _ refl]])
     (use assms(7-13) in \<open>auto simp: conversed_def server_spec_def Let_def\<close>)

theorem server_reaches_body_witness:
  "wp (worker_step xor_sodium ret (client_of (peer STATE_PREHANDSHAKE 0 three)))
     (\<lambda>(go, c') w'. go \<and> (\<exists>d'. sc_data c' = Some (Ptr 1 0, d') \<and> c_state d' = STATE_BODY)) (trio (replicate 32 9))"
  by (rule server_reaches_body [where d = "peer STATE_PREHANDSHAKE 0 three" and p = "Ptr 1 0" and ra = version_packet and vsa = "[WStr [], WNum 0, WNum 0, WNum 1]"
        and rb = "raw_of packet_public_key [key_in_0]" and vsb = "[WStr (replicate 32 9)]" and rc = "raw_of packet_ping []"])
     (simp_all add: version_accepted_def is_key_def)

text \<open>
  C5. Reassembly of unsealed frames, whatever the handlers do with them later: when whole frames are pending,
  none of them sealed, and then bytes that the code takes for the beginning of another one (at most four, or
  fewer than the size it reads from them plus four), the server's \<open>check_packet\<close> puts a packet for each
  frame at the end of the queue, in the order of arrival, leaves the rest pending and both mutexes free. On
  mutexes that do not check who unlocks them this holds for every rest; on mutexes that do, for a rest of more
  than four bytes: for a shorter one the second unlock is a fault (\<open>check_packet_unlocks_twice\<close>).
\<close>

theorem check_packet_fifo:
  assumes "receiving w d" and "\<not> b_mutex (cd_in d)" and "\<forall>f \<in> set frames. clear (Some (c_keys d)) f" and "\<forall>f \<in> set frames. frame_ok f"
    and "pending w (cd_in d) = concat (map enc_frame frames) @ rest" and "incomplete rest" and "kind = Fast \<or> 4 < length rest"
    and "queue_holds (cd_queue d) pks" and "\<not> cd_mutex d"
  shows "wp (check_packet_on kind S d) (\<lambda>d' w'. \<exists>raws. queue_holds (cd_queue d') (pks @ raws) \<and>
    list_all2 (arrived w') raws frames \<and> pending w' (cd_in d') = rest \<and> \<not> b_mutex (cd_in d') \<and> \<not> cd_mutex d' \<and>
    c_state d' = c_state d) w"
  using check_packet_on_ready [OF assms(1-6,8,9), of kind S] assms(7,9) by (fastforce elim!: wp_mono)

theorem check_packet_fifo_witness:
  "wp (check_packet_on Fast xor_sodium (peer STATE_BODY 16 empty_queue)) (\<lambda>d' w'. \<exists>raw1 raw2. queue_holds (cd_queue d') [raw1, raw2] \<and>
     arrived w' raw1 (1, packet_ping, []) \<and> arrived w' raw2 (2, packet_ok, []) \<and> pending w' (cd_in d') = [])
   (trio (enc_frame (1, packet_ping, []) @ enc_frame (2, packet_ok, [])))"
proof -
  let ?bs = "enc_frame (1, packet_ping, []) @ enc_frame (2, packet_ok, [])"
  let ?f = "[(1, packet_ping, []), (2, packet_ok, [])] :: frame list" and ?d = "peer STATE_BODY 16 empty_queue"
  have l: "length (enc_frame (1, packet_ping, [])) = 8" "length (enc_frame (2, packet_ok, [])) = 8"
    by (simp_all add: enc_frame_def enc_fields_def)
  have t: "buf_ok (trio ?bs) (on_block 0 16 16)" "pending (trio ?bs) (on_block 0 16 16) = ?bs"
    using trio_input [of ?bs 16] l by simp_all
  have r: "receiving (trio ?bs) ?d"
    using t(1) peer_ok [of ?bs STATE_BODY 16 empty_queue]
    by (simp add: receiving_def conn_ok_def ready_def empty_queue_def)
  have e: "queue_holds empty_queue []"
    by (simp add: queue_holds_def queue_blocks_def empty_queue_def)
  show ?thesis
    by (rule wp_mono [OF check_packet_fifo [OF r, where frames = ?f and rest = "[]" and pks = "[]"]])
       (use t e in \<open>auto simp: frame_ok_def fields_ok_def enc_fields_def list_all2_Cons2 incomplete_def\<close>)
qed

text \<open>
  A frame that arrives whole ends in undefined behaviour: when at most four bytes are pending
  after the last whole frame, in particular none, \<open>check_packet\<close> unlocks the mutex of the input a
  second time.
\<close>

theorem check_packet_unlocks_twice:
  assumes "receiving w d" and "\<not> b_mutex (cd_in d)" and "\<forall>f \<in> set frames. clear (Some (c_keys d)) f" and "\<forall>f \<in> set frames. frame_ok f"
    and "pending w (cd_in d) = concat (map enc_frame frames) @ rest" and "length rest \<le> 4"
    and "queue_holds (cd_queue d) pks" and "\<not> cd_mutex d"
  shows "check_packet S d w = Inl BadUnlock"
  using check_packet_ready [OF assms(1-5) _ assms(7,8), of S] assms(6) by (simp add: incomplete_def)

theorem check_packet_unlocks_twice_witness:
  "check_packet xor_sodium (peer STATE_BODY 8 empty_queue) (trio (enc_frame (1, packet_ping, []))) = Inl BadUnlock"
proof -
  let ?bs = "enc_frame (1, packet_ping, [])" and ?d = "peer STATE_BODY 8 empty_queue"
  have l: "length ?bs = 8" by (simp add: enc_frame_def enc_fields_def)
  have t: "buf_ok (trio ?bs) (on_block 0 8 8)" "pending (trio ?bs) (on_block 0 8 8) = ?bs"
    using trio_input [of ?bs 8] l by simp_all
  have r: "receiving (trio ?bs) ?d"
    using t(1) peer_ok [of ?bs STATE_BODY 8 empty_queue]
    by (simp add: receiving_def conn_ok_def ready_def empty_queue_def)
  show ?thesis
    by (rule check_packet_unlocks_twice [OF r, where frames = "[(1, packet_ping, [])]" and rest = "[]" and pks = "[]"])
       (use t in \<open>simp_all add: frame_ok_def fields_ok_def enc_fields_def queue_holds_def queue_blocks_def empty_queue_def\<close>)
qed

end
