(* ===== verification/ServerEvents.thy ===== *)
theory ServerEvents
  imports Server EpollProps ServerProps
begin

text \<open>
  The properties of the server as a whole: how it binds and runs, what happens to its list of
  clients, and how clients are closed.
\<close>

section \<open>Closing a client\<close>

text \<open>
  A connected client whose data is in block \<open>p\<close> and whose queue is the blocks \<open>is\<close>: everything
  \<open>excom_server_client_close\<close> frees is allocated, once.
\<close>

definition closable :: "world \<Rightarrow> nat \<Rightarrow> client_data \<Rightarrow> nat list \<Rightarrow> bool" where
  "closable w p d is \<longleftrightarrow> buf_ok w (cd_in d) \<and> b_freeable (cd_in d) \<and> buf_ok w (c_out d) \<and> b_freeable (c_out d) \<and>
     bids (cd_in d) \<inter> bids (c_out d) = {} \<and> \<not> cd_mutex d \<and> \<not> cd_disconnected d \<and>
     chain (q_nodes (cd_queue d)) (q_packets (cd_queue d)) is \<and> distinct (p # is) \<and>
     (\<forall>i \<in> set (p # is). blocks w i \<noteq> None \<and> i \<notin> bids (cd_in d) \<union> bids (c_out d))"

definition closed_blocks :: "nat \<Rightarrow> client_data \<Rightarrow> nat list \<Rightarrow> nat set" where
  "closed_blocks p d is = set (p # is) \<union> bids (cd_in d) \<union> bids (c_out d)"

lemma server_close:
  assumes c: "sc_data c = Some (Ptr p 0, d)" and d: "closable w p d is"
  obtains w' where "\<And>ev. excom_server_client_close ev c w =
      bind (deref_root ev) (\<lambda>_. ret (c\<lparr>sc_data := None, sc_removed := True\<rparr>)) w'"
    and "blocks w' = (\<lambda>i. if i \<in> closed_blocks p d is then None else blocks w i)"
proof -
  let ?freed = "\<lambda>I w'. blocks w' = (\<lambda>i. if i \<in> I then None else blocks w i)"
  obtain inb w1 where i: "excom_buffer_destroy (cd_in d) w = Inr (inb, w1)" "?freed (bids (cd_in d)) w1"
    by (rule wpE [OF buffer_destroy_wp [of w "cd_in d" "\<lambda>_. ?freed (bids (cd_in d))"]])
       (use d in \<open>simp_all add: closable_def\<close>)
  have "buf_ok w1 (c_out d)"
    using d i(2) unfolding closable_def buf_ok_def bids_def by (auto split: ptr.splits)
  then obtain out w2 where o: "excom_buffer_destroy (c_out d) w1 = Inr (out, w2)"
      "blocks w2 = (\<lambda>i. if i \<in> bids (c_out d) then None else blocks w1 i)"
    by (rule wpE [OF buffer_destroy_wp [of w1 "c_out d" "\<lambda>_ w'. blocks w' = (\<lambda>i. if i \<in> bids (c_out d) then None else blocks w1 i)"]])
       (use d in \<open>simp_all add: closable_def\<close>)
  have b2: "?freed (bids (cd_in d) \<union> bids (c_out d)) w2" using i(2) o(2) by auto
  obtain q w3 where q: "free_packets (cd_queue d) w2 = Inr (q, w3)" "blocks w3 = (\<lambda>i. if i \<in> set is then None else blocks w2 i)"
    by (rule wpE [OF free_packets_wp [of "cd_queue d" "is" w2 "\<lambda>_ w'. blocks w' = (\<lambda>i. if i \<in> set is then None else blocks w2 i)"]])
       (use d b2 in \<open>simp_all add: closable_def\<close>)
  have b3: "?freed (set is \<union> bids (cd_in d) \<union> bids (c_out d)) w3" using b2 q(2) by auto
  obtain x w4 where f: "excom_free (Ptr p 0) w3 = Inr (x, w4)" "blocks w4 = (blocks w3)(p := None)"
    by (rule wpE [OF free_wp [of "Ptr p 0" p w3 "\<lambda>_ w'. blocks w' = (blocks w3)(p := None)"]])
       (use d b3 in \<open>auto simp: closable_def\<close>)
  show ?thesis
  proof (rule that)
    show "excom_server_client_close ev c w = bind (deref_root ev) (\<lambda>_. ret (c\<lparr>sc_data := None, sc_removed := True\<rparr>)) w4" for ev
      using c d i(1) o(1) q(1) f(1) by (simp add: excom_server_client_close_def closable_def bind_def ret_def)
    show "?freed (closed_blocks p d is) w4" using b3 f(2) by (auto simp: closed_blocks_def)
  qed
qed

lemma server_close_again: "sc_data c = None \<Longrightarrow> excom_server_client_close ev c = ret c"
  by (simp add: excom_server_client_close_def)

section \<open>System calls\<close>

lemma syscall_run: "\<exists>w'. syscall f base w = Inr ((fst (f (ep_kernel base)), base\<lparr>ep_kernel := snd (f (ep_kernel base))\<rparr>), w') \<and>
  blocks w' = blocks w \<and> fresh w' = fresh w \<and> ins w' = ins w \<and> mframe {} w w'"
  by (cases "f (ep_kernel base)"; cases "fst (f (ep_kernel base))")
     (auto simp: syscall_def set_errno_def modify_def bind_def ret_def mframe_def same_env_def hwf_def)

lemma syscall_wp:
  assumes "\<And>w'. blocks w' = blocks w \<Longrightarrow> fresh w' = fresh w \<Longrightarrow> ins w' = ins w \<Longrightarrow> mframe {} w w' \<Longrightarrow>
    Q (fst (f (ep_kernel base)), base\<lparr>ep_kernel := snd (f (ep_kernel base))\<rparr>) w'"
  shows "wp (syscall f base) Q w"
  using syscall_run [of f base w] assms by (auto simp: wp_def)

lemma return_errno_wp [simp]:
  "wp excom_return_errno Q w = Q (errno w) (w\<lparr>errno := 0\<rparr>)"
  by (simp add: excom_return_errno_def set_errno_def asks_def modify_def bind_def ret_def wp_def)

lemma epoll_ctl_wp:
  assumes "\<And>err w'. blocks w' = blocks w \<Longrightarrow> fresh w' = fresh w \<Longrightarrow> ins w' = ins w \<Longrightarrow> mframe {} w w' \<Longrightarrow>
    Q (err, base\<lparr>ep_kernel := snd (k_ctl K op (ep_epollfd base) fd ev (ep_kernel base))\<rparr>) w'"
  shows "wp (epoll_ctl K op base fd ev) Q w"
  unfolding epoll_ctl_def wp_bind
  by (rule syscall_wp) (auto intro!: assms split: sum.split)

lemma close_fd_wp:
  assumes "\<And>w'. blocks w' = blocks w \<Longrightarrow> fresh w' = fresh w \<Longrightarrow> ins w' = ins w \<Longrightarrow> mframe {} w w' \<Longrightarrow>
    Q (server\<lparr>ep_kernel := snd (k_close K fd (ep_kernel server))\<rparr>) w'"
  shows "wp (close_fd K fd server) Q w"
  unfolding close_fd_def wp_bind by (rule syscall_wp) (auto intro!: assms)

section \<open>Examples\<close>

text \<open>A kernel that keeps the descriptors that were closed, and a server with one client.\<close>

definition logging :: "(int list, event_ptr) kernel" where
  "logging = \<lparr>k_create = \<lambda>k. (Inr 3, k), k_ctl = \<lambda>_ _ _ _ k. (Inr (), k), k_wait = \<lambda>_ _ _ k. (Inl EINTR, k),
     k_socket = \<lambda>k. (Inr 4, k), k_bind = \<lambda>_ _ _ k. (Inr (), k), k_listen = \<lambda>_ k. (Inr (), k),
     k_keepalive = \<lambda>_ k. (Inr (), k), k_accept = \<lambda>_ k. (Inr 6, k), k_getfl = \<lambda>_ k. (Inr 0, k),
     k_setfl = \<lambda>_ _ k. (Inr (), k), k_close = \<lambda>fd k. (Inr (), k @ [fd]),
     k_gethost = \<lambda>_ k. (Some 0, k), k_connect = \<lambda>_ _ _ k. (Inr (), k)\<rparr>"

definition server_of :: "ptr \<Rightarrow> (nat \<Rightarrow> server_node option) \<Rightarrow> int list server" where
  "server_of clients nodes = \<lparr>ep_loop = True, ep_epollfd = 3, ep_timeout = 500, ep_maxevents = 32, ep_kernel = [], sv_sock = 4,
     sv_port = 5656, sv_addr = 0, sv_enc = pair_of 7, sv_clients = clients, sv_nodes = nodes, sv_listen = 4\<rparr>"

lemma server_of_simps [simp]:
  "sv_clients (server_of cs ns) = cs" "sv_nodes (server_of cs ns) = ns" "sv_sock (server_of cs ns) = 4"
  "ep_kernel (server_of cs ns) = []" "sv_enc (server_of cs ns) = pair_of 7" "ep_epollfd (server_of cs ns) = 3"
  by (simp_all add: server_of_def)

definition node_of :: "server_client \<Rightarrow> server_node" where
  "node_of c = \<lparr>sn_client = c, sn_prev = Null, sn_next = Null\<rparr>"

abbreviation lone :: "int list server" where
  "lone \<equiv> server_of (Ptr 20 0) [20 \<mapsto> node_of (client_of (peer STATE_BODY 1 empty_queue))]"

definition house :: world where
  "house = (trio [5])\<lparr>blocks := (blocks (trio [5]))(20 \<mapsto> []), fresh := 21\<rparr>"

lemma house_simps [simp]:
  "blocks house i = (if i = 20 then Some [] else blocks (trio [5]) i)" "fresh house = 21" "ins house = []"
  by (simp_all add: house_def trio_def)

lemma peer_closable: "closable house 1 (peer STATE_BODY 1 empty_queue) []"
  by (simp add: closable_def buf_ok_def empty_queue_def)

section \<open>Shutting down\<close>

text \<open>
  C35. Shutting down with a connected client ends in undefined behaviour: \<open>excom_server_destroy\<close>
  closes the first client of the list with an event that has no root, and removing the root from
  the event base goes through the null pointer.
\<close>

theorem server_destroy_faults:
  assumes "sv_clients server = Ptr i 0" and "sv_nodes server i = Some n" and "sc_data (sn_client n) = Some (Ptr p 0, d)"
    and "closable w p d is"
  shows "excom_server_destroy K server w = Inl NullDeref"
proof -
  let ?c = "(sn_client n)\<lparr>sc_updates := [], sc_removed := False, sc_closed := 0\<rparr>"
  obtain w' where "\<And>ev. excom_server_client_close ev ?c w =
      bind (deref_root ev) (\<lambda>_. ret (?c\<lparr>sc_data := None, sc_removed := True\<rparr>)) w'"
    by (rule server_close [OF _ assms(4), where c = ?c]) (simp_all add: assms(3))
  then have "destroy_step K (Ptr i 0, server) w = Inl NullDeref"
    using assms(1,2) by (simp add: destroy_step_def on_client_def lift_fault_def deref_root_def Let_def bind_def fail_def)
  then show ?thesis
    using assms(1) by (simp add: excom_server_destroy_def loop_unfold [of "destroy_step K" "(Ptr i 0, server)"] bind_def)
qed

theorem server_destroy_faults_witness: "excom_server_destroy logging lone house = Inl NullDeref"
  by (rule server_destroy_faults [OF _ _ _ peer_closable, where n = "node_of (client_of (peer STATE_BODY 1 empty_queue))"])
     (simp_all add: node_of_def)

section \<open>Binding and running\<close>

text \<open>The error of the first of \<open>socket\<close>, \<open>bind\<close> and \<open>listen\<close> that fails, 0 if none does.\<close>

definition bind_error :: "('k, 'e) kernel \<Rightarrow> u16 \<Rightarrow> u32 \<Rightarrow> 'k \<Rightarrow> int" where
  "bind_error K port addr k =
     (case k_socket K k of
        (Inl e, _) \<Rightarrow> e
      | (Inr sock, k) \<Rightarrow>
          (case k_bind K sock port addr k of
             (Inl e, _) \<Rightarrow> e
           | (Inr _, k) \<Rightarrow> (case k_listen K sock k of (Inl e, _) \<Rightarrow> e | (Inr _, _) \<Rightarrow> 0)))"

lemma syscall_cases:
  "syscall f base w = (case f (ep_kernel base) of
     (Inl e, k) \<Rightarrow> Inr ((Inl e, base\<lparr>ep_kernel := k\<rparr>), w\<lparr>errno := e\<rparr>)
   | (Inr x, k) \<Rightarrow> Inr ((Inr x, base\<lparr>ep_kernel := k\<rparr>), w))"
  by (auto simp: syscall_def bind_def ret_def set_errno_def modify_def split: prod.splits sum.splits)

lemma return_errno_run: "excom_return_errno w = Inr (errno w, w\<lparr>errno := 0\<rparr>)"
  by (simp add: excom_return_errno_def set_errno_def asks_def modify_def bind_def ret_def)

lemma socket_non_blocking_run:
  "\<exists>err s' w'. socket_non_blocking K fd s w = Inr ((err, s'), w') \<and> (err = 0 \<or> errno w' = 0)"
  unfolding socket_non_blocking_def
  by (auto simp: bind_def ret_def syscall_cases ERROR_CHECK_def return_errno_run split: prod.splits sum.splits)

text \<open>
  \<open>excom_server_bind\<close> returns the error of the first of its three system calls that fails, and 0
  otherwise: that the socket could not be made non-blocking is never reported.
\<close>

theorem server_bind_result:
  "\<exists>server' w'. excom_server_bind K server w = Inr ((bind_error K (sv_port server) (sv_addr server) (ep_kernel server), server'), w')"
proof -
  have nb: "\<exists>s' w'. bind (socket_non_blocking K fd s) (\<lambda>(err, server).
      if err < 0 then bind excom_return_errno (\<lambda>err. ret (err, server)) else ret (0, server)) w = Inr ((0, s'), w')"
    for fd and s :: "'a server" and w
    using socket_non_blocking_run [of K fd s w] by (auto simp: bind_def ret_def return_errno_run)
  show ?thesis
    unfolding excom_server_bind_def bind_error_def Let_def
    by (auto simp: bind_def [of "syscall _ _"] syscall_cases ERROR_CHECK_def return_errno_run bind_def [of excom_return_errno] ret_def [of "(_, _)"] nb
        split: prod.splits sum.splits)
qed

text \<open>
  A server whose event base cannot be created reports success: \<open>excom_event_base_epoll_init\<close> has
  returned and cleared \<open>errno\<close>, so the \<open>excom_return_errno\<close> of \<open>excom_server_run\<close> returns 0.
\<close>

theorem server_run_hides_failure:
  assumes "k_create K (ep_kernel server) = (Inl e, k)" and "e \<noteq> 0"
  shows "\<exists>server' w'. excom_server_run S K ssz dsz server w = Inr ((0, server'), w') \<and> ep_kernel server' = k"
  using assms
  by (auto simp: excom_server_run_def excom_event_base_epoll_init_def bind_def ret_def syscall_cases return_errno_run Let_def)

theorem server_run_hides_failure_witness:
  "\<exists>server' w'. excom_server_run xor_sodium (logging\<lparr>k_create := \<lambda>k. (Inl 24, k)\<rparr>) 64 400 lone house = Inr ((0, server'), w') \<and>
     ep_kernel server' = []"
  by (rule server_run_hides_failure [where e = 24]) (simp_all add: logging_def)

section \<open>The end of a connection\<close>

lemma unlink_lone:
  assumes "h i = Some n" and "sn_prev n = Null" and "sn_next n = Null"
  shows "unlink_client (Ptr i 0) (Ptr i 0, h) = Inr (Null, h)"
  using assms by (simp add: unlink_client_def)

lemma server_disconnect_lone:
  assumes "sv_clients server = Ptr i 0" and n: "\<exists>n. sv_nodes server i = Some n \<and> sn_prev n = Null \<and> sn_next n = Null"
    and "blocks w i \<noteq> None"
  shows "wp (server_disconnect K fd (Ptr i 0) server) (\<lambda>server' w'. sv_clients server' = Null \<and>
    sv_nodes server' = (sv_nodes server)(i := None) \<and> blocks w' = (blocks w)(i := None) \<and>
    ep_kernel server' = snd (k_close K fd (ep_kernel server))) w"
proof -
  have u: "lift_fault (unlink_client (Ptr i 0) (sv_clients server, sv_nodes server)) = ret (Null, sv_nodes server)"
    using unlink_lone [of "sv_nodes server" i] assms(1,2) by (auto simp: lift_run)
  show ?thesis
    unfolding server_disconnect_def u
    by (simp, rule free_wp [OF refl assms(3)]) (auto intro!: close_fd_wp)
qed

text \<open>
  The end of the stream closes a descriptor twice: when the peer of the only client closes its
  side, an event that reports both the end and the hang-up frees the client and everything it holds,
  and takes it off the list and the event base, but calls \<open>close\<close> on its descriptor two times.
\<close>

theorem server_closes_twice:
  assumes "sv_clients server = Ptr i 0" and "sv_nodes server i = Some n" and "sn_prev n = Null" and "sn_next n = Null"
    and "sc_data (sn_client n) = Some (Ptr p 0, d)" and "sc_fd (sn_client n) = fd" and "fd \<noteq> sv_sock server"
    and "closable w p d is" and "blocks w i \<noteq> None" and "i \<notin> closed_blocks p d is" and "ins w = Inr [] # rest"
    and "and flags EVENT_READ \<noteq> 0" and "and flags EVENT_WRITE = 0" and "and flags EVENT_CLOSE \<noteq> 0"
  shows "wp (on_event S K ssz dsz (ClientEvent i) fd (Ptr i 0) flags server) (\<lambda>server' w'.
    sv_clients server' = Null \<and> sv_nodes server' i = None \<and>
    blocks w' = (\<lambda>j. if j \<in> insert i (closed_blocks p d is) then None else blocks w j) \<and>
    (\<exists>k. ep_kernel server' = snd (k_close K fd (snd (k_close K fd k))))) w"
proof -
  let ?c = "(sn_client n)\<lparr>sc_updates := [], sc_removed := False, sc_closed := 0\<rparr>"
  let ?ev = "\<lparr>ev_fd = fd, ev_flags = flags, ev_root = RootRegistered\<rparr>"
  let ?w = "w\<lparr>errno := 0, ins := rest\<rparr>"
  have "closable ?w p d is" using assms(8) by (simp add: closable_def buf_ok_def cong: ptr.case_cong)
  then obtain w1 where "\<And>ev. excom_server_client_close ev ?c ?w =
        bind (deref_root ev) (\<lambda>_. ret (?c\<lparr>sc_data := None, sc_removed := True\<rparr>)) w1"
      and b1: "blocks w1 = (\<lambda>i. if i \<in> closed_blocks p d is then None else blocks ?w i)"
    by (rule server_close [rotated, where c = ?c]) (simp_all add: assms(5))
  from this(1) [of ?ev] have cl: "excom_server_client_close ?ev ?c ?w = Inr (?c\<lparr>sc_data := None, sc_removed := True\<rparr>, w1)"
    by (simp add: deref_root_def)  (simp add: ret_def)
  let ?c' = "?c\<lparr>sc_data := None, sc_removed := True, sc_closed := 1\<rparr>"
  have "loop (read_step ?ev) (0, ?c, False) (w\<lparr>errno := 0\<rparr>) = Inr ((0, ?c', True), w1)"
    by (rule loop_stops)
       (use assms(5,8,11) cl in \<open>simp add: read_step_def closable_def sys_read_def bind_def ret_def\<close>)
  then have read: "excom_server_client_read S ?ev ?c w = Inr (?c', w1)"
    by (simp add: excom_server_client_read_eq set_errno_def modify_def bind_def ret_def)
  let ?n = "n\<lparr>sn_client := ?c'\<rparr>"
  let ?s = "server\<lparr>sv_nodes := (sv_nodes server)(i \<mapsto> ?n)\<rparr>"
  have rm: "wp (on_client K (Ptr i 0) (excom_server_client_read S ?ev) server) Q w"
    if Q: "\<And>server' w2. blocks w2 = blocks w1 \<Longrightarrow> sv_nodes server' = sv_nodes ?s \<Longrightarrow> sv_clients server' = Ptr i 0 \<Longrightarrow>
      \<exists>k. ep_kernel server' = snd (k_close K fd k) \<Longrightarrow> Q server' w2" for Q
    unfolding on_client_def excom_event_epoll_remove_def
    using assms(2)
    by (simp add: read wp_run Let_def)
       (rule epoll_ctl_wp, simp add: assms(6), rule close_fd_wp, rule Q, auto simp: assms(1))
  have again: "on_client K (Ptr i 0) (excom_server_client_close ?ev) server' =
      ret (server'\<lparr>sv_nodes := (sv_nodes server')(i \<mapsto> m\<lparr>sn_client := (sn_client m)\<lparr>sc_updates := [], sc_removed := False, sc_closed := 0\<rparr>\<rparr>)\<rparr>)"
    if "sv_nodes server' i = Some m" "sc_data (sn_client m) = None" for m and server' :: "'a server"
    using that by (simp add: on_client_def server_close_again lift_run bind_ret Let_def)
  show ?thesis
    unfolding on_event_def Let_def
    using assms(7,12-14)
    by simp (rule rm, simp add: again, rule wp_mono [OF server_disconnect_lone [where i = i]], insert assms(3,4,9,10) b1, auto)
qed

theorem server_closes_twice_witness:
  "wp (on_event xor_sodium logging 64 400 (ClientEvent 20) 5 (Ptr 20 0) 0x2011 lone) (\<lambda>server' w'.
     sv_clients server' = Null \<and> (\<forall>i < 3. blocks w' i = None) \<and> (\<exists>k. ep_kernel server' = k @ [5, 5]))
     (house\<lparr>ins := [Inr []]\<rparr>)"
proof -
  have c: "closable (house\<lparr>ins := [Inr []]\<rparr>) 1 (peer STATE_BODY 1 empty_queue) []"
    using peer_closable by (simp add: closable_def buf_ok_def)
  show ?thesis
    by (rule wp_mono [OF server_closes_twice [where i = 20 and n = "node_of (client_of (peer STATE_BODY 1 empty_queue))", OF _ _ _ _ _ _ _ c]])
       (auto simp: node_of_def client_of_def closed_blocks_def logging_def)
qed

section \<open>The list of clients\<close>

text \<open>What \<open>_accept\<close> does to the list.\<close>

definition link_client ::
    "nat \<Rightarrow> server_client \<Rightarrow> ptr \<times> (nat \<Rightarrow> server_node option) \<Rightarrow> fault + (ptr \<times> (nat \<Rightarrow> server_node option))" where
  "link_client i c x = andthen (link_prev i c x) (\<lambda>h. link_next i (fst x, h))"

lemma link_first:
  "link_client j c (Null, h) = Inr (Ptr j 0, h(j \<mapsto> \<lparr>sn_client = c, sn_prev = Null, sn_next = Null\<rparr>))"
  by (simp add: link_client_def link_prev_def link_next_def)

lemma link_second:
  assumes "h j = Some n" and "i \<noteq> j"
  shows "link_client i c (Ptr j 0, h) = Inr (Ptr i 0, h(j \<mapsto> n\<lparr>sn_next := Ptr i 0\<rparr>,
    i \<mapsto> \<lparr>sn_client = c, sn_prev = Ptr j 0, sn_next = Ptr j 0\<rparr>))"
  using assms by (auto simp: link_client_def link_prev_def link_next_def fun_eq_iff)

lemma disconnect_second:
  assumes "sv_clients server = Ptr i 0" and "sv_nodes server i = Some ni" and "sv_nodes server j = Some nj" and "i \<noteq> j"
    and "sn_prev ni = Ptr j 0" and "sn_next ni = Ptr j 0" and "sn_prev nj = Null" and "sn_next nj = Ptr i 0" and "blocks w j \<noteq> None"
  shows "wp (server_disconnect K fd (Ptr j 0) server) (\<lambda>server' w'. server_disconnect K fd' (Ptr i 0) server' w' = Inl UseAfterFree) w"
proof -
  let ?h = "(sv_nodes server)(i \<mapsto> ni\<lparr>sn_prev := Null\<rparr>)"
  have u: "lift_fault (unlink_client (Ptr j 0) (sv_clients server, sv_nodes server)) = ret (Ptr i 0, ?h)"
    using assms by (simp add: unlink_client_def lift_run)
  have v: "unlink_client (Ptr i 0) (Ptr i 0, ?h(j := None)) = Inl UseAfterFree"
    using assms by (simp add: unlink_client_def)
  show ?thesis
    unfolding server_disconnect_def [of K fd] u
    by (simp, rule free_wp [OF refl assms(9)])
       (auto intro!: close_fd_wp simp: server_disconnect_def v lift_run bind_def [of "fail _"] fail_def bind_def)
qed

text \<open>
  C34. The list of clients does not survive two clients: after two connections the list is a cycle,
  each client being the next of the other, so that no walk over it ends; and when the first client
  disconnects and then the second, the second call of \<open>_disconnect\<close> writes to the freed first.
\<close>

theorem server_list_breaks:
  assumes "i \<noteq> j" and "blocks w j \<noteq> None" and "link_client j c1 (Null, h0) = Inr l1" and "link_client i c2 l1 = Inr (clients, h)"
    and "sv_clients server = clients" and "sv_nodes server = h"
  shows "clients = Ptr i 0 \<and> sn_next (the (h i)) = Ptr j 0 \<and> sn_next (the (h j)) = Ptr i 0 \<and>
    wp (server_disconnect K fd (Ptr j 0) server) (\<lambda>server' w'. server_disconnect K fd' (Ptr i 0) server' w' = Inl UseAfterFree) w"
proof -
  have l: "clients = Ptr i 0" "h j = Some \<lparr>sn_client = c1, sn_prev = Null, sn_next = Ptr i 0\<rparr>"
    "h i = Some \<lparr>sn_client = c2, sn_prev = Ptr j 0, sn_next = Ptr j 0\<rparr>"
    using assms(1,3,4) by (auto simp: link_first link_second)
  show ?thesis
    using l assms(5,6) by (auto intro!: disconnect_second assms(1,2))
qed

theorem server_list_breaks_witness:
  "wp (server_disconnect logging 5 (Ptr 1 0) (server_of (Ptr 2 0)
       [1 \<mapsto> \<lparr>sn_client = new_client 5, sn_prev = Null, sn_next = Ptr 2 0\<rparr>,
        2 \<mapsto> \<lparr>sn_client = new_client 6, sn_prev = Ptr 1 0, sn_next = Ptr 1 0\<rparr>]))
     (\<lambda>server' w'. server_disconnect logging 6 (Ptr 2 0) server' w' = Inl UseAfterFree) house"
proof -
  have "link_client 1 (new_client 5) (Null, \<lambda>_. None) = Inr (Ptr 1 0, [1 \<mapsto> \<lparr>sn_client = new_client 5, sn_prev = Null, sn_next = Null\<rparr>])"
    by (simp add: link_first)
  from server_list_breaks [OF _ _ this, of 2 house "new_client 6" _ _ _ logging 5 6] show ?thesis
    by (simp add: link_second)
qed

section \<open>Accepting\<close>

text \<open>The state in which a client is connected.\<close>

definition fresh_client :: "sodium \<Rightarrow> encrypt_pair \<Rightarrow> world \<Rightarrow> client_data \<Rightarrow> bool" where
  "fresh_client S pair w d \<longleftrightarrow> receiving w d \<and> pending w (cd_in d) = [] \<and> \<not> b_mutex (cd_in d) \<and>
     c_keys d = (excom_encrypt_init S)\<lparr>e_local := Some pair\<rparr> \<and> cd_queue d = empty_queue \<and> \<not> cd_mutex d \<and>
     \<not> cd_disconnected d \<and> c_state d = STATE_PREHANDSHAKE \<and> ready w (c_out d) \<and> ready w (cd_in d) \<and>
     pending w (c_out d) = [] \<and> b_used (c_out d) = 0 \<and> b_used (cd_in d) = 0 \<and> bids (cd_in d) \<inter> bids (c_out d) = {}"

lemma mframe_chain: "mframe {} w w1 \<Longrightarrow> mframe {} w1 w2 \<Longrightarrow> mframe {} w w2"
  by (auto elim: mframe_trans)

lemma connect_wp:
  assumes "hwf w" and "plenty w" and "little w" and "sz < 2 ^ 63"
  shows "wp (excom_server_client_connect S sz pair c) (\<lambda>c' w'. \<exists>p d. c' = c\<lparr>sc_data := Some (p, d)\<rparr> \<and> fresh_client S pair w' d \<and> mframe {} w w') w"
proof -
  have nf: "\<not> malloc_fails sz w" using assms(2,4) by (rule malloc_succeeds)
  have ini: "wp (excom_buffer_init raw_buffer 16) Q w1"
    if "mframe {} w w1"
      "\<And>r b w'. ready w' b \<Longrightarrow> contents w' b = [] \<and> b_used b = 0 \<and> bids b = {fresh w1} \<and> fresh w' = Suc (fresh w1) \<Longrightarrow>
        mframe {} w w' \<Longrightarrow> mframe {} w1 w' \<Longrightarrow> Q (r, b) w'" for Q w1
  proof (rule wp_mono [OF buffer_init_wp [OF mframe_hwf [OF that(1) assms(1)] mframe_plenty [OF that(1) assms(2)]]], goal_cases)
    case (2 x w')
    then show ?case using that(1) by (cases x) (auto intro!: that(2) mframe_chain [OF that(1)] simp: contents_def bids_def)
  qed simp
  have buf: "ready w3 b \<and> contents w3 b = []" if "ready w1 b" "contents w1 b = []" "mframe {} w1 w3" for b w1 w3
    using that ready_frame [OF that(1,3)] buf_frame(2) [of w1 b "{}" w3] by (simp add: ready_def)
  show ?thesis
    unfolding excom_server_client_connect_def wp_bind
  proof (rule malloc_wp, goal_cases)
    case (1 w')
    with nf show ?case by simp
  next
    case (2 w1 bs)
    show ?case
    proof (simp, rule ini [OF 2(6)], simp, rule ini, assumption, simp, rule ini, assumption, goal_cases)
      case (1 inb w2 out w3 rb enc w4)
      have p: "hwf w4" "plenty w4" "little w4"
        using mframe_hwf [OF 1(11) assms(1)] mframe_plenty [OF 1(11) assms(2)] mframe_envD(5) [OF 1(11)] assms(3) by simp_all
      have b: "ready w4 inb \<and> contents w4 inb = []" "ready w4 out \<and> contents w4 out = []"
        using buf [OF 1(1) _ mframe_chain [OF 1(8,12)]] buf [OF 1(5) _ 1(12)] 1(2,6) by simp_all
      let ?d = "\<lparr>c_state = STATE_PREHANDSHAKE, c_keys = (excom_encrypt_init S)\<lparr>e_local := Some pair\<rparr>, c_out = out,
        cd_queue = empty_queue, cd_mutex = False, cd_disconnected = False, cd_in = inb, cd_enc = enc\<rparr>"
      have "fresh_client S pair w4 ?d"
        using b p 1(2,6) by (simp add: fresh_client_def receiving_def empty_queue_def ready_def pending_def)
      then show ?case using 1(11) p(2) by auto
    qed
  qed
qed

lemma read_idle:
  assumes "sc_data c = Some (p, d)" and "fresh_client S pair w d" and "ins w = []"
  shows "excom_server_client_read S ev c w = Inl BadUnlock"
proof -
  let ?w = "w\<lparr>errno := EAGAIN\<rparr>"
  have "receiving w d" "pending w (cd_in d) = []" using assms(2) by (simp_all add: fresh_client_def)
  then have "receiving ?w d" "pending ?w (cd_in d) = []"
    by (simp_all add: receiving_def buf_ok_def hwf_def plenty_def pending_def contents_def cong: ptr.case_cong)
  then have stop: "check_packet S d ?w = Inl BadUnlock"
    using check_packet_ready [of ?w d "[]" "[]" "[]" S] assms(2)
    by (simp add: fresh_client_def incomplete_def excom_encrypt_init_def queue_holds_def queue_blocks_def empty_queue_def)
  have "loop (read_step ev) (0, c, False) (w\<lparr>errno := 0\<rparr>) = loop (read_step ev) (EAGAIN, c, False) ?w"
    by (rule loop_goes) (use assms in \<open>simp add: read_step_def fresh_client_def sys_read_def bind_def ret_def asks_def\<close>)
  also have "\<dots> = Inr ((EAGAIN, c, False), ?w)"
    by (rule loop_stops) (simp add: read_step_def assms(1) ret_def)
  finally show ?thesis
    using stop assms(1) by (simp add: excom_server_client_read_eq with_data_def set_errno_def modify_def bind_def ret_def)
qed

lemma link_prev_self:
  assumes "link_prev i c (clients, h) = Inr h'"
  shows "\<exists>n. h' i = Some n \<and> sn_client n = c"
  using assms by (auto simp: link_prev_def set_struct_def struct_at_def Let_def split: if_splits ptr.splits option.splits)

lemma fresh_client_frame:
  assumes "fresh_client S pair w d" and m: "mframe {} w w'"
  shows "fresh_client S pair w' d"
proof -
  have r: "buf_ok w (cd_in d)" "hwf w" "plenty w" "little w" "ready w (c_out d)" "\<forall>i. q_nodes (cd_queue d) i \<noteq> None \<longrightarrow> i < fresh w"
    "ready w (cd_in d)" "buf_ok w (c_out d)"
    using assms(1) by (simp_all add: fresh_client_def receiving_def ready_def)
  show ?thesis
    using assms(1) r(4) buf_frame [OF r(1,2) m] mframe_hwf [OF m r(2)] mframe_plenty [OF m r(3)] mframe_envD(5) [OF m]
      ready_frame [OF r(5) m] ready_frame [OF r(7) m] buf_frame(3) [OF r(8,2) m] r(6) mframe_fresh [OF m]
    by (auto simp: fresh_client_def receiving_def intro: less_le_trans)
qed

lemma on_client_quiet:
  assumes "sv_nodes server i = Some n"
    and "wp (f ((sn_client n)\<lparr>sc_updates := [], sc_removed := False, sc_closed := 0\<rparr>)) (\<lambda>c' w'. sc_updates c' = [] \<and>
      \<not> sc_removed c' \<and> sc_closed c' = 0 \<and> Q (server\<lparr>sv_nodes := (sv_nodes server)(i \<mapsto> n\<lparr>sn_client := c'\<rparr>)\<rparr>) w') w"
  shows "wp (on_client K (Ptr i 0) f server) Q w"
  unfolding on_client_def struct_at_simps(2) [where h = "sv_nodes server", OF assms(1)] lift_run bind_ret prod.case Let_def wp_bind
  by (rule wp_mono [OF assms(2)]) simp

lemma on_client_fault:
  assumes "sv_nodes server i = Some n"
    and "f ((sn_client n)\<lparr>sc_updates := [], sc_removed := False, sc_closed := 0\<rparr>) w = Inl e"
  shows "on_client K (Ptr i 0) f server w = Inl e"
  using assms by (simp add: on_client_def lift_run Let_def) (simp add: bind_def)

lemma accept_step_idle:
  assumes k: "k_accept K listen (ep_kernel server) = (Inr fd, k1)" "k_getfl K fd k1 = (Inr fl, k2)"
      "fst (k_setfl K fd (or fl O_NONBLOCK) k2) = Inr ()"
    and w: "hwf w" "plenty w" "little w" "ins w = []" "ssz < 2 ^ 63" "dsz < 2 ^ 63"
    and h: "link_prev (fresh w) (new_client fd) (sv_clients server, sv_nodes server) = Inr h"
  shows "accept_step S K ssz dsz listen server w = Inl BadUnlock"
proof -
  let ?i = "fresh w" and ?p = "Ptr (fresh w) 0"
  obtain n where n: "h ?i = Some n" "sn_client n = new_client fd" using link_prev_self [OF h] by auto
  have nf: "\<not> malloc_fails ssz w" using w(2,5) by (rule malloc_succeeds)
  let ?s1 = "server\<lparr>ep_kernel := k1, sv_nodes := h\<rparr>"
  let ?s2 = "?s1\<lparr>ep_kernel := snd (k_setfl K fd (or fl O_NONBLOCK) k2)\<rparr>"
  let ?read = "\<lambda>server. on_client K ?p (excom_server_client_read S \<lparr>ev_fd = fd, ev_flags = EVENT_LISTEN, ev_root = RootUnset\<rparr>) server"
  have nb: "socket_non_blocking K fd ?s1 w' = Inr ((0, ?s2), w')" for w'
    using k(2,3) by (cases "k_setfl K fd (or fl O_NONBLOCK) k2")
      (auto simp: socket_non_blocking_def bind_def ret_def syscall_cases ERROR_CHECK_def)
  have rd: "?read s w' = Inl BadUnlock"
    if "sv_nodes s ?i = Some m" "sc_data (sn_client m) = Some (p, d)" "fresh_client S (sv_enc server) w' d" "ins w' = []" for s m p d w'
    using that by (intro on_client_fault [OF that(1)] read_idle) auto
  have linked: "bind (lift_fault (link_next ?i (sv_clients s, sv_nodes s))) (\<lambda>(clients, h).
        bind (?read (s\<lparr>sv_clients := clients, sv_nodes := h\<rparr>)) (\<lambda>server. ret (True, server))) w' = Inl BadUnlock"
    if "sv_nodes s ?i = Some m" "sc_data (sn_client m) = Some (p, d)" "fresh_client S (sv_enc server) w' d" "ins w' = []" for s m p d w'
    using that rd [where m = "m\<lparr>sn_next := sv_clients s\<rparr>"]
    by (simp add: link_next_def lift_run) (simp add: bind_def)
  let ?add = "\<lambda>s. bind (excom_event_epoll_add K s (ClientEvent ?i) fd EVENT_LISTEN) (\<lambda>(_, s).
        bind (lift_fault (link_next ?i (sv_clients s, sv_nodes s))) (\<lambda>(clients, h).
        bind (?read (s\<lparr>sv_clients := clients, sv_nodes := h\<rparr>)) (\<lambda>server. ret (True, server))))"
  have added: "?add s w' = Inl BadUnlock"
    if "sv_nodes s ?i = Some m" "sc_data (sn_client m) = Some (p, d)" "fresh_client S (sv_enc server) w' d" "ins w' = []" for s m p d w'
    unfolding excom_event_epoll_add_def
    by (rule fault_after, rule epoll_ctl_wp, simp only: prod.case, rule linked) (use that in \<open>auto intro: fresh_client_frame\<close>)
  have connected: "bind (on_client K ?p (excom_server_client_connect S dsz (sv_enc server)) ?s2) ?add w1 = Inl BadUnlock"
    if m: "mframe {} w w1" for w1
  proof (rule fault_after, rule on_client_quiet [of ?s2 ?i n])
    show "sv_nodes ?s2 ?i = Some n" using n(1) by simp
    have p: "hwf w1" "plenty w1" "little w1" "ins w1 = []"
      using mframe_hwf [OF m w(1)] mframe_plenty [OF m w(2)] mframe_envD(3,5) [OF m] w(3,4) by simp_all
    show "wp (excom_server_client_connect S dsz (sv_enc server)
        ((sn_client n)\<lparr>sc_updates := [], sc_removed := False, sc_closed := 0\<rparr>)) (\<lambda>c' w'. sc_updates c' = [] \<and> \<not> sc_removed c' \<and>
        sc_closed c' = 0 \<and> ?add (?s2\<lparr>sv_nodes := (sv_nodes ?s2)(?i \<mapsto> n\<lparr>sn_client := c'\<rparr>)\<rparr>) w' = Inl BadUnlock) w1"
    proof (rule wp_mono [OF connect_wp [OF p(1-3) w(6)]], elim exE conjE, goal_cases)
      case (1 c' w' q d)
      have "ins w' = []" using mframe_envD(3) [OF 1(3)] p(4) by simp
      then show ?case
        using 1(1,2) n(2) added [of "?s2\<lparr>sv_nodes := (sv_nodes ?s2)(?i \<mapsto> n\<lparr>sn_client := c'\<rparr>)\<rparr>" "n\<lparr>sn_client := c'\<rparr>" q d w']
        by (simp add: new_client_def)
    qed
  qed
  have acc: "syscall (k_accept K listen) server w = Inr ((Inr fd, server\<lparr>ep_kernel := k1\<rparr>), w)"
    by (simp add: syscall_cases k(1))
  obtain w1 where mal: "excom_malloc ssz w = Inr (?p, w1)" "mframe {} w w1"
    by (rule wpE [OF malloc_wp [where Q = "\<lambda>p w1. p = ?p \<and> mframe {} w w1"]]) (use nf in auto)
  show ?thesis
    unfolding accept_step_def bind_Inr [where m = "syscall (k_accept K listen) server", OF acc] prod.case sum.case bind_Inr [where m = "excom_malloc ssz", OF mal(1)] ptr.case
    using h connected [OF mal(2)]
    by (simp add: lift_run new_client_def bind_Inr [where m = "socket_non_blocking K fd ?s1", OF nb [of w1], simplified])
qed

text \<open>
  C33. Accepting a client that has not sent anything yet ends in undefined behaviour: the read that
  \<open>_accept\<close> does at once finds nothing to read, and \<open>check_packet\<close> then unlocks the mutex of the input
  without having locked it.
\<close>

theorem server_accept_idle:
  assumes "k_accept K listen (ep_kernel server) = (Inr fd, k1)" and "k_getfl K fd k1 = (Inr fl, k2)"
    and "fst (k_setfl K fd (or fl O_NONBLOCK) k2) = Inr ()"
    and "hwf w" and "plenty w" and "little w" and "ins w = []" and "ssz < 2 ^ 63" and "dsz < 2 ^ 63"
    and "link_prev (fresh w) (new_client fd) (sv_clients server, sv_nodes server) = Inr h"
  shows "server_accept S K ssz dsz listen server w = Inl BadUnlock"
proof -
  have "accept_step S K ssz dsz listen server w = Inl BadUnlock" by (rule accept_step_idle) fact+
  then show ?thesis
    by (simp add: server_accept_def loop_unfold [of "accept_step S K ssz dsz listen" server]) (simp add: bind_def)
qed

theorem server_accept_idle_witness:
  "server_accept xor_sodium logging 64 400 4 (server_of Null (\<lambda>_. None)) (trio []) = Inl BadUnlock"
  by (rule server_accept_idle [where fd = 6 and fl = 0 and h = "[3 \<mapsto> node_of (new_client 6)]"])
     (simp_all add: logging_def link_prev_def node_of_def, simp add: trio_def)

end
