(* ===== verification/Client.thy ===== *)
theory Client
  imports Receive
begin

text \<open>
  The client program, \<open>src/excom-client/client.c\<close>, over the state of \<open>inc/excom/client.h\<close>: the
  callbacks of its event loop and its reassembly of packets. Unlike the server's, \<open>check_packet\<close>
  takes one packet per call, puts it in front of the list and handles it at once.
\<close>

section \<open>Model\<close>

record excom_client = conn +
  cl_sock :: int
  cl_enc :: encrypt_pair
  cl_queue :: pqueue
  cl_mutex :: mutex
  cl_disconnected :: bool
  cl_in :: buffer
  cl_flags :: u32
  cl_updates :: "u32 list"
  cl_loop :: bool

text \<open>\<open>excom_event_update\<close> on the client's event, after its flags were set.\<close>

definition client_update :: "excom_client \<Rightarrow> u32 \<Rightarrow> excom_client" where
  "client_update client fl = client\<lparr>cl_flags := fl, cl_updates := cl_updates client @ [fl]\<rparr>"

definition default_handler :: "sodium \<Rightarrow> packet \<Rightarrow> excom_client \<Rightarrow> excom_client cmd" where
  "default_handler S packet cl =
     bind (client_handle_packet S (cl_enc cl) cl packet) (\<lambda>cl.
     ret (client_update cl (or (cl_flags cl) EVENT_WRITE)))"

text \<open>\<open>client->handler\<close> is an argument; \<open>excom_client_handle_packets\<close> sets \<open>default_handler\<close>.\<close>

definition client_check_packet ::
    "sodium \<Rightarrow> (packet \<Rightarrow> excom_client \<Rightarrow> excom_client cmd) \<Rightarrow> excom_client \<Rightarrow> excom_client cmd" where
  "client_check_packet S handler client =
     bind (lock_buffer (cl_in client)) (\<lambda>inb.
     if excom_buffer_remaining inb < 4 then
       bind (unlock_buffer inb) (\<lambda>inb. ret (client\<lparr>cl_in := inb\<rparr>))
     else
       bind (asks little) (\<lambda>le.
       bind (unpack_at (excom_protocol_unpack_uint32_t le) (ptr_add (b_buf inb) (unat (b_pos inb)))) (\<lambda>(_, sz).
       if excom_buffer_remaining inb < ucast (4 + sz) then
         bind (unlock_buffer inb) (\<lambda>inb. ret (client\<lparr>cl_in := inb\<rparr>))
       else
         bind (excom_malloc sizeof_packet) (\<lambda>p.
         if p = Null then fail NullDeref
         else
           bind (excom_protocol_read_packet S raw_packet inb (Some (c_keys client))) (\<lambda>(err, packet, inb, keys).
           bind (unlock_buffer inb) (\<lambda>inb.
           let client = client\<lparr>cl_in := inb, c_keys := the keys\<rparr> in
           if err \<noteq> 0 then bind (excom_free p) (\<lambda>_. ret client)
           else
             (case p of
                Ptr i _ \<Rightarrow> handler packet (client\<lparr>cl_queue := push_packet (cl_queue client) i packet\<rparr>)
              | _ \<Rightarrow> fail NullDeref)))))))"

definition clwrite :: "event \<Rightarrow> excom_client \<Rightarrow> excom_client cmd" where
  "clwrite ev client =
     bind (excom_buffer_write (c_out client) (cl_sock client)) (\<lambda>(err, out).
     let client = client\<lparr>c_out := out\<rparr> in
     if err = EAGAIN \<and> and (ev_flags ev) EVENT_WRITE = 0 then
       bind (deref_root ev) (\<lambda>_. ret (client_update client (or (cl_flags client) EVENT_WRITE)))
     else if err = 0 \<and> and (ev_flags ev) EVENT_WRITE \<noteq> 0 then
       bind (deref_root ev) (\<lambda>_. ret (client_update client (xor (cl_flags client) EVENT_WRITE)))
     else ret client)"

text \<open>The loop of \<open>clread\<close>; the end of the stream is \<open>err = -1\<close>.\<close>

definition clread_step :: "int \<times> excom_client \<Rightarrow> (bool \<times> int \<times> excom_client) cmd" where
  "clread_step x =
     (case x of (err, client) \<Rightarrow>
        if err \<noteq> 0 \<or> cl_disconnected client then ret (False, x)
        else
          bind (sys_read 32) (\<lambda>out.
          case out of
            Inl _ \<Rightarrow> bind (asks errno) (\<lambda>err. ret (True, err, client))
          | Inr buf \<Rightarrow>
              if buf \<noteq> [] then
                bind (excom_buffer_cappend (cl_in client) (Lit buf) (of_nat (length buf))) (\<lambda>(_, inb).
                ret (True, err, client\<lparr>cl_in := inb\<rparr>))
              else ret (True, -1, client)))"

definition clread ::
    "sodium \<Rightarrow> (packet \<Rightarrow> excom_client \<Rightarrow> excom_client cmd) \<Rightarrow> excom_client \<Rightarrow> excom_client cmd" where
  "clread S handler client =
     bind (loop clread_step (0, client)) (\<lambda>(err, client).
     if err = EAGAIN then client_check_packet S handler client else ret client)"

text \<open>The list still starts with the first freed packet afterwards.\<close>

definition clclose :: "excom_client \<Rightarrow> excom_client cmd" where
  "clclose client =
     bind (excom_buffer_destroy (cl_in client)) (\<lambda>inb.
     bind (mutex_lock (cl_mutex client)) (\<lambda>m.
     bind (free_packets (cl_queue client)) (\<lambda>q.
     bind (mutex_unlock m) (\<lambda>m.
     ret (client\<lparr>cl_in := inb, cl_queue := q, cl_disconnected := True, cl_loop := False, cl_mutex := m\<rparr>)))))"

definition event_listener ::
    "sodium \<Rightarrow> (packet \<Rightarrow> excom_client \<Rightarrow> excom_client cmd) \<Rightarrow> event \<Rightarrow> excom_client \<Rightarrow> excom_client cmd" where
  "event_listener S handler ev client =
     bind (if and (ev_flags ev) EVENT_READ \<noteq> 0
           then bind (clread S handler client) (clwrite ev) else ret client) (\<lambda>client.
     bind (if and (ev_flags ev) EVENT_WRITE \<noteq> 0 then clwrite ev client else ret client) (\<lambda>client.
     if and (ev_flags ev) EVENT_CLOSE \<noteq> 0 then clclose client else ret client))"

section \<open>Receiving\<close>

definition client_ready :: "sodium \<Rightarrow> world \<Rightarrow> excom_client \<Rightarrow> bool" where
  "client_ready S w c \<longleftrightarrow> conn_ok S w c \<and> e_local (c_keys c) = Some (cl_enc c) \<and> buf_ok w (cl_in c) \<and>
     \<not> b_mutex (cl_in c) \<and> bids (cl_in c) \<inter> bids (c_out c) = {}"

text \<open>A packet in the input is read and put in front; the handler goes on from there.\<close>

lemma client_check_packet_frame:
  assumes r: "client_ready S w c" and cl: "clear (Some (c_keys c)) f" and f: "frame_ok f"
    and pend: "pending w (cl_in c) = enc_frame f @ rest"
    and H: "\<And>w' raw pos inb. arrived w' raw f \<Longrightarrow> mframe {} w w' \<Longrightarrow> buf_ok w' inb \<Longrightarrow>
      inb = (cl_in c)\<lparr>b_pos := pos\<rparr> \<Longrightarrow> pending w' inb = rest \<Longrightarrow> \<forall>i \<in> data_ids (pk_data raw). fresh w < i \<Longrightarrow>
      wp (handler raw (c\<lparr>cl_in := inb, cl_queue := push_packet (cl_queue c) (fresh w) raw\<rparr>)) Q w'"
  shows "wp (client_check_packet S handler c) Q w"
proof -
  have lock: "\<not> b_mutex (cl_in c)" and ok: "buf_ok w (cl_in c)" "hwf w" "plenty w" "little w"
    using r by (simp_all add: client_ready_def conn_ok_def ready_def sane_def)
  let ?b = "(cl_in c)\<lparr>b_mutex := True\<rparr>"
  note front = frame_pending [OF ok(1,3) pend]
  show ?thesis
    unfolding client_check_packet_def lock_buffer_simps(1) [OF lock] bind_ret mutex_irrelevant if_not_P [OF front(2)]
  proof (simp add: ok(4) front, rule malloc_wp, goal_cases)
    case (1 w')
    with front(5) show ?case by simp
  next
    case (2 w1 bs)
    have b1: "buf_ok w1 ?b" "pending w1 ?b = enc_frame f @ rest"
      using buf_frame [OF _ ok(2) 2(6), of ?b] ok(1) pend by simp_all
    have h1: "hwf w1" "plenty w1" "little w1"
      using mframe_hwf [OF 2(6) ok(2)] mframe_plenty [OF 2(6) ok(3)] mframe_envD(5) [OF 2(6)] ok(4) by simp_all
    show ?case
    proof (simp, rule wp_mono [OF read_frame_ready [OF f b1(1) h1 cl b1(2)]], goal_cases)
      case (1 x w2)
      then obtain raw pos where x: "x = (0, raw, ?b\<lparr>b_pos := pos\<rparr>, Some (c_keys c))" by (cases x) auto
      note 1 = 1 [unfolded x prod.case]
      let ?in = "(?b\<lparr>b_pos := pos\<rparr>)\<lparr>b_mutex := False\<rparr>"
      have b3: "buf_ok w2 ?in" "pending w2 ?in = rest"
        using 1 by (simp_all only: mutex_irrelevant)
      have m: "mframe {} w w2" using 2(6) 1 by (auto elim!: mframe_trans)
      have a: "arrived w2 raw f" and new: "\<forall>i \<in> data_ids (pk_data raw). fresh w < i" using 1 2(5) by (auto simp: Suc_le_eq)
      have "wp (handler raw (c\<lparr>cl_in := ?in, cl_queue := push_packet (cl_queue c) (fresh w) raw\<rparr>)) Q w2"
        by (rule H [OF a m b3(1) _ b3(2) new, of pos]) (use lock in \<open>cases "cl_in c"; simp\<close>)
      then show ?case unfolding x by simp
    qed
  qed
qed

end
