(* ===== verification/Reading.thy ===== *)
theory Reading
  imports Client ServerProps
begin

text \<open>
  The loops that read a socket, the same on both sides: they take at most 32 bytes at a time and put them
  at the end of the input, until there is nothing left.
\<close>

section \<open>Bytes put into the input\<close>

definition received :: "world \<Rightarrow> buffer \<Rightarrow> byte list \<Rightarrow> world \<Rightarrow> buffer \<Rightarrow> bool" where
  "received w b bs w' b' \<longleftrightarrow> ready w' b' \<and> ioframe (bids b) w w' \<and> (\<forall>i \<in> bids b'. i \<in> bids b \<or> fresh w \<le> i) \<and>
     contents w' b' = contents w b @ bs \<and> b_pos b' = b_pos b \<and> unat (b_used b') = unat (b_used b) + length bs \<and>
     wire w' = wire w \<and> outs w' = outs w \<and> entropy w' = entropy w"

lemma received_refl: "ready w b \<Longrightarrow> received w b [] w b"
  by (simp add: received_def)

lemma received_trans:
  assumes "received w b xs w1 b1" and "received w1 b1 ys w2 b2"
  shows "received w b (xs @ ys) w2 b2"
proof -
  have f: "ioframe (bids b) w w1" "ioframe (bids b1) w1 w2" and n: "\<forall>i \<in> bids b1. i \<in> bids b \<or> fresh w \<le> i"
    using assms by (simp_all add: received_def)
  have "ioframe (bids b) w w2" by (rule ioframe_trans [OF f]) (use n in auto)
  moreover have "\<forall>i \<in> bids b2. i \<in> bids b \<or> fresh w \<le> i"
    using assms(2) n ioframe_fresh [OF f(1)] by (fastforce simp: received_def)
  ultimately show ?thesis using assms by (simp add: received_def)
qed

lemma ready_ins [simp]: "ready (w\<lparr>ins := x\<rparr>) b = ready w b" "ready (w\<lparr>errno := e\<rparr>) b = ready w b"
  by (simp_all add: ready_def buf_ok_def hwf_def plenty_def cong: ptr.case_cong)

lemma received_start [simp]:
  "received (w\<lparr>ins := x\<rparr>) b bs w' b' = received w b bs w' b'" "received (w\<lparr>errno := e\<rparr>) b bs w' b' = received w b bs w' b'"
  "received w b bs (w'\<lparr>errno := e\<rparr>) b' = received w b bs w' b'"
  by (simp_all add: received_def ioframe_def mframe_def same_env_def hwf_def contents_def cong: ptr.case_cong)

lemma appended_received: "appended w b bs w' b' \<Longrightarrow> received w b bs w' b'"
  by (auto simp: appended_def received_def bstep_def mframe_envD intro: mframe_ioframe)

section \<open>The loop\<close>

text \<open>
  What the two loops have in common: \<open>inbuf\<close> is the input in the variables of the loop, \<open>put\<close> changes it, and
  \<open>stop\<close> records that the read had to wait.
\<close>

locale reader =
  fixes body :: "'s \<Rightarrow> (bool \<times> 's) cmd" and live :: "'s \<Rightarrow> bool" and inbuf :: "'s \<Rightarrow> buffer"
    and put :: "buffer \<Rightarrow> 's \<Rightarrow> 's" and stop :: "'s \<Rightarrow> 's"
  assumes chunk: "live s \<Longrightarrow> ins w = Inr (x # xs) # is \<Longrightarrow>
      wp (excom_buffer_cappend (inbuf s) (Lit (take 32 (x # xs))) (of_nat (min 32 (length (x # xs)))))
        (\<lambda>(_, b). Q (True, put b s)) (w\<lparr>ins := (if length (x # xs) \<le> 32 then is else Inr (drop 32 (x # xs)) # is)\<rparr>) \<Longrightarrow>
      wp (body s) Q w"
    and wait: "live s \<Longrightarrow> ins w = [] \<Longrightarrow> body s w = Inr ((True, stop s), w\<lparr>errno := EAGAIN\<rparr>)"
    and stopped: "live s \<Longrightarrow> body (stop s) w = Inr ((False, stop s), w)"
    and put: "live s \<Longrightarrow> live (put b s)" "live s \<Longrightarrow> inbuf (put b s) = b"
      "live s \<Longrightarrow> put b (put b' s) = put b s" "live s \<Longrightarrow> put (inbuf s) s = s"
begin

lemma reads_all:
  assumes "live s" and "ready w (inbuf s)" and "ins w = (if bs = [] then [] else [Inr bs])"
    and "unat (b_used (inbuf s)) + length bs < 2 ^ 32"
  shows "wp (loop body s) (\<lambda>s' w'. \<exists>b. s' = stop (put b s) \<and> received w (inbuf s) bs w' b) w"
  using assms
proof (induction "length bs" arbitrary: s w bs rule: less_induct)
  case less
  show ?case
  proof (cases bs)
    case Nil
    then have "body s w = Inr ((True, stop s), w\<lparr>errno := EAGAIN\<rparr>)"
      using less.prems(3) by (intro wait [OF less.prems(1)]) simp
    from loop_goes [of body s w "stop s" "w\<lparr>errno := EAGAIN\<rparr>", OF this]
    have "loop body s w = Inr (stop s, w\<lparr>errno := EAGAIN\<rparr>)"
      using loop_stops [of body "stop s" _ "stop s"] stopped [OF less.prems(1)] by simp
    then show ?thesis
      using put(4) [OF less.prems(1)] received_refl [OF less.prems(2)] Nil
      by (auto simp: wp_def intro!: exI [of _ "inbuf s"])
  next
    case (Cons x xs)
    let ?c = "take 32 bs" and ?n = "of_nat (min 32 (length bs)) :: size_t"
    let ?w = "w\<lparr>ins := (if drop 32 bs = [] then [] else [Inr (drop 32 bs)])\<rparr>"
    have n: "unat ?n = length ?c" by (simp add: unat_of_nat min.commute mod_less min_less_iff_disj)
    have rd: "reads ?w (Lit ?c) (unat ?n) ?c" unfolding n reads_Lit [OF order_refl] by (rule take_all [OF order_refl, symmetric])
    have "ready ?w (inbuf s)" using less.prems(2) by simp
    note app = cappend_ready [OF this rd]
    have w: "ins w = Inr (x # xs) # []" using less.prems(3) Cons by simp
    have ch: "wp (body s) Q w"
      if "wp (excom_buffer_cappend (inbuf s) (Lit ?c) ?n) (\<lambda>(_, b). Q (True, put b s)) ?w" for Q
      by (rule chunk [OF less.prems(1) w]) (use that Cons in \<open>auto split: if_splits\<close>)
    show ?thesis
    proof (rule loop_step_wp, rule ch, rule wp_mono [OF app], goal_cases)
      case (3 r w1)
      then obtain b where r: "r = (0, b)" and app: "appended ?w (inbuf s) ?c w1 b" by (cases r) auto
      have a: "received w (inbuf s) ?c w1 b" using appended_received [OF app] by simp
      have i: "ins w1 = (if drop 32 bs = [] then [] else [Inr (drop 32 bs)])"
        using app by (auto simp: appended_def dest!: bstepD(2) mframe_envD(3))
      have l: "length (drop 32 bs) < length bs" using Cons by simp
      note put = put [OF less.prems(1)]
      have b: "ready w1 (inbuf (put b s))" "unat (b_used (inbuf (put b s))) + length (drop 32 bs) < 2 ^ 32"
        using a less.prems(4) put(2) by (simp_all add: received_def)
      have "wp (loop body (put b s)) (\<lambda>s' w'. \<exists>b'. s' = stop (put b' (put b s)) \<and> received w1 (inbuf (put b s)) (drop 32 bs) w' b') w1"
        by (rule less.hyps [OF l put(1) b(1) i b(2)])
      then show ?case
        unfolding r prod.case if_True
        by (rule wp_mono) (use received_trans [OF a] put in \<open>fastforce\<close>)
    qed (use less.prems(4) n in \<open>simp_all\<close>)
  qed
qed

end

section \<open>The loops of the code\<close>

definition client_put :: "buffer \<Rightarrow> int \<times> excom_client \<Rightarrow> int \<times> excom_client" where
  "client_put b x = (fst x, (snd x)\<lparr>cl_in := b\<rparr>)"

interpretation client_reads: reader clread_step "\<lambda>x. fst x = 0 \<and> \<not> cl_disconnected (snd x)" "\<lambda>x. cl_in (snd x)" client_put "\<lambda>x. (EAGAIN, snd x)"
proof (unfold_locales, goal_cases)
  case (1 s w x xs "is" Q)
  then show ?case
    by (cases s; cases "length (x # xs) \<le> 32") (simp_all add: clread_step_def sys_read_def wp_def client_put_def bind_def ret_def split: sum.splits prod.splits)
next
  case (2 s w)
  then show ?case by (cases s) (simp add: clread_step_def sys_read_def bind_def ret_def asks_def)
next
  case (3 s w)
  then show ?case by (simp add: clread_step_def ret_def)
qed (auto simp: client_put_def prod_eq_iff)

definition peer_live :: "int \<times> server_client \<times> bool \<Rightarrow> bool" where
  "peer_live x \<longleftrightarrow> (case x of (err, c, done) \<Rightarrow> err = 0 \<and> (\<exists>p d. sc_data c = Some (p, d) \<and> \<not> cd_disconnected d))"

definition peer_in :: "int \<times> server_client \<times> bool \<Rightarrow> buffer" where
  "peer_in x = cd_in (snd (the (sc_data (fst (snd x)))))"

definition peer_put :: "buffer \<Rightarrow> int \<times> server_client \<times> bool \<Rightarrow> int \<times> server_client \<times> bool" where
  "peer_put b x = (case x of (err, c, done) \<Rightarrow> (err, c\<lparr>sc_data := map_option (\<lambda>(p, d). (p, d\<lparr>cd_in := b\<rparr>)) (sc_data c)\<rparr>, done))"

interpretation server_reads: reader "read_step ev" peer_live peer_in peer_put "\<lambda>x. (EAGAIN, snd x)" for ev
proof (unfold_locales, goal_cases)
  case (1 s w x xs "is" Q)
  then show ?case
    by (cases s; cases "length (x # xs) \<le> 32") (auto simp: read_step_def peer_live_def peer_in_def peer_put_def sys_read_def wp_def bind_def ret_def split: sum.splits prod.splits)
next
  case (2 s w)
  then show ?case by (cases s) (auto simp: read_step_def peer_live_def sys_read_def bind_def ret_def asks_def)
next
  case (3 s w)
  then show ?case by (auto simp: read_step_def peer_live_def ret_def)
qed (auto simp: peer_live_def peer_in_def peer_put_def)


end
