(* ===== verification/ClientProps.thy ===== *)
theory ClientProps
  imports Client ServerProps
begin

text \<open>The properties of the client program: what one read event achieves, and how it closes.\<close>

lemma arrived_raw:
  assumes a: "arrived w raw f" and f: "frame_ok f" and dis: "data_ids (pk_data raw) \<inter> bids out = {}"
  shows "raw_ok w out raw (snd (snd f))" and "pk_id raw = fst f" and "pk_type raw = fst (snd f)"
  using a f dis by (auto simp: arrived_def raw_ok_def frame_ok_def owned_def owned_string_def split: option.splits)

lemma client_more:
  fixes c c' :: excom_client
  assumes "conn.more c' = conn.more c"
  shows "cl_in c' = cl_in c" and "cl_queue c' = cl_queue c" and "cl_flags c' = cl_flags c" and "cl_mutex c' = cl_mutex c"
    and "cl_enc c' = cl_enc c" and "cl_sock c' = cl_sock c" and "cl_disconnected c' = cl_disconnected c"
  using assms by (cases c; cases c'; simp)+

lemma client_fields [simp]:
  "conn_ok S w (c\<lparr>cl_in := b\<rparr>) = conn_ok S w c" "conn_ok S w (c\<lparr>cl_queue := q\<rparr>) = conn_ok S w c"
  by (simp_all add: conn_ok_def)

text \<open>Handling a packet leaves the input alone.\<close>

lemma handled_input:
  assumes h: "handled S w d raw r d' w'" and b: "buf_ok w b" "hwf w"
    and apart: "data_ids (pk_data raw) \<inter> bids b = {}" "bids b \<inter> bids (c_out d) = {}"
  shows "buf_ok w' b" and "pending w' b = pending w b" and "bids b \<inter> bids (c_out d') = {}"
proof -
  have f: "ioframe (data_ids (pk_data raw) \<union> bids (c_out d)) w w'" and n: "\<forall>j \<in> bids (c_out d'). j \<in> bids (c_out d) \<or> fresh w \<le> j"
    using h by (simp_all add: handled_def answered_def)
  show "buf_ok w' b" "pending w' b = pending w b" using ioframe_buf [OF b f] apart by auto
  show "bids b \<inter> bids (c_out d') = {}" using n apart(2) bids_below [OF b] by (meson disjoint_iff leD)
qed

lemma default_handler_ready:
  assumes a: "arrived w raw f" and f: "frame_ok f" and ok: "conn_ok S w c" "roomy c" "e_local (c_keys c) = Some (cl_enc c)"
    and i: "buf_ok w (cl_in c)" "bids (cl_in c) \<inter> bids (c_out c) = {}"
    and d: "data_ids (pk_data raw) \<inter> bids (c_out c) = {}" "data_ids (pk_data raw) \<inter> bids (cl_in c) = {}"
  shows "wp (default_handler S raw c) (\<lambda>c' w'. \<exists>c1 fl. c' = client_update c1 fl \<and> and fl EVENT_WRITE = EVENT_WRITE \<and>
    handled S w c raw (client_spec (ep_pkey (cl_enc c)) (c_state c) (snd f)) c1 w' \<and>
    buf_ok w' (cl_in c) \<and> pending w' (cl_in c) = pending w (cl_in c) \<and> bids (cl_in c) \<inter> bids (c_out c1) = {}) w"
proof -
  note raw = arrived_raw [OF a f d(1)]
  have hwf: "hwf w" using ok(1) by (simp add: conn_ok_def ready_def)
  show ?thesis
    unfolding default_handler_def wp_bind
  proof (rule wp_mono [OF client_handle_packet_ready [OF ok(1,2) raw(1) ok(3) refl]], goal_cases)
    case (1 c' w')
    have h: "handled S w c raw (client_spec (ep_pkey (cl_enc c)) (c_state c) (snd f)) c' w'"
      using 1 raw(2,3) by simp
    from handled_input [OF h i(1) hwf d(2) i(2)] h show ?case
      by (simp, intro exI [of _ c'] exI [of _ "or (cl_flags c') 4"]) (simp add: bit_eq_iff bit_simps)
  qed
qed

text \<open>What one read event achieves, when the packet of the frame \<open>f\<close> is pending in front of \<open>rest\<close>.\<close>

definition client_took :: "sodium \<Rightarrow> world \<Rightarrow> excom_client \<Rightarrow> frame \<Rightarrow> byte list \<Rightarrow> world \<Rightarrow> excom_client \<Rightarrow> bool" where
  "client_took S w c f rest w' c' \<longleftrightarrow>
     replied S w c (fst f) (client_spec (ep_pkey (cl_enc c)) (c_state c) (snd f)) w' c' \<and> client_ready S w' c' \<and>
     pending w' (cl_in c') = rest \<and> and (cl_flags c') EVENT_WRITE = EVENT_WRITE \<and>
     (\<exists>pos. cl_in c' = (cl_in c)\<lparr>b_pos := pos\<rparr>) \<and> cl_enc c' = cl_enc c \<and> cl_sock c' = cl_sock c \<and>
     cl_disconnected c' = cl_disconnected c"

lemma client_check_packet_ready:
  assumes r: "client_ready S w c" and room: "roomy c" and cl: "clear (Some (c_keys c)) f" and f: "frame_ok f"
    and pend: "pending w (cl_in c) = enc_frame f @ rest"
  shows "wp (client_check_packet S (default_handler S) c) (\<lambda>c' w'. client_took S w c f rest w' c') w"
proof (rule client_check_packet_frame [OF r cl f pend], goal_cases)
  case (1 w' raw pos inb)
  let ?c = "c\<lparr>cl_in := inb, cl_queue := push_packet (cl_queue c) (fresh w) raw\<rparr>"
  have c: "conn_ok S w c" "buf_ok w (cl_in c)" "bids (cl_in c) \<inter> bids (c_out c) = {}"
    "e_local (c_keys c) = Some (cl_enc c)" "\<not> b_mutex (cl_in c)"
    using r by (simp_all add: client_ready_def)
  have ready: "ready w (c_out c)" and hwf: "hwf w" using c(1) by (simp_all add: conn_ok_def ready_def)
  have ok: "conn_ok S w' ?c" using conn_ok_mframe [OF c(1) 1(2)] by simp
  have b: "bids inb = bids (cl_in c)" using 1(4) by (simp add: bids_def)
  have apart: "data_ids (pk_data raw) \<inter> bids (c_out c) = {}" "data_ids (pk_data raw) \<inter> bids inb = {}"
    using 1(6) b ready_below [OF ready] bids_below [OF c(2) hwf] by force+
  have rid: "pk_id raw = fst f" using arrived_raw(2) [OF 1(1) f apart(1)] .
  show ?case
  proof (rule wp_mono [OF default_handler_ready [OF 1(1) f ok]], goal_cases)
    case (7 c' w2)
    then obtain c1 fl where c1: "c' = client_update c1 fl" "and fl EVENT_WRITE = EVENT_WRITE"
      "handled S w' ?c raw (client_spec (ep_pkey (cl_enc c)) (c_state c) (snd f)) c1 w2" "buf_ok w2 inb" "pending w2 inb = rest" "bids inb \<inter> bids (c_out c1) = {}"
      using 1(5) by auto
    have more: "conn.more c1 = conn.more ?c" using c1(3) by (simp add: handled_def answered_def)
    note more = client_more [OF more]
    have rep: "replied S w c (fst f) (client_spec (ep_pkey (cl_enc c)) (c_state c) (snd f)) w2 c1"
      using handled_replied [OF c1(3) 1(2) c(1)] rid by simp
    have "\<not> b_mutex inb" using c(5) 1(4) by simp
    moreover have "e_local (c_keys c1) = Some (cl_enc c)" "conn_ok S w2 c1" using rep c(4) by (simp_all add: replied_def)
    ultimately have "client_ready S w2 c'"
      using c1(1,4,6) more by (simp add: client_ready_def client_update_def conn_ok_def)
    then show ?case
      using rep c1(1,2,5) more 1(4) by (auto simp: client_took_def client_update_def replied_def conn_ok_def)
  qed (use room c 1 apart b in \<open>simp_all add: roomy_def\<close>)
qed

section \<open>Properties\<close>

text \<open>
  C23. A read event of the client handles exactly one packet: the packet of the first pending frame is
  handled as the client's side of the handshake says, its replies are put into the output, each with
  the id of the packet and sealed if the connection was already encrypted, and the event asks to write,
  but everything behind the frame stays pending, whole frames included, until the peer sends again.
\<close>

theorem client_takes_one_packet:
  assumes "client_ready S w c" and "roomy c" and "clear (Some (c_keys c)) f" and "frame_ok f"
    and "pending w (cl_in c) = enc_frame f @ rest"
  shows "wp (client_check_packet S (default_handler S) c) (\<lambda>c' w'.
    let r = client_spec (ep_pkey (cl_enc c)) (c_state c) (snd f) in
    c_state c' = fst r \<and> pending w' (cl_in c') = rest \<and> and (cl_flags c') EVENT_WRITE = EVENT_WRITE \<and>
    contents w' (c_out c') = contents w (c_out c) @ concat (map (framed S (c_keys c) w (fst f)) (snd r))) w"
  by (rule wp_mono [OF client_check_packet_ready [OF assms]]) (simp add: client_took_def replied_def Let_def)

definition client_c :: "size_t \<Rightarrow> pqueue \<Rightarrow> excom_client" where
  "client_c n q = \<lparr>c_state = STATE_PREHANDSHAKE, c_keys = (excom_encrypt_init xor_sodium)\<lparr>e_local := Some (pair_of 7)\<rparr>,
     c_out = on_block 2 1 0, cl_sock = 5, cl_enc = pair_of 7, cl_queue = q, cl_mutex = False, cl_disconnected = False,
     cl_in = on_block 0 n n, cl_flags = EVENT_READ, cl_updates = [], cl_loop = True\<rparr>"

lemma client_c_simps [simp]:
  "c_state (client_c n q) = STATE_PREHANDSHAKE" "c_out (client_c n q) = on_block 2 1 0" "cl_queue (client_c n q) = q"
  "cl_enc (client_c n q) = pair_of 7" "cl_in (client_c n q) = on_block 0 n n" "\<not> cl_mutex (client_c n q)"
  "\<not> e_remote_active (c_keys (client_c n q))" "roomy (client_c n q)"
  by (simp_all add: client_c_def roomy_def excom_encrypt_init_def)

lemma client_c_ready:
  assumes "length bs < 2 ^ 62" and "n = of_nat (length bs)"
  shows "client_ready xor_sodium (trio bs) (client_c n q)"
proof -
  have "conn_ok xor_sodium (trio bs) (client_c n q)"
    by (simp add: conn_ok_def enc_ok_def)
       (simp add: client_c_def excom_encrypt_init_def pair_of_def xor_sodium_def)
  then show ?thesis
    using trio_input(1) [OF assms]
    by (simp add: client_ready_def) (simp add: client_c_def excom_encrypt_init_def on_block_def bids_def)
qed

theorem client_takes_one_packet_witness:
  "wp (client_check_packet xor_sodium (default_handler xor_sodium) (client_c 16 empty_queue)) (\<lambda>c' w'.
     c_state c' = STATE_PREENCRYPT \<and> pending w' (cl_in c') = enc_frame (2, packet_ping, []))
   (trio (enc_frame (1, packet_ok, []) @ enc_frame (2, packet_ping, [])))"
proof -
  let ?bs = "enc_frame (1, packet_ok, []) @ enc_frame (2, packet_ping, [])"
  have l: "length ?bs = 16" by (simp add: enc_frame_def enc_fields_def)
  show ?thesis
    by (rule wp_mono [OF client_takes_one_packet [OF client_c_ready, where f = "(1, packet_ok, [])" and rest = "enc_frame (2, packet_ping, [])"]])
       (use l trio_input(2) [of ?bs 16] in \<open>simp_all add: frame_ok_def fields_ok_def enc_fields_def client_spec_def\<close>)
qed

text \<open>
  Closing: \<open>clclose\<close> frees every packet of the list and the input, but leaves the head of the
  list in place, so a second close event reads a freed packet.
\<close>

theorem client_close_once:
  assumes "chain (q_nodes (cl_queue c)) (q_packets (cl_queue c)) (i # js)" and "distinct (i # js)"
    and "\<forall>j \<in> set (i # js). blocks w j \<noteq> None \<and> j \<notin> bids (cl_in c)" and "buf_ok w (cl_in c)" and "b_freeable (cl_in c)"
    and "\<not> cl_mutex c"
  shows "wp (clclose c) (\<lambda>c' w'. (\<forall>j \<in> set (i # js) \<union> bids (cl_in c). blocks w' j = None) \<and> cl_disconnected c' \<and>
    \<not> cl_loop c' \<and> \<not> cl_mutex c' \<and> clclose c' w' = Inl UseAfterFree) w"
  unfolding clclose_def wp_bind
proof (rule buffer_destroy_wp [OF assms(4,5)], goal_cases)
  case (1 w1)
  have b: "\<forall>j \<in> set (i # js). blocks w1 j \<noteq> None" using 1(1) assms(3) by simp
  show ?case
  proof (simp add: assms(6), rule free_packets_wp [OF assms(1,2) b], goal_cases)
    case (1 w2 q)
    have n: "q_nodes q i = None" "q_packets q = Ptr i 0" using 1(4,5) assms(1) by simp_all
    have "loop free_step (q_packets q, q) w2 = Inl UseAfterFree"
      by (simp add: n loop_unfold [of free_step "(Ptr i 0, q)"] free_step_def struct_at_def bind_def lift_fault_def)
    then have twice: "clclose (c\<lparr>cl_in := (cl_in c)\<lparr>b_max := 0, b_used := 0, b_buf := Null, b_pos := 0\<rparr>, cl_queue := q,
        cl_disconnected := True, cl_loop := False, cl_mutex := False\<rparr>) w2 = Inl UseAfterFree"
      by (simp add: clclose_def excom_buffer_destroy_def free_packets_def bind_def ret_def mutex_lock_def)
    show ?case
      using 1(1) \<open>blocks w1 = _\<close> twice by (auto simp: clclose_def assms(6))
  qed
qed

theorem client_close_once_witness:
  "wp (clclose (client_c 1 three)) (\<lambda>c' w'. blocks w' 1 = None \<and> clclose c' w' = Inl UseAfterFree)
     ((trio [5])\<lparr>blocks := (blocks (trio [5]))(11 \<mapsto> [], 12 \<mapsto> [])\<rparr>)"
  by (rule wp_mono [OF client_close_once [where i = 1 and js = "[11, 12]"]])
     (auto simp: three_def trio_def on_block_def buf_ok_def bids_def)

end
