(* ===== verification/Connect.thy ===== *)
theory Connect
  imports Client Server
begin

text \<open>
  The client as a program: \<open>src/excom/client.c\<close> (setting up, connecting, shutting down) and the start of
  \<open>src/excom-client/client.c\<close> (\<open>excom_client_handle_packets\<close> and its thread), on the epoll backend.
  \<open>socket_non_blocking\<close> and \<open>ERROR_CHECK\<close> are the same code as in the server's file.
\<close>

section \<open>State\<close>

record 'k client_program = "'k epoll_base" +
  cp_client :: excom_client
  cp_port :: u16
  cp_addr :: "byte list"
  cp_fd :: int

text \<open>\<open>"127.0.0.1"\<close> and \<open>EXCOM_VERSION\<close> with its terminating NUL, as \<open>sizeof\<close> counts it.\<close>

definition localhost :: "byte list" where
  "localhost = [49, 50, 55, 46, 48, 46, 48, 46, 49]"

definition version_string :: "byte list" where
  "version_string = [48, 46, 48, 46, 49, 0]"

definition excom_client_init :: "sodium \<Rightarrow> 'k client_program \<Rightarrow> 'k client_program cmd" where
  "excom_client_init S c =
     bind (excom_encrypt_pair_fill S) (\<lambda>enc.
     bind mutex_init (\<lambda>_.
     let cl = cp_client c in
     ret (c\<lparr>cp_port := 5656, cp_addr := localhost,
       cp_client := cl\<lparr>cl_sock := - 1, cl_queue := (cl_queue cl)\<lparr>q_packets := Null\<rparr>, c_state := STATE_PREHANDSHAKE,
         cl_disconnected := False, cl_enc := enc, cl_mutex := False,
         c_keys := (excom_encrypt_init S)\<lparr>e_local := Some enc\<rparr>\<rparr>\<rparr>)))"

section \<open>Connecting\<close>

text \<open>
  The end of \<open>excom_client_connect\<close>: the version packet is put into the output and written. The results
  are not looked at.
\<close>

definition version_packet_out :: packet where
  "version_packet_out = \<lparr>pk_size = 0, pk_id = 1, pk_type = packet_protocol_version, pk_data = []\<rparr>"

definition send_version :: "sodium \<Rightarrow> excom_client \<Rightarrow> excom_client cmd" where
  "send_version S cl =
     (let str = excom_string_fill excom_string_init (of_nat (length version_string)) (Lit version_string) in
      bind (lift_fault (excom_protocol_prefill version_packet_out [PfString str, PfNumber 0, PfNumber 0, PfNumber 1])) (\<lambda>version.
      bind (excom_protocol_write_packet S version (c_out cl) (Some (c_keys cl))) (\<lambda>(_, _, out, keys).
      bind (excom_buffer_write out (cl_sock cl)) (\<lambda>(_, out).
      ret (cl\<lparr>c_out := out, c_keys := the keys\<rparr>)))))"

definition excom_client_connect ::
    "sodium \<Rightarrow> ('k, 'e) kernel \<Rightarrow> 'k client_program \<Rightarrow> (int \<times> 'k client_program) cmd" where
  "excom_client_connect S K c =
     bind (syscall (k_socket K) c) (\<lambda>(r, c).
     let c = c\<lparr>cp_client := (cp_client c)\<lparr>cl_sock := (case r of Inl _ \<Rightarrow> - 1 | Inr fd \<Rightarrow> fd)\<rparr>\<rparr> in
     ERROR_CHECK r c (\<lambda>sock.
     case k_gethost K (cp_addr c) (ep_kernel c) of
       (None, k) \<Rightarrow> ret (1, c\<lparr>ep_kernel := k\<rparr>)
     | (Some addr, k) \<Rightarrow>
         bind (syscall (k_connect K sock addr (cp_port c)) (c\<lparr>ep_kernel := k\<rparr>)) (\<lambda>(r, c).
         ERROR_CHECK r c (\<lambda>_.
         bind (socket_non_blocking K sock c) (\<lambda>(err, c).
         if err \<noteq> 0 then ret (err, c)
         else
           bind (excom_buffer_init (cl_in (cp_client c)) 32) (\<lambda>(err, inb).
           let c = c\<lparr>cp_client := (cp_client c)\<lparr>cl_in := inb\<rparr>\<rparr> in
           if err \<noteq> 0 then ret (err, c)
           else
             bind (excom_buffer_init (c_out (cp_client c)) 32) (\<lambda>(err, out).
             let c = c\<lparr>cp_client := (cp_client c)\<lparr>c_out := out\<rparr>\<rparr> in
             if err \<noteq> 0 then ret (err, c)
             else
               bind (send_version S ((cp_client c)\<lparr>cl_in := (cl_in (cp_client c))\<lparr>b_freeable := False\<rparr>, c_out := out\<lparr>b_freeable := False\<rparr>\<rparr>)) (\<lambda>cl.
               ret (0, c\<lparr>cp_client := cl\<rparr>)))))))))"

section \<open>The event loop of the client\<close>

text \<open>
  One event for the listener: what it does to its own event and to the loop is done to the base. The
  event of the client is the only one, so the pointer to it is the unit value.
\<close>

primrec client_updates ::
    "('k, unit) kernel \<Rightarrow> u32 list \<Rightarrow> 'k client_program \<Rightarrow> 'k client_program cmd" where
  "client_updates K [] c = ret c"
| "client_updates K (fl # fls) c =
     bind (excom_event_epoll_update K c () (cp_fd c) fl) (\<lambda>(_, c). client_updates K fls c)"

definition client_runner ::
    "sodium \<Rightarrow> ('k, unit) kernel \<Rightarrow> (packet \<Rightarrow> excom_client \<Rightarrow> excom_client cmd) \<Rightarrow>
      unit \<Rightarrow> int \<Rightarrow> unit \<Rightarrow> u32 \<Rightarrow> 'k client_program \<Rightarrow> 'k client_program cmd" where
  "client_runner S K handler root fd data flags c =
     bind (event_listener S handler \<lparr>ev_fd = fd, ev_flags = flags, ev_root = RootRegistered\<rparr>
             ((cp_client c)\<lparr>cl_updates := [], cl_loop := ep_loop c\<rparr>)) (\<lambda>cl.
     client_updates K (cl_updates cl) (c\<lparr>cp_client := cl, ep_loop := cl_loop cl\<rparr>))"

definition event_loop ::
    "sodium \<Rightarrow> ('k, unit) kernel \<Rightarrow> (packet \<Rightarrow> excom_client \<Rightarrow> excom_client cmd) \<Rightarrow> 'k client_program \<Rightarrow> 'k client_program cmd" where
  "event_loop S K handler c = excom_event_epoll_loop K (\<lambda>c _. Inr (cp_fd c, ())) (client_runner S K handler) c"

text \<open>
  \<open>start\<close> is what starting the thread returns. The result has the handler if the thread was started. An
  error ends the function silently; the mutex is initialised after the thread was started.
\<close>

definition excom_client_handle_packets ::
    "sodium \<Rightarrow> ('k, unit) kernel \<Rightarrow> int \<Rightarrow> (packet \<Rightarrow> excom_client \<Rightarrow> excom_client cmd) option \<Rightarrow> 'k client_program \<Rightarrow>
      ((packet \<Rightarrow> excom_client \<Rightarrow> excom_client cmd) option \<times> 'k client_program) cmd" where
  "excom_client_handle_packets S K start handler c =
     (let c = c\<lparr>cp_fd := cl_sock (cp_client c), cp_client := (cp_client c)\<lparr>cl_flags := EVENT_LISTEN\<rparr>\<rparr>;
          h = (case handler of Some f \<Rightarrow> f | None \<Rightarrow> default_handler S) in
      bind (excom_event_base_epoll_init K c) (\<lambda>(err, c).
      if err \<noteq> 0 then ret (None, c)
      else
        bind (excom_event_epoll_add K c () (cp_fd c) EVENT_LISTEN) (\<lambda>(err, c).
        if err \<noteq> 0 \<or> start \<noteq> 0 then ret (None, c)
        else bind mutex_init (\<lambda>_. ret (Some h, c\<lparr>cp_client := (cp_client c)\<lparr>cl_mutex := False\<rparr>\<rparr>)))))"

text \<open>After the thread was joined the output is destroyed; the input is not.\<close>

definition excom_client_destroy :: "('k, 'e) kernel \<Rightarrow> 'k client_program \<Rightarrow> 'k client_program cmd" where
  "excom_client_destroy K c =
     bind (syscall (k_close K (cl_sock (cp_client c))) c) (\<lambda>(_, c).
     bind (excom_buffer_destroy (c_out (cp_client c))) (\<lambda>out.
     ret (c\<lparr>cp_client := (cp_client c)\<lparr>c_out := out\<rparr>\<rparr>)))"

end
