(* ===== verification/Handshake.thy ===== *)
theory Handshake
  imports Reading ClientProps Connect
begin

text \<open>
  Client and server together: two programs, each with a world of its own, and the bytes that one writes
  are what the other reads. A turn of a side is what happens when bytes of its peer arrive.

  The client's turn is the callback of its event loop. The server's is the read callback, a round of the
  worker and the write callback, each as a whole. When a frame arrives whole, \<open>check_packet\<close> unlocks the
  mutex of the input although it is not locked (\<open>check_packet_unlocks_twice\<close>); a turn is taken on mutexes
  that do not check that (\<open>Fast\<close>), the ones that Linux gives.
\<close>

section \<open>Turns\<close>

definition arrive :: "byte list \<Rightarrow> unit cmd" where
  "arrive bs = (\<lambda>w. Inr ((), w\<lparr>ins := [Inr bs]\<rparr>))"

definition event_of :: "int \<Rightarrow> u32 \<Rightarrow> event" where
  "event_of fd flags = \<lparr>ev_fd = fd, ev_flags = flags, ev_root = RootRegistered\<rparr>"

definition client_turn :: "sodium \<Rightarrow> byte list \<Rightarrow> excom_client \<Rightarrow> excom_client cmd" where
  "client_turn S bs client =
     bind (arrive bs) (\<lambda>_. event_listener S (default_handler S) (event_of (cl_sock client) EVENT_READ) client)"

definition server_turn :: "sodium \<Rightarrow> byte list \<Rightarrow> server_client \<Rightarrow> server_client cmd" where
  "server_turn S bs client =
     bind (arrive bs) (\<lambda>_.
     bind (excom_server_client_read_on Fast S (event_of (sc_fd client) EVENT_READ) client) (\<lambda>client.
     bind (worker_step S ret client) (\<lambda>(_, client).
     excom_server_client_write (event_of (sc_fd client) EVENT_WRITE) client)))"

lemma wp_arrive: "wp (arrive bs) Q w = Q () (w\<lparr>ins := [Inr bs]\<rparr>)"
  by (simp add: wp_def arrive_def)

lemma enc_frame_some [simp]: "enc_frame f \<noteq> []"
  by (cases f) (auto simp: enc_frame_def dest: arg_cong [where f = length])

section \<open>A side between two turns\<close>

text \<open>The next \<open>n\<close> calls of \<open>write\<close> take a packet of the handshake whole.\<close>

primrec takes :: "nat \<Rightarrow> (int + nat) list \<Rightarrow> bool" where
  "takes 0 os = True"
| "takes (Suc n) os = (case os of Inr k # os' \<Rightarrow> 128 \<le> k \<and> takes n os' | _ \<Rightarrow> False)"

definition side :: "sodium \<Rightarrow> encrypt_pair \<Rightarrow> nat \<Rightarrow> world \<Rightarrow> buffer \<Rightarrow> 'a conn_scheme \<Rightarrow> bool" where
  "side S pair n w inb d \<longleftrightarrow>
     conn_ok S w d \<and> ready w inb \<and> bids inb \<inter> bids (c_out d) = {} \<and>
     pending w inb = [] \<and> pending w (c_out d) = [] \<and> takes n (outs w) \<and>
     unat (b_used (c_out d)) + 128 * Suc n < 2 ^ 32 \<and> unat (b_used inb) + 64 * n < 2 ^ 31 \<and>
     e_local (c_keys d) = Some pair \<and> session_key S (c_keys d) = box_beforenm S (replicate 32 0) (ep_skey pair)"

lemma conn_ok_ioframe:
  assumes "conn_ok S w d" and "ioframe I w w'" and "bids (c_out d) \<inter> I = {}"
  shows "conn_ok S w' d"
  using assms ioframe_buf(1) [of w "c_out d" I w'] sane_frame [OF assms(2)] ioframe_hwf [OF assms(2)] ioframe_plenty [OF assms(2)]
  by (simp add: conn_ok_def ready_def)

lemma received_pending:
  assumes "received w b bs w' b'" and "buf_ok w b" and "pending w b = []"
  shows "pending w' b' = bs"
proof -
  have "unat (b_pos b) \<le> length (contents w b)"
    using assms(2) by (auto simp: buf_ok_def contents_def split: ptr.splits)
  then show ?thesis using assms(1,3) by (simp add: received_def pending_def)
qed

lemma side_heard:
  assumes s: "side S pair n w inb d" and r: "received w inb bs w1 b"
  shows "conn_ok S w1 d" and "roomy d" and "ready w1 b" and "pending w1 b = bs" and "bids b \<inter> bids (c_out d) = {}"
    and "pending w1 (c_out d) = []"
proof -
  have ok: "conn_ok S w d" "ready w inb" "bids inb \<inter> bids (c_out d) = {}" "pending w inb = []" "pending w (c_out d) = []"
    using s by (simp_all add: side_def)
  have f: "ioframe (bids inb) w w1" and new: "\<forall>i \<in> bids b. i \<in> bids inb \<or> fresh w \<le> i" using r by (simp_all add: received_def)
  have out: "buf_ok w (c_out d)" "hwf w" using ok(1) by (simp_all add: conn_ok_def ready_def)
  show "conn_ok S w1 d" by (rule conn_ok_ioframe [OF ok(1) f]) (use ok(3) in auto)
  show "roomy d" using s by (simp add: side_def roomy_def)
  show "ready w1 b" using r by (simp add: received_def)
  show "pending w1 b = bs" using ok by (intro received_pending [OF r]) (simp_all add: ready_def)
  show "bids b \<inter> bids (c_out d) = {}"
    using ok(3) new bids_below [OF out] by (meson disjoint_iff leD)
  show "pending w1 (c_out d) = []"
    using ioframe_buf(3) [OF out f] ok(3,5) by auto
qed

text \<open>From \<open>w\<close> to \<open>w'\<close> one message was written, framed with the keys \<open>e\<close>; \<open>w1\<close> is where it was sealed.\<close>

definition says :: "sodium \<Rightarrow> encrypt \<Rightarrow> int \<Rightarrow> world \<Rightarrow> world \<Rightarrow> u16 \<Rightarrow> msg \<Rightarrow> bool" where
  "says S e fd w w' i m \<longleftrightarrow> junk w' = junk w \<and> (\<exists>w1. entropy w1 = entropy w \<and> wire w' = (wire w)(fd := wire w fd @ framed S e w1 i m))"

text \<open>A side has handled what arrived and flushed its reply.\<close>

lemma side_sent:
  assumes s: "side S pair (Suc n) w inb d" and r: "received w inb bs w1 b" "length bs \<le> 64"
    and d1: "c_out d1 = c_out d" "c_keys d1 = c_keys d" and rep: "replied S w1 d1 i x w2 d2" "short_replies x" "snd x = [m]"
    and b2: "b2 = b\<lparr>b_pos := pos\<rparr>" "buf_ok w2 b2" "pending w2 b2 = []" "bids b2 \<inter> bids (c_out d2) = {}"
    and fl: "flushed sock w2 (c_out d2) e w3 out"
  shows "e = 0" and "side S pair n w3 b2 (d2\<lparr>c_out := out\<rparr>)"
    and "says S (c_keys d) sock w w3 i m"
proof -
  note heard = side_heard [OF s r(1)]
  have ok1: "conn_ok S w1 d1" using heard(1) d1 by (simp add: conn_ok_def)
  have pend: "pending w2 (c_out d2) = framed S (c_keys d) w1 i m"
    using replied_pending [OF rep(1) ok1] heard(6) d1 rep(3) by simp
  have len: "length (framed S (c_keys d) w1 i m) \<le> 128"
    using short_framed [OF ok1 rep(2), of i] rep(3) d1 by simp
  have "0 < length (framed S (c_keys d) w1 i m)" by (cases m) (simp add: framed_def Let_def)
  then have ne: "framed S (c_keys d) w1 i m \<noteq> []" by blast
  have w2: "outs w2 = outs w" "wire w2 = wire w" "conn_ok S w2 d2" using rep(1) r(1) by (simp_all add: replied_def received_def)
  obtain k os where k: "outs w = Inr k # os" "128 \<le> k" "takes n os"
    using s by (auto simp: side_def split: list.splits sum.splits)
  have ans: "write_answer (outs w2) (length (pending w2 (c_out d2))) = (length (pending w2 (c_out d2)), 0)"
    using k w2 pend len ne by (simp add: write_answer_def min_def)
  have "junk w3 = junk w"
    using ioframe_junk [OF flushed_frame [OF fl]] rep(1) r(1) by (auto simp: replied_def received_def dest: ioframe_junk)
  then show "e = 0" "says S (c_keys d) sock w w3 i m"
    using fl ans w2 pend r(1) by (auto simp: flushed_def says_def received_def)
  have f: "ioframe (bids (c_out d2)) w2 w3" using flushed_frame [OF fl] .
  have h2: "hwf w2" "plenty w2" using w2(3) by (simp_all add: conn_ok_def ready_def)
  have in3: "buf_ok w3 b2" "pending w3 b2 = []" using ioframe_buf [OF b2(2) h2(1) f b2(4)] b2(3) by simp_all
  have "unat (b_used (c_out d2)) \<le> unat (b_used (c_out d)) + 128" using replied_used [OF rep(1) ok1 rep(2)] d1 by simp
  moreover have "unat (b_used out) \<le> unat (b_used (c_out d2))" using flushed_used [OF fl] .
  moreover have "bids out \<subseteq> bids (c_out d2)" "pending w3 out = []" "outs w3 = os"
    using fl ans w2(1) k(1) pend ne by (simp_all add: flushed_def)
  ultimately show "side S pair n w3 b2 (d2\<lparr>c_out := out\<rparr>)"
    using flush_conn_ok [OF w2(3) fl] in3 k(3) b2 r s rep(1) d1 ioframe_hwf [OF f h2(1)] ioframe_plenty [OF f h2(2)] heard(3)
    by (auto simp: side_def ready_def received_def replied_def)
qed

section \<open>The turn of the client\<close>

definition client_at :: "sodium \<Rightarrow> encrypt_pair \<Rightarrow> nat \<Rightarrow> world \<Rightarrow> excom_client \<Rightarrow> bool" where
  "client_at S pair n w c \<longleftrightarrow> side S pair n w (cl_in c) c \<and> cl_enc c = pair \<and> \<not> cl_disconnected c"

lemma client_flush:
  assumes s: "side S pair (Suc n) w (cl_in c) c" "cl_enc c = pair" "\<not> cl_disconnected c"
    and r: "received w (cl_in c) (enc_frame f) w1 b" "length (enc_frame f) \<le> 64"
    and t: "client_took S w1 (c\<lparr>cl_in := b\<rparr>) f [] w2 c2"
    and x: "x = client_spec (ep_pkey pair) (c_state c) (snd f)" "snd x = [m]"
  shows "wp (clwrite (event_of fd EVENT_READ) c2) (\<lambda>c' w'. client_at S pair n w' c' \<and> c_state c' = fst x \<and>
    e_remote_active (c_keys c') = (e_remote_active (c_keys c) \<or> c_state c = STATE_PREENCRYPT \<and> fst x = STATE_ENCRYPT) \<and>
    cl_sock c' = cl_sock c \<and> says S (c_keys c) (cl_sock c) w w' (fst f) m) w2"
proof -
  have t: "replied S w1 (c\<lparr>cl_in := b\<rparr>) (fst f) x w2 c2" "client_ready S w2 c2" "pending w2 (cl_in c2) = []"
    "\<exists>pos. cl_in c2 = b\<lparr>b_pos := pos\<rparr>" "cl_enc c2 = pair" "cl_sock c2 = cl_sock c" "cl_disconnected c2 = cl_disconnected c"
    using t s(2) x(1) by (simp_all add: client_took_def)
  have rd: "buf_ok w2 (c_out c2)" "hwf w2" "\<not> b_mutex (c_out c2)"
    using t(2) by (simp_all add: client_ready_def conn_ok_def ready_def)
  have sh: "short_replies x" unfolding x(1) by (rule client_spec_short) (use s(1) in \<open>auto simp: side_def conn_ok_def\<close>)
  obtain pos where pos: "cl_in c2 = b\<lparr>b_pos := pos\<rparr>" using t(4) by blast
  show ?thesis
    unfolding clwrite_def wp_bind
  proof (rule wp_mono [OF buffer_write_wp [OF rd, of "cl_sock c2"]], clarsimp, goal_cases)
    case (1 e out w3)
    have "e = 0" "side S pair n w3 (cl_in c2) (c2\<lparr>c_out := out\<rparr>)" "says S (c_keys c) (cl_sock c2) w w3 (fst f) m"
      using side_sent [OF s(1) r _ _ t(1) sh x(2) pos _ t(3) _ 1] t(2) by (simp_all add: client_ready_def)
    then show ?case
      using t s by (auto simp: client_at_def replied_def event_of_def side_def conn_ok_def)
  qed
qed

lemma client_turn_ready:
  assumes c: "client_at S pair (Suc n) w c" and f: "frame_ok f" "clear (Some (c_keys c)) f" "length (enc_frame f) \<le> 64"
    and x: "x = client_spec (ep_pkey pair) (c_state c) (snd f)" "snd x = [m]"
  shows "wp (client_turn S (enc_frame f) c) (\<lambda>c' w'. client_at S pair n w' c' \<and> c_state c' = fst x \<and>
    e_remote_active (c_keys c') = (e_remote_active (c_keys c) \<or> c_state c = STATE_PREENCRYPT \<and> fst x = STATE_ENCRYPT) \<and>
    cl_sock c' = cl_sock c \<and> says S (c_keys c) (cl_sock c) w w' (fst f) m) w"
proof -
  let ?bs = "enc_frame f" and ?w = "w\<lparr>ins := [Inr (enc_frame f)]\<rparr>"
  have s: "side S pair (Suc n) w (cl_in c) c" "cl_enc c = pair" "\<not> cl_disconnected c"
    using c by (simp_all add: client_at_def)
  have "wp (loop clread_step (0, c)) (\<lambda>x w'. \<exists>b. x = (EAGAIN, snd (client_put b (0, c))) \<and> received ?w (cl_in c) ?bs w' b) ?w"
    using client_reads.reads_all [of "(0, c)" ?w ?bs] s f(3) by (simp add: side_def)
  then have L: "wp (loop clread_step (0, c)) (\<lambda>x w1. \<exists>b. x = (EAGAIN, c\<lparr>cl_in := b\<rparr>) \<and> received w (cl_in c) ?bs w1 b) ?w"
    by (simp add: client_put_def)
  show ?thesis
    unfolding client_turn_def event_listener_def clread_def wp_bind
  proof (simp add: wp_arrive, simp add: event_of_def, rule wp_mono [OF L], clarsimp, goal_cases)
    case (1 w1 b)
    note heard = side_heard [OF s(1) 1]
    have c1: "client_ready S w1 (c\<lparr>cl_in := b\<rparr>)"
      using heard s by (simp add: client_ready_def side_def ready_def conn_ok_def)
    show ?case
      by (rule wp_mono [OF client_check_packet_ready [OF c1, where f = f and rest = "[]"]])
         (use heard f client_flush [OF s 1 f(3) _ x, unfolded event_of_def] in \<open>simp_all add: roomy_def\<close>)
  qed
qed

section \<open>The turn of the server\<close>

definition server_at :: "sodium \<Rightarrow> encrypt_pair \<Rightarrow> nat \<Rightarrow> world \<Rightarrow> server_client \<Rightarrow> ptr \<Rightarrow> client_data \<Rightarrow> bool" where
  "server_at S pair n w s p d \<longleftrightarrow> sc_data s = Some (p, d) \<and> side S pair n w (cd_in d) d \<and> queue_holds (cd_queue d) [] \<and>
     (\<forall>i. q_nodes (cd_queue d) i \<noteq> None \<longrightarrow> i < fresh w) \<and> \<not> cd_mutex d \<and> \<not> cd_disconnected d"

text \<open>\<open>check_packet\<close> when its first round takes a frame and the rest is not a whole one.\<close>

lemma check_packet_takes:
  assumes step: "wp (check_step S (d\<lparr>cd_mutex := True\<rparr>))
      (\<lambda>(go, d') w'. go \<and> took_frame w (d\<lparr>cd_mutex := True, c_keys := keys\<rparr>) pks f rest w' d') w"
    and rest: "incomplete rest" and m: "\<not> cd_mutex d"
  shows "wp (check_packet_on Fast S d) (\<lambda>d' w'. took_frame w (d\<lparr>c_keys := keys\<rparr>) pks f rest w' d') w"
proof -
  let ?d = "d\<lparr>cd_mutex := True, c_keys := keys\<rparr>"
  obtain d1 w1 where s: "check_step S (d\<lparr>cd_mutex := True\<rparr>) w = Inr ((True, d1), w1)" "took_frame w ?d pks f rest w1 d1"
    using step by (auto elim!: wpE)
  then obtain raw inb q where t: "d1 = ?d\<lparr>cd_in := inb, cd_queue := q\<rparr>" "\<not> b_mutex inb" "\<exists>pos. inb = (cd_in ?d)\<lparr>b_pos := pos\<rparr>"
      "receiving w1 d1" "pending w1 inb = rest" "queue_holds q (pks @ [raw])" "arrived w1 raw f"
      "\<forall>i \<in> data_ids (pk_data raw). fresh w \<le> i" "mframe {} w w1"
    unfolding took_frame_def by blast
  let ?stop = "d1\<lparr>cd_in := (cd_in d1)\<lparr>b_mutex := 4 < length rest\<rparr>\<rparr>"
  have "check_step S d1 w1 = Inr ((False, ?stop), w1)"
    using check_step_stop [OF t(4), of S] t(1,2,5) rest by simp
  then have "loop (check_step S) (d\<lparr>cd_mutex := True\<rparr>) w = Inr (?stop, w1)"
    using loop_goes [of "check_step S" _ w d1 w1, OF s(1)] loop_stops [of "check_step S" d1 w1] by simp
  moreover have "cd_mutex ?stop" using t(1) by simp
  ultimately have "check_packet_on Fast S d w = Inr (?stop\<lparr>cd_in := (cd_in ?stop)\<lparr>b_mutex := False\<rparr>, cd_mutex := False\<rparr>, w1)"
    using check_packet_ends [of S d w ?stop w1 Fast] m by simp
  also have "?stop\<lparr>cd_in := (cd_in ?stop)\<lparr>b_mutex := False\<rparr>, cd_mutex := False\<rparr> = d\<lparr>c_keys := keys, cd_in := inb, cd_queue := q\<rparr>"
    using t(1,2) m by (cases inb; cases d) simp
  finally have run: "check_packet_on Fast S d w = Inr (d\<lparr>c_keys := keys, cd_in := inb, cd_queue := q\<rparr>, w1)" .
  have "receiving w1 (d\<lparr>c_keys := keys, cd_in := inb, cd_queue := q\<rparr>)" using t(1,4) by (simp add: receiving_def)
  then show ?thesis using run t by (auto simp: wp_def took_frame_def)
qed

text \<open>A round of the worker on one packet.\<close>

lemma worker_one:
  assumes c: "sc_data c = Some (p, d)" and q: "queue_holds (cd_queue d) [raw]"
    and ok: "conn_ok S w d" "roomy d" and raw: "raw_ok w (c_out d) raw vs" and m: "\<not> cd_mutex d" "\<not> cd_disconnected d"
  shows "wp (worker_step S ret c) (\<lambda>(go, c') w'. go \<and> sc_fd c' = sc_fd c \<and> (\<exists>q d'. sc_data c' = Some (p, d') \<and>
    queue_holds q [] \<and> q_nodes q = q_nodes (cd_queue d) \<and>
    handled S w (d\<lparr>cd_queue := q\<rparr>) raw (server_spec (ep_pkey (the (e_local (c_keys d)))) (c_state d) (pk_type raw, vs)) d' w')) w"
proof -
  obtain q' where q': "unlink_packet (cd_queue d) = Inr (raw, q')" "queue_holds q' []" "q_nodes q' = q_nodes (cd_queue d)"
    using unlink_packet_ok [OF q] by auto
  let ?d = "d\<lparr>cd_queue := q'\<rparr>"
  have ne: "q_packets (cd_queue d) \<noteq> Null" using queue_empty_iff [OF q] by simp
  have d: "d\<lparr>cd_mutex := False\<rparr> = d" using m by (cases d) simp
  have H: "wp (server_handle_packet S ?d raw) (handled S w ?d raw (server_spec (ep_pkey (the (e_local (c_keys d)))) (c_state d) (pk_type raw, vs))) w"
    using server_handle_packet_ready [of S w ?d raw vs] ok raw by (simp add: roomy_def)
  show ?thesis
  proof (simp add: worker_step_def with_data_def c m ne d, rule loop_step_wp, simp add: drain_step_def ne q'(1), rule wp_mono [OF H], goal_cases)
    case (1 d' w')
    have "conn.more d' = conn.more ?d" using 1 by (simp add: handled_def answered_def)
    then have "cd_queue d' = q'" using client_data_more(1) [of d' ?d] by simp
    then have "q_packets (cd_queue d') = Null" using queue_empty_iff [OF q'(2)] by simp
    then have "wp (loop (drain_step S) c1) Q w' = Q c1 w'" if "sc_data c1 = Some (p, d')" for c1 Q
      by (intro wp_run loop_stops) (simp add: drain_step_def that ret_def)
    then show ?case
      using 1 q'(2,3) by (auto simp: update_event_def)
  qed
qed

lemma server_flush:
  assumes s: "side S pair (Suc n) w inb d" and r: "received w inb bs w1 b" "length bs \<le> 64"
    and rep: "replied S w1 d1 i x w2 d2" "c_out d1 = c_out d" "c_keys d1 = c_keys d" "short_replies x" "snd x = [m]"
    and b2: "cd_in d2 = b\<lparr>b_pos := pos\<rparr>" "buf_ok w2 (cd_in d2)" "pending w2 (cd_in d2) = []" "bids (cd_in d2) \<inter> bids (c_out d2) = {}"
    and c: "sc_data c = Some (p, d2)" "queue_holds (cd_queue d2) []" "\<forall>i. q_nodes (cd_queue d2) i \<noteq> None \<longrightarrow> i < fresh w2"
      "\<not> cd_mutex d2" "\<not> cd_disconnected d2"
  shows "wp (excom_server_client_write (event_of fd EVENT_WRITE) c) (\<lambda>s' w'. \<exists>d'. server_at S pair n w' s' p d' \<and>
    c_state d' = c_state d2 \<and> e_remote_active (c_keys d') = e_remote_active (c_keys d2) \<and> sc_fd s' = sc_fd c \<and>
    says S (c_keys d) (sc_fd c) w w' i m) w2"
proof -
  have "conn_ok S w2 d2" using rep(1) by (simp add: replied_def)
  then have rd: "buf_ok w2 (c_out d2)" "hwf w2" "\<not> b_mutex (c_out d2)" by (simp_all add: conn_ok_def ready_def)
  show ?thesis
    unfolding excom_server_client_write_def c(1) option.case prod.case if_not_P [OF c(5)] wp_bind
  proof (rule wp_mono [OF buffer_write_wp [OF rd, of "sc_fd c"]], clarsimp, goal_cases)
    case (1 e out w3)
    note sent = side_sent [OF s r rep(2,3,1,4,5) b2(1-4) 1]
    have "fresh w3 = fresh w2" using 1 by (simp add: flushed_def split: prod.splits)
    then show ?case
      using sent c by (auto simp: server_at_def event_of_def deref_root_def update_event_def)
  qed
qed

text \<open>The read callback of the server, with the bytes that arrived at the end of its input.\<close>

lemma server_reads_wp:
  assumes s: "server_at S pair n w s p d" and bs: "bs \<noteq> []" "unat (b_used (cd_in d)) + length bs < 2 ^ 32"
    and C: "\<And>w1 b. received w (cd_in d) bs w1 b \<Longrightarrow>
      wp (check_packet_on Fast S (d\<lparr>cd_in := b\<rparr>)) (\<lambda>d' w'. Q (s\<lparr>sc_data := Some (p, d')\<rparr>) w') w1"
  shows "wp (excom_server_client_read_on Fast S ev s) Q (w\<lparr>ins := [Inr bs]\<rparr>)"
proof -
  let ?w = "w\<lparr>ins := [Inr bs], errno := 0\<rparr>"
  have sd: "side S pair n w (cd_in d) d" "sc_data s = Some (p, d)" "\<not> cd_disconnected d"
    using s by (simp_all add: server_at_def)
  have "wp (loop (read_step ev) (0, s, False)) (\<lambda>x w1. \<exists>b. x = (EAGAIN, snd (peer_put b (0, s, False))) \<and> received ?w (cd_in d) bs w1 b) ?w"
    using server_reads.reads_all [of "(0, s, False)" ?w bs ev] sd bs by (simp add: side_def peer_live_def peer_in_def)
  then have L: "wp (loop (read_step ev) (0, s, False)) (\<lambda>x w1. \<exists>b. x = (EAGAIN, s\<lparr>sc_data := Some (p, d\<lparr>cd_in := b\<rparr>)\<rparr>, False) \<and>
      received w (cd_in d) bs w1 b) ?w"
    by (simp add: peer_put_def sd(2))
  show ?thesis
    unfolding excom_server_client_read_on_def wp_bind
    by (simp add: set_errno_def wp_def [of "\<lambda>w. Inr (_, _ w)"], rule wp_mono [OF L]) (clarsimp simp: with_data_def, erule C)
qed

text \<open>The worker on the packet that a round of \<open>check_packet\<close> has linked.\<close>

lemma server_works:
  assumes ok: "conn_ok S w1 d1" "roomy d1" "ready w1 (cd_in d1)" "bids (cd_in d1) \<inter> bids (c_out d1) = {}"
    and t: "took_frame w1 d1 [] f rest w2 d2" and f: "frame_ok f" and c: "sc_data c = Some (p, d2)"
    and m: "\<not> cd_mutex d1" "\<not> cd_disconnected d1"
    and x: "x = server_spec (ep_pkey (the (e_local (c_keys d1)))) (c_state d1) (snd f)"
  shows "wp (worker_step S ret c) (\<lambda>(go, c') w3. go \<and> sc_fd c' = sc_fd c \<and> (\<exists>d3. sc_data c' = Some (p, d3) \<and>
    replied S w1 d1 (fst f) x w3 d3 \<and> queue_holds (cd_queue d3) [] \<and> (\<forall>i. q_nodes (cd_queue d3) i \<noteq> None \<longrightarrow> i < fresh w3) \<and>
    \<not> cd_mutex d3 \<and> \<not> cd_disconnected d3 \<and> (\<exists>pos. cd_in d3 = (cd_in d1)\<lparr>b_pos := pos\<rparr>) \<and> buf_ok w3 (cd_in d3) \<and>
    pending w3 (cd_in d3) = rest \<and> bids (cd_in d3) \<inter> bids (c_out d3) = {})) w2"
proof -
  obtain raw pos q where t: "d2 = d1\<lparr>cd_in := (cd_in d1)\<lparr>b_pos := pos\<rparr>, cd_queue := q\<rparr>" "receiving w2 d2" "pending w2 (cd_in d2) = rest"
    "queue_holds q [raw]" "arrived w2 raw f" "\<forall>i \<in> data_ids (pk_data raw). fresh w1 \<le> i" "mframe {} w1 w2"
    using t unfolding took_frame_def by auto
  have apart: "data_ids (pk_data raw) \<inter> bids (c_out d1) = {}" "data_ids (pk_data raw) \<inter> bids (cd_in d1) = {}"
    using t(6) ready_below [OF conn_okD(1) [OF ok(1)]] ready_below [OF ok(3)] by force+
  note raw = arrived_raw [OF t(5) f apart(1)]
  have ok2: "conn_ok S w2 d2" using conn_ok_mframe [OF ok(1) t(7)] t(1) by (simp add: conn_ok_def)
  have "wp (worker_step S ret c) (\<lambda>(go, c') w'. go \<and> sc_fd c' = sc_fd c \<and> (\<exists>q' d'. sc_data c' = Some (p, d') \<and>
      queue_holds q' [] \<and> q_nodes q' = q_nodes q \<and> handled S w2 (d2\<lparr>cd_queue := q'\<rparr>) raw x d' w')) w2"
    by (rule wp_mono [OF worker_one [OF c, where raw = raw and vs = "snd (snd f)"]])
       (use t(1,4) ok2 ok(2) raw m x in \<open>auto simp: roomy_def\<close>)
  then show ?thesis
  proof (rule wp_mono, goal_cases)
    case (1 y w3)
    then obtain c3 q' d3 where y: "y = (True, c3)" and h: "sc_fd c3 = sc_fd c" "queue_holds q' []" "sc_data c3 = Some (p, d3)"
        "q_nodes q' = q_nodes q" "handled S w2 (d2\<lparr>cd_queue := q'\<rparr>) raw x d3 w3"
      by (cases y) auto
    have more: "cd_queue d3 = q'" "\<not> cd_mutex d3" "cd_in d3 = (cd_in d1)\<lparr>b_pos := pos\<rparr>" "\<not> cd_disconnected d3"
      using client_data_more [of d3 "d2\<lparr>cd_queue := q'\<rparr>"] h(5) m t(1) by (simp_all add: handled_def answered_def)
    have rep: "replied S w1 d1 (fst f) x w3 d3"
      using handled_replied [OF h(5) t(7), of d1] ok(1) t(1) raw(2) by (simp add: conn_ok_def)
    have r2: "buf_ok w2 (cd_in d2)" "hwf w2" "\<forall>i. q_nodes q i \<noteq> None \<longrightarrow> i < fresh w2"
      using t(1,2) by (simp_all add: receiving_def)
    have b: "bids (cd_in d2) = bids (cd_in d1)" "cd_in d3 = cd_in d2" "c_out (d2\<lparr>cd_queue := q'\<rparr>) = c_out d1"
      using t(1) more(3) by (simp_all add: bids_def)
    have f3: "fresh w2 \<le> fresh w3" using h(5) ioframe_fresh by (auto simp: handled_def answered_def)
    have in3: "buf_ok w3 (cd_in d3)" "pending w3 (cd_in d3) = rest" "bids (cd_in d3) \<inter> bids (c_out d3) = {}"
      "\<forall>i. q_nodes q' i \<noteq> None \<longrightarrow> i < fresh w3"
      using handled_input [OF h(5) r2(1,2)] apart(2) ok(4) t(3) r2(3) f3 by (auto simp: b h(4) dest: less_le_trans)
    show ?case
      using y h(1-3) rep more in3 by auto
  qed
qed

text \<open>The input of the server after bytes have arrived.\<close>

lemma server_heard:
  assumes s: "server_at S pair n w s p d" and r: "received w (cd_in d) bs w1 b"
  shows "receiving w1 (d\<lparr>cd_in := b, cd_mutex := m\<rparr>)" and "\<not> b_mutex b" and "queue_holds (cd_queue d) []"
proof -
  have sd: "side S pair n w (cd_in d) d" and nodes: "\<And>i. q_nodes (cd_queue d) i \<noteq> None \<Longrightarrow> i < fresh w"
    using s by (simp_all add: server_at_def)
  note heard = side_heard [OF sd r]
  show "receiving w1 (d\<lparr>cd_in := b, cd_mutex := m\<rparr>)" "\<not> b_mutex b"
    using heard(1,3) nodes ioframe_fresh [of "bids (cd_in d)" w w1] r
    by (fastforce simp: receiving_def ready_def conn_ok_def sane_def received_def)+
  show "queue_holds (cd_queue d) []" using s by (simp add: server_at_def)
qed

lemma server_turn_ready:
  assumes s: "server_at S pair (Suc n) w s p d" and f: "frame_ok f" "clear (Some (c_keys d)) f" "length (enc_frame f) \<le> 64"
    and x: "x = server_spec (ep_pkey pair) (c_state d) (snd f)" "snd x = [m]"
  shows "wp (server_turn S (enc_frame f) s) (\<lambda>s' w'. \<exists>d'. server_at S pair n w' s' p d' \<and> c_state d' = fst x \<and>
    e_remote_active (c_keys d') = (e_remote_active (c_keys d) \<or> c_state d = STATE_PREENCRYPT \<and> fst x = STATE_ENCRYPT) \<and>
    sc_fd s' = sc_fd s \<and> says S (c_keys d) (sc_fd s) w w' (fst f) m) w"
proof -
  have sd: "side S pair (Suc n) w (cd_in d) d" "\<not> cd_mutex d" "\<not> cd_disconnected d"
    using s by (simp_all add: server_at_def)
  have loc: "the (e_local (c_keys d)) = pair" and room: "unat (b_used (cd_in d)) + length (enc_frame f) < 2 ^ 32"
    using sd(1) f(3) by (simp_all add: side_def)
  have sh: "short_replies x" unfolding x(1) by (rule server_spec_short) (use sd(1) in \<open>auto simp: side_def conn_ok_def\<close>)
  show ?thesis
    unfolding server_turn_def wp_bind
  proof (simp add: wp_arrive, rule server_reads_wp [OF s _ room], simp, goal_cases)
    case (1 w1 b)
    note r = 1 and heard = side_heard [OF sd(1) 1] and rc = server_heard [OF s 1]
    let ?d1 = "d\<lparr>cd_in := b\<rparr>" and ?m = "d\<lparr>cd_in := b, cd_mutex := True\<rparr>"
    have "wp (check_step S ?m) (\<lambda>(go, d') w'. go \<and> took_frame w1 ?m [] f [] w' d') w1"
      by (rule check_step_frame [OF rc(1) _ _ f(1)]) (use heard(4) f(2) rc in simp_all)
    then have C: "wp (check_packet_on Fast S ?d1) (\<lambda>d' w'. took_frame w1 ?d1 [] f [] w' d') w1"
      using check_packet_takes [of S ?d1 w1 "c_keys d" "[]" f "[]"] sd(2) by (simp add: incomplete_def)
    have W: "wp (worker_step S ret (s\<lparr>sc_data := Some (p, d2)\<rparr>)) Q w2"
      if "took_frame w1 ?d1 [] f [] w2 d2"
        and "\<And>go c' w3 d3 pos. sc_fd c' = sc_fd s \<Longrightarrow> sc_data c' = Some (p, d3) \<Longrightarrow> replied S w1 ?d1 (fst f) x w3 d3 \<Longrightarrow>
          queue_holds (cd_queue d3) [] \<Longrightarrow> \<forall>i. q_nodes (cd_queue d3) i \<noteq> None \<longrightarrow> i < fresh w3 \<Longrightarrow> \<not> cd_mutex d3 \<Longrightarrow>
          \<not> cd_disconnected d3 \<Longrightarrow> cd_in d3 = b\<lparr>b_pos := pos\<rparr> \<Longrightarrow> buf_ok w3 (b\<lparr>b_pos := pos\<rparr>) \<Longrightarrow>
          pending w3 (b\<lparr>b_pos := pos\<rparr>) = [] \<Longrightarrow> bids (b\<lparr>b_pos := pos\<rparr>) \<inter> bids (c_out d3) = {} \<Longrightarrow> go \<Longrightarrow> Q (go, c') w3" for d2 w2 Q
    proof (rule wp_mono [OF server_works [OF _ _ _ _ that(1) f(1), where x = x and p = p]], goal_cases)
      case (9 y w3)
      then show ?case by clarify (rule that(2), simp_all)
    qed (use heard sd loc x(1) in \<open>simp_all add: roomy_def\<close>)
    show ?case
    proof (rule wp_mono [OF C], goal_cases)
      case (1 d2 w2)
      show ?case
      proof (rule W [OF 1], goal_cases)
        case (1 go c' w3 d3 pos)
        show ?case
          unfolding prod.case
          by (rule wp_mono [OF server_flush [OF sd(1) r f(3) 1(3) _ _ sh x(2) 1(8), where p = p]])
             (use 1 in \<open>auto simp: replied_def\<close>)
      qed
    qed
  qed
qed

section \<open>Exchanges\<close>

text \<open>What was written to a descriptor between two worlds.\<close>

definition heard :: "int \<Rightarrow> world \<Rightarrow> world \<Rightarrow> byte list" where
  "heard fd w w' = drop (length (wire w fd)) (wire w' fd)"

text \<open>
  The server takes its turn with the bytes that it is sent, then the client with what the server wrote; the
  result has what the client wrote.
\<close>

definition exchange :: "sodium \<Rightarrow> byte list \<times> (server_client \<times> world) \<times> (excom_client \<times> world) \<Rightarrow>
    fault + (byte list \<times> (server_client \<times> world) \<times> (excom_client \<times> world))" where
  "exchange S x =
     (case x of (bs, (s, ws), (c, wc)) \<Rightarrow>
        andthen (server_turn S bs s ws) (\<lambda>(s', ws').
        andthen (client_turn S (heard (sc_fd s) ws ws') c wc) (\<lambda>(c', wc').
        Inr (heard (cl_sock c) wc wc', (s', ws'), (c', wc')))))"

primrec exchanges :: "sodium \<Rightarrow> nat \<Rightarrow> byte list \<times> (server_client \<times> world) \<times> (excom_client \<times> world) \<Rightarrow>
    fault + (byte list \<times> (server_client \<times> world) \<times> (excom_client \<times> world))" where
  "exchanges S 0 x = Inr x"
| "exchanges S (Suc n) x = andthen (exchange S x) (exchanges S n)"

lemma exchanges_last: "exchanges S (Suc n) x = andthen (exchanges S n x) (exchange S)"
proof (induction n arbitrary: x)
  case (Suc n)
  show ?case
  proof (cases "exchange S x")
    case (Inr y)
    then show ?thesis using Suc [of y] by (simp add: andthen_def)
  qed (simp add: andthen_def)
qed (simp add: andthen_def split: sum.splits)

lemma framed_clear: "clear (Some e) (i, m) \<Longrightarrow> frame_ok (i, m) \<Longrightarrow> framed S e w i m = enc_frame (i, m)"
  by (cases "e_remote_active e"; cases m)
     (auto simp: framed_plain framed_empty clear_def encrypting_def frame_ok_def fields_ok_def)

lemma says_clear:
  "says S e fd w w' i m \<Longrightarrow> clear (Some e) (i, m) \<Longrightarrow> frame_ok (i, m) \<Longrightarrow> wire w' = (wire w)(fd := wire w fd @ enc_frame (i, m))"
  by (auto simp: says_def framed_clear)

text \<open>A frame the server answers, with a frame the client answers.\<close>

lemma exchange_ready:
  assumes s: "server_at S ps (Suc n) ws s p d" and c: "client_at S pc (Suc k) wc c"
    and f: "frame_ok (i, mf)" "clear (Some (c_keys d)) (i, mf)" "length (enc_frame (i, mf)) \<le> 64"
    and x: "server_spec (ep_pkey ps) (c_state d) mf = (st, [m])"
    and g: "frame_ok (i, m)" "clear (Some (c_keys d)) (i, m)" "clear (Some (c_keys c)) (i, m)" "length (enc_frame (i, m)) \<le> 64"
    and y: "client_spec (ep_pkey pc) (c_state c) m = (st', [m'])"
  shows "\<exists>s' ws' c' wc' d'. exchange S (enc_frame (i, mf), (s, ws), (c, wc)) = Inr (heard (cl_sock c) wc wc', (s', ws'), (c', wc')) \<and>
    server_at S ps n ws' s' p d' \<and> client_at S pc k wc' c' \<and> c_state d' = st \<and> c_state c' = st' \<and>
    e_remote_active (c_keys d') = (e_remote_active (c_keys d) \<or> c_state d = STATE_PREENCRYPT \<and> st = STATE_ENCRYPT) \<and>
    e_remote_active (c_keys c') = (e_remote_active (c_keys c) \<or> c_state c = STATE_PREENCRYPT \<and> st' = STATE_ENCRYPT) \<and>
    sc_fd s' = sc_fd s \<and> cl_sock c' = cl_sock c \<and>
    wire ws' (sc_fd s) = wire ws (sc_fd s) @ enc_frame (i, m) \<and> junk ws' = junk ws \<and> says S (c_keys c) (cl_sock c) wc wc' i m'"
proof -
  obtain s' ws' d' where S: "server_turn S (enc_frame (i, mf)) s ws = Inr (s', ws')" "server_at S ps n ws' s' p d'" "c_state d' = st"
    "e_remote_active (c_keys d') = (e_remote_active (c_keys d) \<or> c_state d = STATE_PREENCRYPT \<and> st = STATE_ENCRYPT)"
    "sc_fd s' = sc_fd s" "says S (c_keys d) (sc_fd s) ws ws' i m"
    using server_turn_ready [OF s f refl, of m] x by (auto simp: wp_iff)
  have w: "wire ws' (sc_fd s) = wire ws (sc_fd s) @ enc_frame (i, m)" using says_clear [OF S(6) g(2,1)] by simp
  obtain c' wc' where C: "client_turn S (enc_frame (i, m)) c wc = Inr (c', wc')" "client_at S pc k wc' c'" "c_state c' = st'"
    "e_remote_active (c_keys c') = (e_remote_active (c_keys c) \<or> c_state c = STATE_PREENCRYPT \<and> st' = STATE_ENCRYPT)"
    "cl_sock c' = cl_sock c" "says S (c_keys c) (cl_sock c) wc wc' i m'"
    using client_turn_ready [OF c g(1,3,4) refl, of m'] y by (auto simp: wp_iff)
  have "exchange S (enc_frame (i, mf), (s, ws), (c, wc)) = Inr (heard (cl_sock c) wc wc', (s', ws'), (c', wc'))"
    using S(1) C(1) w by (simp add: exchange_def heard_def)
  moreover have "junk ws' = junk ws" using S(6) by (simp add: says_def)
  ultimately show ?thesis using S C w by blast
qed

section \<open>The handshake\<close>

text \<open>The version message of the client.\<close>

definition version_message :: msg where
  "version_message = (packet_protocol_version, [WStr version_string, WNum 0, WNum 0, WNum 1])"

lemma length_version_frame: "length (enc_frame (1, version_message)) = 21"
  by (simp add: version_message_def version_string_def enc_frame_def enc_fields_def)

text \<open>The course of the handshake, and its frames.\<close>

lemma handshake_specs:
  assumes "length ps = 32" and "length pc = 32"
  shows "server_spec ps STATE_PREHANDSHAKE version_message = (STATE_PREENCRYPT, [(packet_ok, [])])"
    and "client_spec pc STATE_PREHANDSHAKE (packet_ok, []) = (STATE_PREENCRYPT, [(packet_public_key, [WStr pc])])"
    and "server_spec ps STATE_PREENCRYPT (packet_public_key, [WStr pc]) = (STATE_ENCRYPT, [(packet_public_key, [WStr ps])])"
    and "client_spec pc STATE_PREENCRYPT (packet_public_key, [WStr ps]) = (STATE_ENCRYPT, [(packet_ping, [])])"
    and "server_spec ps STATE_ENCRYPT (packet_ping, []) = (STATE_BODY, [(packet_pong, [])])"
    and "client_spec pc STATE_ENCRYPT (packet_pong, []) = (STATE_BODY, [(packet_command, [WStr hello_world])])"
  using assms by (simp_all add: server_spec_def client_spec_def version_message_def version_accepted_def is_key_def)

lemma handshake_frames:
  assumes "length pk = 32"
  shows "frame_ok (1, version_message)" and "frame_ok (1, packet_ok, [])" and "frame_ok (1, packet_ping, [])"
    and "frame_ok (1, packet_pong, [])" and "frame_ok (1, packet_public_key, [WStr pk])"
    and "length (enc_frame (1, packet_ok, [])) \<le> 64" and "length (enc_frame (1, packet_ping, [])) \<le> 64"
    and "length (enc_frame (1, packet_pong, [])) \<le> 64" and "length (enc_frame (1, packet_public_key, [WStr pk])) \<le> 64"
  using assms by (simp_all add: frame_ok_def fields_ok_def enc_frame_def enc_fields_def version_message_def version_string_def)


text \<open>
  The handshake completes: a client that has sent its version and a server that has accepted the
  connection reach the body state together in three exchanges, with exactly these frames between them,
  whatever the keys. Each side computes its session key from zeros and its own secret key, and the
  command that the client sends next is sealed with the client's.
\<close>

lemma handshake_completes:
  assumes s: "server_at S ps (3 + n) ws s p d" "c_state d = STATE_PREHANDSHAKE" "\<not> e_remote_active (c_keys d)"
    and c: "client_at S pc (3 + k) wc c" "c_state c = STATE_PREHANDSHAKE" "\<not> e_remote_active (c_keys c)"
  shows "\<exists>bs s' ws' c' wc' d'. exchanges S 3 (enc_frame (1, version_message), (s, ws), (c, wc)) = Inr (bs, (s', ws'), (c', wc')) \<and>
    server_at S ps n ws' s' p d' \<and> e_remote_active (c_keys d') \<and> junk ws' = junk ws \<and> c_state d' = STATE_BODY \<and> c_state c' = STATE_BODY \<and>
    wire ws' (sc_fd s) = wire ws (sc_fd s) @ enc_frame (1, packet_ok, []) @
      enc_frame (1, packet_public_key, [WStr (ep_pkey ps)]) @ enc_frame (1, packet_pong, []) \<and>
    wire wc' (cl_sock c) = wire wc (cl_sock c) @ enc_frame (1, packet_public_key, [WStr (ep_pkey pc)]) @
      enc_frame (1, packet_ping, []) @ bs \<and>
    (\<exists>e w. e_remote_active e \<and> enc_ok S e \<and> session_key S e = box_beforenm S (replicate 32 0) (ep_skey pc) \<and>
      bs = framed S e w 1 (packet_command, [WStr hello_world]))"
proof -
  have k: "length (ep_pkey ps) = 32" "length (ep_pkey pc) = 32"
    using s(1) c(1) by (auto simp: server_at_def client_at_def side_def conn_ok_def)
  note specs = handshake_specs [OF k] and ok = handshake_frames(1-4) [OF k(1)] handshake_frames(5) [OF k(1)] handshake_frames(5) [OF k(2)]
    and len = handshake_frames(6-8) [OF k(1)] handshake_frames(9) [OF k(1)] handshake_frames(9) [OF k(2)]
  have n3: "3 + m = Suc (Suc (Suc m))" for m by simp
  note s = s [unfolded n3] and c = c [unfolded n3]
  obtain s1 ws1 c1 wc1 d1 where E1: "exchange S (enc_frame (1, version_message), (s, ws), (c, wc)) = Inr (heard (cl_sock c) wc wc1, (s1, ws1), (c1, wc1))"
    "server_at S ps (Suc (Suc n)) ws1 s1 p d1" "client_at S pc (Suc (Suc k)) wc1 c1" "c_state d1 = STATE_PREENCRYPT" "c_state c1 = STATE_PREENCRYPT"
    "\<not> e_remote_active (c_keys d1)" "\<not> e_remote_active (c_keys c1)" "sc_fd s1 = sc_fd s" "cl_sock c1 = cl_sock c"
    "wire ws1 (sc_fd s) = wire ws (sc_fd s) @ enc_frame (1, packet_ok, [])" "junk ws1 = junk ws"
    "says S (c_keys c) (cl_sock c) wc wc1 1 (packet_public_key, [WStr (ep_pkey pc)])"
    using exchange_ready [OF s(1) c(1) ok(1) _ _ _ ok(2) _ _ len(1), of STATE_PREENCRYPT STATE_PREENCRYPT "(packet_public_key, [WStr (ep_pkey pc)])"]
      s(2,3) c(2,3) specs(1,2) length_version_frame by auto
  have w1: "wire wc1 (cl_sock c) = wire wc (cl_sock c) @ enc_frame (1, packet_public_key, [WStr (ep_pkey pc)])"
    using says_clear [OF E1(12) _ ok(6)] c(3) by simp
  obtain s2 ws2 c2 wc2 d2 where E2: "exchange S (enc_frame (1, packet_public_key, [WStr (ep_pkey pc)]), (s1, ws1), (c1, wc1)) = Inr (heard (cl_sock c1) wc1 wc2, (s2, ws2), (c2, wc2))"
    "server_at S ps (Suc n) ws2 s2 p d2" "client_at S pc (Suc k) wc2 c2" "c_state d2 = STATE_ENCRYPT" "c_state c2 = STATE_ENCRYPT"
    "e_remote_active (c_keys d2)" "e_remote_active (c_keys c2)" "sc_fd s2 = sc_fd s1" "cl_sock c2 = cl_sock c1"
    "wire ws2 (sc_fd s1) = wire ws1 (sc_fd s1) @ enc_frame (1, packet_public_key, [WStr (ep_pkey ps)])" "junk ws2 = junk ws1"
    "says S (c_keys c1) (cl_sock c1) wc1 wc2 1 (packet_ping, [])"
    using exchange_ready [OF E1(2,3) ok(6) _ len(5) _ ok(5) _ _ len(4), of STATE_ENCRYPT STATE_ENCRYPT "(packet_ping, [])"]
      E1(4-7) specs(3,4) by auto
  have w2: "wire wc2 (cl_sock c) = wire wc1 (cl_sock c) @ enc_frame (1, packet_ping, [])"
    using says_clear [OF E2(12) _ ok(3)] E1(9) by simp
  obtain s3 ws3 c3 wc3 d3 where E3: "exchange S (enc_frame (1, packet_ping, []), (s2, ws2), (c2, wc2)) = Inr (heard (cl_sock c2) wc2 wc3, (s3, ws3), (c3, wc3))"
    "server_at S ps n ws3 s3 p d3" "c_state d3 = STATE_BODY" "c_state c3 = STATE_BODY" "e_remote_active (c_keys d3)"
    "wire ws3 (sc_fd s2) = wire ws2 (sc_fd s2) @ enc_frame (1, packet_pong, [])" "junk ws3 = junk ws2"
    "says S (c_keys c2) (cl_sock c2) wc2 wc3 1 (packet_command, [WStr hello_world])"
    using exchange_ready [OF E2(2,3) ok(3) _ len(2) _ ok(4) _ _ len(3), of STATE_BODY STATE_BODY "(packet_command, [WStr hello_world])"]
      E2(4-7) specs(5,6) by auto
  obtain w where w3: "wire wc3 (cl_sock c) = wire wc2 (cl_sock c) @ framed S (c_keys c2) w 1 (packet_command, [WStr hello_world])"
    using E3(8) E2(9) E1(9) by (auto simp: says_def)
  have h: "heard (cl_sock c) wc wc1 = enc_frame (1, packet_public_key, [WStr (ep_pkey pc)])" "heard (cl_sock c1) wc1 wc2 = enc_frame (1, packet_ping, [])"
    "heard (cl_sock c2) wc2 wc3 = framed S (c_keys c2) w 1 (packet_command, [WStr hello_world])"
    using w1 w2 w3 E2(9) E1(9) by (simp_all add: heard_def)
  have sealed: "\<exists>e w'. e_remote_active e \<and> enc_ok S e \<and> session_key S e = box_beforenm S (replicate 32 0) (ep_skey pc) \<and>
      framed S (c_keys c2) w 1 (packet_command, [WStr hello_world]) = framed S e w' 1 (packet_command, [WStr hello_world])"
    using E2(3,7) by (auto simp: client_at_def side_def conn_ok_def)
  have "exchanges S 3 (enc_frame (1, version_message), (s, ws), (c, wc)) =
      Inr (framed S (c_keys c2) w 1 (packet_command, [WStr hello_world]), (s3, ws3), (c3, wc3))"
    using E1(1) E2(1) E3(1) h by (simp add: numeral_eq_Suc)
  moreover have "wire ws3 (sc_fd s) = wire ws (sc_fd s) @ enc_frame (1, packet_ok, []) @
      enc_frame (1, packet_public_key, [WStr (ep_pkey ps)]) @ enc_frame (1, packet_pong, [])"
    using E1(8,10) E2(8,10) E3(6) by simp
  moreover have "wire wc3 (cl_sock c) = wire wc (cl_sock c) @ enc_frame (1, packet_public_key, [WStr (ep_pkey pc)]) @
      enc_frame (1, packet_ping, []) @ framed S (c_keys c2) w 1 (packet_command, [WStr hello_world])"
    using w1 w2 w3 by simp
  moreover have "junk ws3 = junk ws" using E1(11) E2(11) E3(7) by simp
  ultimately show ?thesis using E3(2-5) sealed by blast
qed


end
