(* ===== verification/ConnectProps.thy ===== *)
theory ConnectProps
  imports Handshake ServerEvents
begin

text \<open>What the client sends when it connects, and what the server makes of it.\<close>

text \<open>Writing the version packet, as a turn of the client without anything received.\<close>

lemma version_appended:
  assumes ok: "conn_ok S w cl" and plain: "\<not> e_remote_active (c_keys cl)" and fit: "unat (b_used (c_out cl)) + 128 < 2 ^ 32"
    and "str = excom_string_fill excom_string_init 6 (Lit version_string)"
  shows "wp (excom_protocol_write_packet S (version_packet_out\<lparr>pk_data := [SVal str, NVal 0, NVal 0, NVal 1]\<rparr>) (c_out cl) (Some (c_keys cl)))
    (\<lambda>(r, pk, out, enc) w'. enc = Some (c_keys cl) \<and> appended w (c_out cl) (enc_frame (1, version_message)) w' out) w"
proof -
  let ?vs = "[WStr version_string, WNum 0, WNum 0, WNum 1]"
  let ?pk = "version_packet_out\<lparr>pk_data := [SVal str, NVal 0, NVal 0, NVal 1]\<rparr>"
  note k = conn_okD [OF ok]
  have cr: "crypto_ready S (Some (c_keys cl))" using k(3,4) by (simp add: crypto_ready_def)
  have "str_val w str version_string" using assms(4) by (simp add: str_val_def excom_string_fill_def version_string_def)
  then have dv: "data_val w (pk_data ?pk) ?vs" by (simp add: data_val_def fv_val_def)
  have fo: "fields_ok [FString ''version'', FNumber8 ''major'', FNumber8 ''minor'', FNumber8 ''patch''] ?vs"
    by (simp add: fields_ok_def version_string_def)
  have ids: "\<forall>i \<in> data_ids (pk_data ?pk). i < fresh w" using assms(4) by (simp add: data_ids_def str_ids_def excom_string_fill_def)
  have len: "length (enc_fields ?vs) = 13" by (simp add: enc_fields_def version_string_def)
  have ne: "\<not> encrypting (Some (c_keys cl))" using plain by (simp add: encrypting_def)
  have frame: "enc_header (of_nat (length (enc_fields ?vs))) 1 4 @ enc_fields ?vs = enc_frame (1, version_message)"
    by (simp add: version_message_def enc_frame_def)
  show ?thesis
    by (rule wp_mono [OF write_packet_ready [OF k(2,1) _ dv fo ids cr refl refl]])
       (use fit ne len frame in \<open>auto simp: version_packet_out_def payload_def payload_draws_def drawn_def enc_after_def\<close>)
qed

lemma send_version_ready:
  assumes c: "client_at S pair (Suc n) w cl" and plain: "\<not> e_remote_active (c_keys cl)"
  shows "wp (send_version S cl) (\<lambda>cl' w'. client_at S pair n w' cl' \<and> c_state cl' = c_state cl \<and> c_keys cl' = c_keys cl \<and>
    cl_sock cl' = cl_sock cl \<and> wire w' = (wire w)(cl_sock cl := wire w (cl_sock cl) @ enc_frame (1, version_message))) w"
proof -
  let ?str = "excom_string_fill excom_string_init 6 (Lit version_string)"
  have s: "side S pair (Suc n) w (cl_in cl) cl" "cl_enc cl = pair" "\<not> cl_disconnected cl" using c by (simp_all add: client_at_def)
  have ok: "conn_ok S w cl" and fit: "unat (b_used (c_out cl)) + 128 < 2 ^ 32" using s(1) by (simp_all add: side_def)
  have pre: "excom_protocol_prefill version_packet_out [PfString ?str, PfNumber 0, PfNumber 0, PfNumber 1] =
      Inr (version_packet_out\<lparr>pk_data := [SVal ?str, NVal 0, NVal 0, NVal 1]\<rparr>)"
    by (simp add: excom_protocol_prefill_def version_packet_out_def)
  have six: "of_nat (length version_string) = (6 :: u32)" by (simp add: version_string_def)
  have framed: "framed S (c_keys cl) w 1 version_message = enc_frame (1, version_message)"
    using framed_plain [OF plain, of S w 1 "fst version_message" "snd version_message"] by simp
  show ?thesis
    unfolding send_version_def Let_def six wp_bind pre wp_lift_Inr
  proof (rule wp_mono [OF version_appended [OF ok plain fit refl]], goal_cases)
    case (1 x w1)
    then obtain r pk out where x: "x = (r, pk, out, Some (c_keys cl))" and a: "appended w (c_out cl) (enc_frame (1, version_message)) w1 out"
      by (cases x) auto
    have rd: "buf_ok w1 out" "hwf w1" "\<not> b_mutex out" using a by (simp_all add: appended_def ready_def)
    have m: "mframe (bids (c_out cl)) w w1" using a by (auto simp: appended_def dest: bstepD(2))
    let ?cl = "cl\<lparr>c_out := out\<rparr>"
    have rep: "replied S w cl 1 (c_state cl, [version_message]) w1 ?cl"
      using a ok framed sane_frame [OF mframe_ioframe [OF m]] mframe_envD(1,2,7) [OF m]
      by (auto simp: replied_def conn_ok_def appended_def)
    have in1: "buf_ok w1 (cl_in cl)" "pending w1 (cl_in cl) = []" "bids (cl_in cl) \<inter> bids out = {}" "ready w (cl_in cl)"
    proof -
      have b: "ready w (cl_in cl)" "pending w (cl_in cl) = []" "bids (cl_in cl) \<inter> bids (c_out cl) = {}"
        using s(1) by (simp_all add: side_def)
      have i: "buf_ok w (cl_in cl)" "hwf w" using b(1) by (simp_all add: ready_def)
      show "buf_ok w1 (cl_in cl)" "pending w1 (cl_in cl) = []" "ready w (cl_in cl)" using buf_frame [OF i m b(3)] b by simp_all
      have "\<forall>j \<in> bids out. j \<in> bids (c_out cl) \<or> fresh w \<le> j" using a by (auto simp: appended_def bstep_def)
      then show "bids (cl_in cl) \<inter> bids out = {}" using b(3) bids_below [OF i] by (meson disjoint_iff leD)
    qed
    show ?case
      unfolding x prod.case wp_bind
    proof (rule wp_mono [OF buffer_write_wp [OF rd, of "cl_sock cl"]], clarsimp, goal_cases)
      case (1 e out' w2)
      have sh: "short_replies (c_state cl, [version_message])"
        by (simp add: short_replies_def version_message_def version_string_def enc_fields_def)
      have "side S pair n w2 (cl_in cl) (cl\<lparr>c_out := out'\<rparr>)" "says S (c_keys cl) (cl_sock cl) w w2 1 version_message"
        using side_sent [OF s(1) received_refl [OF in1(4)] _ refl refl rep sh, of version_message "cl_in cl" "b_pos (cl_in cl)"] in1 1 by simp_all
      then show ?case
        using s(2,3) says_clear [of S "c_keys cl" "cl_sock cl" w w2 1 version_message] plain handshake_frames(1) [of "replicate 32 0"]
        by (auto simp: client_at_def side_def conn_ok_def)
    qed
  qed
qed

lemma syscall_ok: "f (ep_kernel s) = (Inr x, k) \<Longrightarrow> wp (syscall f s) Q w = Q (Inr x, s\<lparr>ep_kernel := k\<rparr>) w"
  by (simp add: wp_def syscall_cases)

lemma connect_at:
  assumes "hwf w" and "plenty w" and "sane w" and "takes n (outs w)" and "n < 2 ^ 20" and "sodium_ok S" and "length (ep_pkey pair) = 32"
    and "sz < 2 ^ 63"
  shows "wp (excom_server_client_connect S sz pair s) (\<lambda>s' w'. \<exists>p d. server_at S pair n w' s' p d \<and> c_state d = STATE_PREHANDSHAKE \<and>
    \<not> e_remote_active (c_keys d) \<and> sc_fd s' = sc_fd s \<and> wire w' = wire w \<and> junk w' = junk w) w"
proof -
  have l: "little w" using assms(3) by (simp add: sane_def)
  show ?thesis
  proof (rule wp_mono [OF connect_wp [OF assms(1,2) l assms(8)]], elim exE conjE, goal_cases)
    case (1 s' w' p d)
    have "sane w'" using mframe_envD(5,6) [OF 1(3)] assms(3) by (simp add: sane_def)
    then have "side S pair n w' (cd_in d) d"
      using 1(2) assms(4-7) mframe_envD(2) [OF 1(3)]
      by (auto simp: side_def fresh_client_def conn_ok_def enc_ok_def excom_encrypt_init_def sodium_ok_def session_key_def prepped_def)
    then have "server_at S pair n w' s' p d"
      using 1(1,2) by (simp add: server_at_def fresh_client_def empty_queue_def queue_holds_def queue_blocks_def)
    then show ?case
      using 1 mframe_envD(1,7) [OF 1(3)] by (intro exI [of _ p] exI [of _ d]) (simp add: fresh_client_def excom_encrypt_init_def)
  qed
qed

text \<open>
  Connecting starts the handshake: when the system calls succeed, \<open>excom_client_connect\<close> writes
  exactly one frame to its socket, the version packet, which the server's side of the handshake
  accepts, and leaves the client ready for the turns of the handshake.
\<close>

lemma client_connect_version:
  assumes "k_socket K (ep_kernel c) = (Inr fd, k1)" and "k_gethost K (cp_addr c) k1 = (Some addr, k2)"
    and "k_connect K fd addr (cp_port c) k2 = (Inr (), k3)" and "k_getfl K fd k3 = (Inr fl, k4)"
    and "k_setfl K fd (or fl O_NONBLOCK) k4 = (Inr (), k5)"
    and w: "hwf w" "plenty w" "sane w" "takes (Suc n) (outs w)" "n < 2 ^ 20"
    and keys: "sodium_ok S" "c_keys (cp_client c) = (excom_encrypt_init S)\<lparr>e_local := Some pair\<rparr>" "length (ep_pkey pair) = 32"
    and cl: "cl_enc (cp_client c) = pair" "\<not> cl_disconnected (cp_client c)"
  shows "wp (excom_client_connect S K c) (\<lambda>(err, c') w'. err = 0 \<and>
    wire w' = (wire w)(fd := wire w fd @ enc_frame (1, version_message)) \<and> client_at S pair n w' (cp_client c') \<and>
    c_state (cp_client c') = c_state (cp_client c) \<and> c_keys (cp_client c') = c_keys (cp_client c) \<and> cl_sock (cp_client c') = fd) w"
proof -
  have nb: "wp (socket_non_blocking K fd s) Q w = Q (0, s\<lparr>ep_kernel := k5\<rparr>) w" if "ep_kernel s = k3" for s :: "'a client_program" and Q
    using that assms(4,5) by (simp add: wp_def socket_non_blocking_def bind_def ret_def syscall_cases ERROR_CHECK_def)
  let ?cl = "(cp_client c)\<lparr>cl_sock := fd\<rparr>"
  have init: "wp (excom_buffer_init b0 32) Q w1"
    if "mframe {} w w1" "\<And>b w'. ready w' b \<and> contents w' b = [] \<and> b_used b = 0 \<and> bids b = {fresh w1} \<and> fresh w' = Suc (fresh w1) \<Longrightarrow>
      mframe {} w w' \<Longrightarrow> mframe {} w1 w' \<Longrightarrow> Q (0, b) w'" for Q b0 w1
  proof (rule wp_mono [OF buffer_init_wp [OF mframe_hwf [OF that(1) w(1)] mframe_plenty [OF that(1) w(2)]]], goal_cases)
    case (2 x w')
    then show ?case using that(1) by (cases x) (auto intro!: that(2) mframe_chain [OF that(1)] simp: contents_def bids_def)
  qed simp
  have sent: "wp (send_version S (?cl\<lparr>cl_in := inb\<lparr>b_freeable := False\<rparr>, c_out := out\<lparr>b_freeable := False\<rparr>\<rparr>)) (\<lambda>cl' w'.
      wire w' = (wire w)(fd := wire w fd @ enc_frame (1, version_message)) \<and> client_at S pair n w' cl' \<and>
      c_state cl' = c_state (cp_client c) \<and> c_keys cl' = c_keys (cp_client c) \<and> cl_sock cl' = fd) w2"
    if i: "ready w1 inb \<and> contents w1 inb = [] \<and> b_used inb = 0 \<and> bids inb = {f} \<and> fresh w1 = Suc f"
      and o: "ready w2 out \<and> contents w2 out = [] \<and> b_used out = 0 \<and> bids out = {fresh w1} \<and> fresh w2 = Suc (fresh w1)"
      and m: "mframe {} w w2" "mframe {} w1 w2" for inb out w1 w2 f
  proof -
    let ?c = "?cl\<lparr>cl_in := inb\<lparr>b_freeable := False\<rparr>, c_out := out\<lparr>b_freeable := False\<rparr>\<rparr>"
    have r: "ready w2 inb" "pending w2 inb = []" "ready w2 out" "pending w2 out = []"
      using i o m(2) ready_frame [of w1 inb "{}" w2] buf_frame(2) [of w1 inb "{}" w2] by (simp_all add: ready_def pending_def)
    have flag: "ready w2 (b\<lparr>b_freeable := False\<rparr>) = ready w2 b" "pending w2 (b\<lparr>b_freeable := False\<rparr>) = pending w2 b"
      "bids (b\<lparr>b_freeable := False\<rparr>) = bids b" for b
      by (simp_all add: ready_def buf_ok_def pending_def contents_def bids_def cong: ptr.case_cong)
    have "conn_ok S w2 ?c"
      using r keys w(3) mframe_envD(5,6) [OF m(1)] flag(1) by (auto simp: conn_ok_def enc_ok_def sane_def excom_encrypt_init_def sodium_ok_def)
    moreover have "session_key S (c_keys ?c) = box_beforenm S (replicate 32 0) (ep_skey pair)"
      using keys by (auto simp: excom_encrypt_init_def session_key_def prepped_def sodium_ok_def)
    moreover have "takes (Suc n) (outs w2)" using w(4) mframe_envD(2) [OF m(1)] by simp
    moreover have "e_local (c_keys ?c) = Some pair" using keys(2) by (simp add: excom_encrypt_init_def)
    ultimately have "client_at S pair (Suc n) w2 ?c"
      using r flag i o w(5) cl unfolding client_at_def side_def by simp
    then show ?thesis
      by (rule wp_mono [OF send_version_ready])
         (use keys(2) mframe_envD(1) [OF m(1)] in \<open>simp_all add: excom_encrypt_init_def\<close>)
  qed
  show ?thesis
    unfolding excom_client_connect_def wp_bind
    by (simp add: syscall_ok assms(1-3) ERROR_CHECK_def nb)
       (rule init, simp, simp, rule init, assumption, simp, rule wp_mono [OF sent], assumption+, simp)
qed

definition program_of :: "int list client_program" where
  "program_of = \<lparr>ep_loop = True, ep_epollfd = 3, ep_timeout = 500, ep_maxevents = 32, ep_kernel = [], cp_client = client_c 1 empty_queue,
     cp_port = 5656, cp_addr = localhost, cp_fd = 4\<rparr>"

text \<open>
  The handshake with its beginning: the client connects, the server accepts, and \<open>n\<close> turns are left to the server
  after it.
\<close>

lemma handshake_at:
  assumes net: "k_socket K (ep_kernel c) = (Inr fd, k1)" "k_gethost K (cp_addr c) k1 = (Some addr, k2)"
      "k_connect K fd addr (cp_port c) k2 = (Inr (), k3)" "k_getfl K fd k3 = (Inr fl, k4)" "k_setfl K fd (or fl O_NONBLOCK) k4 = (Inr (), k5)"
    and wc: "hwf wc" "plenty wc" "sane wc" "takes 4 (outs wc)" and ws: "hwf ws" "plenty ws" "sane ws" "takes (3 + n) (outs ws)"
    and keys: "sodium_ok S" "length (ep_pkey pc) = 32" "length (ep_pkey ps) = 32" "c_keys (cp_client c) = (excom_encrypt_init S)\<lparr>e_local := Some pc\<rparr>"
    and cl: "cl_enc (cp_client c) = pc" "\<not> cl_disconnected (cp_client c)" "c_state (cp_client c) = STATE_PREHANDSHAKE"
    and sz: "sz < 2 ^ 63" and n: "n < 2 ^ 16"
  shows "wp (excom_client_connect S K c) (\<lambda>(err, c1) wc1.
    wp (excom_server_client_connect S sz ps s) (\<lambda>s1 ws1.
      \<exists>bs s' ws' c' wc' p d'. exchanges S 3 (heard fd wc wc1, (s1, ws1), (cp_client c1, wc1)) = Inr (bs, (s', ws'), (c', wc')) \<and>
        server_at S ps n ws' s' p d' \<and> e_remote_active (c_keys d') \<and> junk ws' = junk ws \<and> c_state d' = STATE_BODY \<and> c_state c' = STATE_BODY \<and>
        wire ws' (sc_fd s) = wire ws (sc_fd s) @ enc_frame (1, packet_ok, []) @
          enc_frame (1, packet_public_key, [WStr (ep_pkey ps)]) @ enc_frame (1, packet_pong, []) \<and>
        wire wc' fd = wire wc fd @ enc_frame (1, version_message) @ enc_frame (1, packet_public_key, [WStr (ep_pkey pc)]) @
          enc_frame (1, packet_ping, []) @ bs \<and>
        (\<exists>e w. e_remote_active e \<and> enc_ok S e \<and> session_key S e = box_beforenm S (replicate 32 0) (ep_skey pc) \<and>
          bs = framed S e w 1 (packet_command, [WStr hello_world]))) ws) wc"
proof -
  have four: "takes (Suc 3) (outs wc)" using wc(4) by (simp add: numeral_eq_Suc)
  show ?thesis
  proof (rule wp_mono [OF client_connect_version [OF net wc(1-3) four _ keys(1,4,2) cl(1,2)]], simp, goal_cases)
    case (1 x wc1)
    then obtain err c1 where x: "x = (err, c1)" and c1: "wire wc1 = (wire wc)(fd := wire wc fd @ enc_frame (1, version_message))"
      "client_at S pc 3 wc1 (cp_client c1)" "c_state (cp_client c1) = STATE_PREHANDSHAKE" "\<not> e_remote_active (c_keys (cp_client c1))"
      "cl_sock (cp_client c1) = fd"
      using keys(4) cl(3) by (cases x) (simp add: excom_encrypt_init_def)
    have h: "heard fd wc wc1 = enc_frame (1, version_message)" using c1(1) by (simp add: heard_def)
    show ?case
      unfolding x prod.case h
    proof (rule wp_mono [OF connect_at [OF ws _ keys(1,3) sz]], use n in simp, elim exE conjE, goal_cases)
      case (1 s1 ws1 p d)
      have "client_at S pc (3 + 0) wc1 (cp_client c1)" using c1(2) by simp
      from handshake_completes [OF 1(1-3) this c1(3,4)] show ?case
        using 1 c1(1,5) by simp blast
    qed
  qed
qed

section \<open>Properties\<close>

text \<open>
  C3. From connecting to the body state: a client that connects to a server that takes the connection
  completes the handshake with it. The two reach the body state in three exchanges, with exactly these
  frames between them, whatever their keys, and the client's first command follows, sealed. The session
  key of each side is computed from zeros and its own secret key: it does not depend on the public key
  that the other side has sent.
\<close>

theorem client_server_handshake:
  assumes net: "k_socket K (ep_kernel c) = (Inr fd, k1)" "k_gethost K (cp_addr c) k1 = (Some addr, k2)"
      "k_connect K fd addr (cp_port c) k2 = (Inr (), k3)" "k_getfl K fd k3 = (Inr fl, k4)" "k_setfl K fd (or fl O_NONBLOCK) k4 = (Inr (), k5)"
    and wc: "hwf wc" "plenty wc" "sane wc" "takes 4 (outs wc)" and ws: "hwf ws" "plenty ws" "sane ws" "takes 3 (outs ws)"
    and keys: "sodium_ok S" "length (ep_pkey pc) = 32" "length (ep_pkey ps) = 32" "c_keys (cp_client c) = (excom_encrypt_init S)\<lparr>e_local := Some pc\<rparr>"
    and cl: "cl_enc (cp_client c) = pc" "\<not> cl_disconnected (cp_client c)" "c_state (cp_client c) = STATE_PREHANDSHAKE"
    and sz: "sz < 2 ^ 63"
  shows "wp (excom_client_connect S K c) (\<lambda>(err, c1) wc1.
    wp (excom_server_client_connect S sz ps s) (\<lambda>s1 ws1.
      \<exists>bs s' ws' c' wc' p d'. exchanges S 3 (heard fd wc wc1, (s1, ws1), (cp_client c1, wc1)) = Inr (bs, (s', ws'), (c', wc')) \<and>
        sc_data s' = Some (p, d') \<and> c_state d' = STATE_BODY \<and> c_state c' = STATE_BODY \<and>
        wire ws' (sc_fd s) = wire ws (sc_fd s) @ enc_frame (1, packet_ok, []) @
          enc_frame (1, packet_public_key, [WStr (ep_pkey ps)]) @ enc_frame (1, packet_pong, []) \<and>
        wire wc' fd = wire wc fd @ enc_frame (1, version_message) @ enc_frame (1, packet_public_key, [WStr (ep_pkey pc)]) @
          enc_frame (1, packet_ping, []) @ bs \<and>
        session_key S (c_keys d') = box_beforenm S (replicate 32 0) (ep_skey ps) \<and>
        (\<exists>e w. e_remote_active e \<and> session_key S e = box_beforenm S (replicate 32 0) (ep_skey pc) \<and>
          bs = framed S e w 1 (packet_command, [WStr hello_world]))) ws) wc"
proof -
  have t: "takes (3 + 0) (outs ws)" using ws(4) by simp
  show ?thesis
    by (rule wp_mono [OF handshake_at [OF net wc ws(1-3) t keys cl sz]], simp, clarsimp, erule wp_mono)
       (auto simp: server_at_def side_def, blast)
qed

theorem client_server_handshake_witness:
  "wp (excom_client_connect xor_sodium logging program_of) (\<lambda>(err, c1) wc1.
    wp (excom_server_client_connect xor_sodium 400 (pair_of 9) (new_client 5)) (\<lambda>s1 ws1.
      \<exists>bs s' ws' c' wc'. exchanges xor_sodium 3 (heard 4 ((trio [])\<lparr>outs := replicate 4 (Inr 128)\<rparr>) wc1, (s1, ws1), (cp_client c1, wc1)) =
        Inr (bs, (s', ws'), (c', wc')) \<and> c_state c' = STATE_BODY) ((trio [])\<lparr>outs := replicate 3 (Inr 128)\<rparr>))
   ((trio [])\<lparr>outs := replicate 4 (Inr 128)\<rparr>)"
proof -
  have w: "sane ((trio [])\<lparr>outs := x\<rparr>)" "hwf ((trio [])\<lparr>outs := x\<rparr>)" "plenty ((trio [])\<lparr>outs := x\<rparr>)" for x
    using trio_ready(1) [of "[]"] by (simp_all add: sane_def hwf_def plenty_def trio_def)
  have c: "c_keys (cp_client program_of) = (excom_encrypt_init xor_sodium)\<lparr>e_local := Some (pair_of 7)\<rparr>"
    "\<not> cl_disconnected (cp_client program_of)" "cl_enc (cp_client program_of) = pair_of 7" "c_state (cp_client program_of) = STATE_PREHANDSHAKE"
    by (simp_all add: program_of_def client_c_def)
  have t: "takes 4 (replicate 4 (Inr 128))" "takes 3 (replicate 3 (Inr 128))" by (simp_all add: numeral_eq_Suc)
  show ?thesis
    by (rule wp_mono [OF client_server_handshake [where pc = "pair_of 7" and fd = 4, OF _ _ _ _ _ w(2,3,1) _ w(2,3,1)]])
       (use c t in \<open>auto simp: logging_def program_of_def pair_of_def elim!: wp_mono\<close>)
qed


end
