(* ===== verification/Session.thy ===== *)
theory Session
  imports ConnectProps
begin

text \<open>
  Sessions: a connection of the server from \<open>excom_server_client_connect\<close> on, through any sequence of read
  callbacks, rounds of the worker, write callbacks and closes, each as the code has it, while the rest of the
  program changes the world between them. Nothing is assumed of the packets that arrive, of the heap or of the
  keys: what is shown holds of every step that returns.
\<close>

section \<open>The states a connection reaches\<close>

text \<open>
  In \<open>others\<close> the rest of the program takes its turn: the world becomes any other, and the flags that the threads
  share have any value.
\<close>

inductive server_step :: "sodium \<Rightarrow> world \<times> server_client \<Rightarrow> world \<times> server_client \<Rightarrow> bool" for S where
  reads: "excom_server_client_read_on kind S ev c w = Inr (c', w') \<Longrightarrow> server_step S (w, c) (w', c')"
| handles: "drain_step S c w = Inr ((go, c'), w') \<Longrightarrow> server_step S (w, c) (w', c')"
| writes: "excom_server_client_write ev c w = Inr (c', w') \<Longrightarrow> server_step S (w, c) (w', c')"
| closes: "excom_server_client_close ev c w = Inr (c', w') \<Longrightarrow> server_step S (w, c) (w', c')"
| others: "sc_data c = Some (p, d) \<Longrightarrow>
    server_step S (w, c) (w', c\<lparr>sc_data := Some (p, d\<lparr>cd_mutex := m, cd_disconnected := b\<rparr>)\<rparr>)"

inductive_cases server_stepE: "server_step S (w, c) (w', c')"

inductive connection :: "sodium \<Rightarrow> encrypt_pair \<Rightarrow> world \<Rightarrow> server_client \<Rightarrow> bool" for S pair where
  start: "sodium_ok S \<Longrightarrow> excom_server_client_connect S sz pair c w = Inr (c', w') \<Longrightarrow> connection S pair w' c'"
| step: "connection S pair w c \<Longrightarrow> server_step S (w, c) (w', c') \<Longrightarrow> connection S pair w' c'"

text \<open>A state of the connection's data that is reached.\<close>

definition session :: "sodium \<Rightarrow> encrypt_pair \<Rightarrow> world \<Rightarrow> client_data \<Rightarrow> bool" where
  "session S pair w d \<longleftrightarrow> (\<exists>c p. connection S pair w c \<and> sc_data c = Some (p, d))"

section \<open>What the code does to the keys\<close>

text \<open>The only change besides the handlers' is that the shared key is made.\<close>

definition keys_kept :: "sodium \<Rightarrow> encrypt \<Rightarrow> encrypt \<Rightarrow> bool" where
  "keys_kept S e e' \<longleftrightarrow> e' = e \<or> e' = prepped S e"

lemma prepped_twice [simp]: "prepped S (prepped S e) = prepped S e"
  by (simp add: prepped_def)

lemma prepped_fields [simp]:
  "e_remote_active (prepped S e) = e_remote_active e" "e_remote_pkey (prepped S e) = e_remote_pkey e"
  "e_local (prepped S e) = e_local e"
  by (simp_all add: prepped_def)

lemma keys_kept_refl [simp]: "keys_kept S e e"
  by (simp add: keys_kept_def)

lemma keys_kept_trans: "keys_kept S e e1 \<Longrightarrow> keys_kept S e1 e2 \<Longrightarrow> keys_kept S e e2"
  by (auto simp: keys_kept_def)

lemma keys_keptD:
  assumes "keys_kept S e e'"
  shows "e_remote_active e' = e_remote_active e" and "e_remote_pkey e' = e_remote_pkey e" and "e_local e' = e_local e"
    and "session_key S e' = session_key S e"
  using assms by (auto simp: keys_kept_def)

lemma prep_keys: "excom_encrypt_prep S e w = Inr (e', w') \<Longrightarrow> keys_kept S e e'"
  by (auto simp: excom_encrypt_prep_def prepped_def keys_kept_def ret_def fail_def split: if_splits option.splits)

lemma pencrypt_keys: "excom_pencrypt_buffer2 S e buf out use w = Inr ((r, e', out'), w') \<Longrightarrow> keys_kept S e e'"
  by (auto simp: excom_pencrypt_buffer2_def Let_def ret_def elim!: bind_InrE split: if_splits option.splits dest!: prep_keys)

lemma pdecrypt_keys: "excom_pdecrypt_buffer2 S e buf out use w = Inr ((r, e', buf', out'), w') \<Longrightarrow> keys_kept S e e'"
  by (auto simp: excom_pdecrypt_buffer2_def Let_def ret_def elim!: bind_InrE split: if_splits option.splits dest!: prep_keys)

lemma read_packet_keys:
  "excom_protocol_read_packet S pk b (Some e) w = Inr ((r, pk', b', enc'), w') \<Longrightarrow> keys_kept S e (the enc')"
  by (auto simp: excom_protocol_read_packet_def Let_def ret_def elim!: bind_InrE split: if_splits dest!: pdecrypt_keys)

lemma write_packet_keys:
  "excom_protocol_write_packet S pk b (Some e) w = Inr ((r, pk', b', enc'), w') \<Longrightarrow> keys_kept S e (the enc')"
  by (auto simp: excom_protocol_write_packet_def excom_pencrypt_buffer_def Let_def ret_def elim!: bind_InrE split: if_splits
      dest!: pencrypt_keys) (erule (1) keys_kept_trans)

lemma send_keys:
  assumes "send S d raw t va w = Inr (d', w')"
  shows "c_state d' = c_state d \<and> keys_kept S (c_keys d) (c_keys d') \<and> conn.more d' = conn.more d"
  using assms by (auto simp: send_def ret_def elim!: bind_InrE dest!: write_packet_keys)

text \<open>The four moves of the handshake on the server's side: none, and the three changes of state.\<close>

definition moved :: "sodium \<Rightarrow> 'a conn_scheme \<Rightarrow> 'a conn_scheme \<Rightarrow> bool" where
  "moved S d d' \<longleftrightarrow>
     keys_kept S (c_keys d) (c_keys d') \<and>
       (c_state d' = c_state d \<or> c_state d = STATE_PREHANDSHAKE \<and> c_state d' = STATE_PREENCRYPT \<or>
        c_state d = STATE_ENCRYPT \<and> c_state d' = STATE_BODY) \<or>
     c_state d = STATE_PREENCRYPT \<and> c_state d' = STATE_ENCRYPT \<and>
       (\<exists>k. keys_kept S (c_keys d) k \<and> c_keys d' = k\<lparr>e_remote_active := True\<rparr>)"

lemma handle_moved:
  assumes "server_handle_packet S d raw w = Inr (d', w')"
  shows "moved S d d' \<and> conn.more d' = conn.more d"
  using assms
  by (auto simp: server_handle_packet_def server_public_key_def server_protocol_version_def server_ping_def server_command_def
      server_command_response_def require_state_def send_error_def send_reject_def moved_def Let_def ret_def fail_def
      elim!: bind_InrE split: if_splits list.splits fval.splits option.splits dest!: send_keys)

section \<open>The steps\<close>

lemma check_step_moved:
  assumes "check_step S d w = Inr ((go, d'), w')"
  shows "c_state d' = c_state d \<and> keys_kept S (c_keys d) (c_keys d')"
  using assms
  by (auto simp: check_step_def Let_def ret_def fail_def elim!: bind_InrE split: if_splits dest!: read_packet_keys)

lemma check_loop_moved:
  assumes "loop (check_step S) d w = Inr (d', w')"
  shows "c_state d' = c_state d \<and> keys_kept S (c_keys d) (c_keys d')"
  using assms
proof (induction rule: loop_induct)
  case (go d w d1 w1 d2 w2)
  then show ?case using check_step_moved [OF go.hyps(1)] by (auto intro: keys_kept_trans)
qed (rule check_step_moved)

lemma check_packet_moved:
  assumes "check_packet_on kind S d w = Inr (d', w')"
  shows "c_state d' = c_state d \<and> keys_kept S (c_keys d) (c_keys d')"
  using assms by (auto simp: check_packet_on_def ret_def elim!: bind_InrE dest!: check_loop_moved)

text \<open>A step leaves the data alone, moves it along the handshake, or frees it.\<close>

definition data_moved :: "sodium \<Rightarrow> server_client \<Rightarrow> server_client \<Rightarrow> bool" where
  "data_moved S c c' \<longleftrightarrow> (\<forall>p' d'. sc_data c' = Some (p', d') \<longrightarrow> (\<exists>p d. sc_data c = Some (p, d) \<and> moved S d d'))"

lemma data_moved_refl: "sc_data c' = sc_data c \<Longrightarrow> data_moved S c c'"
  by (simp add: data_moved_def moved_def)

lemma moved_cong: "moved S d d' \<Longrightarrow> c_state d1 = c_state d \<Longrightarrow> c_keys d1 = c_keys d \<Longrightarrow> moved S d1 d'"
  by (simp add: moved_def)

lemma close_moved: "excom_server_client_close ev c w = Inr (c', w') \<Longrightarrow> data_moved S c c'"
  by (auto simp: excom_server_client_close_def ret_def data_moved_def moved_def elim!: bind_InrE split: option.splits if_splits)

text \<open>The read callback: its loop keeps the state and the keys, or closes the connection.\<close>

definition same_data :: "server_client \<Rightarrow> server_client \<Rightarrow> bool" where
  "same_data c c' \<longleftrightarrow> (\<forall>p' d'. sc_data c' = Some (p', d') \<longrightarrow>
     (\<exists>p d. sc_data c = Some (p, d) \<and> c_state d' = c_state d \<and> c_keys d' = c_keys d))"

lemma same_data_trans: "same_data c c1 \<Longrightarrow> same_data c1 c2 \<Longrightarrow> same_data c c2"
  by (fastforce simp: same_data_def)

lemma close_same: "excom_server_client_close ev c w = Inr (c', w') \<Longrightarrow> same_data c c'"
  by (auto simp: excom_server_client_close_def ret_def same_data_def elim!: bind_InrE split: option.splits if_splits)

lemma read_step_same:
  assumes "read_step ev (err, c, dn) w = Inr ((go, err', c', dn'), w')"
  shows "same_data c c'"
  using assms
  by (auto simp: read_step_def ret_def same_data_def elim!: bind_InrE split: option.splits if_splits sum.splits dest!: close_same)

lemma read_loop_same:
  assumes "loop (read_step ev) x w = Inr (y, w')"
  shows "same_data (fst (snd x)) (fst (snd y))"
  using assms
proof (induction rule: loop_induct)
  case (stop x w y w')
  then show ?case by (cases x; cases y) (auto dest: read_step_same)
next
  case (go x w x1 w1 y w')
  then show ?case by (cases x; cases x1) (auto dest: read_step_same intro: same_data_trans)
qed

lemma read_moved:
  assumes "excom_server_client_read_on kind S ev c w = Inr (c', w')"
  shows "data_moved S c c'"
proof -
  obtain err c1 dn w1 w2 where l: "loop (read_step ev) (0, c, False) w1 = Inr ((err, c1, dn), w2)"
    "(if \<not> dn \<and> err = EAGAIN then with_data c1 (check_packet_on kind S) else ret c1) w2 = Inr (c', w')"
    using assms by (auto simp: excom_server_client_read_on_def elim!: bind_InrE)
  have "same_data c c1" using read_loop_same [OF l(1)] by simp
  then show ?thesis
    using l(2)
    by (auto simp: with_data_def ret_def fail_def same_data_def data_moved_def moved_def elim!: bind_InrE
        split: if_splits option.splits dest!: check_packet_moved)
qed

lemma write_moved: "excom_server_client_write ev c w = Inr (c', w') \<Longrightarrow> data_moved S c c'"
  by (auto simp: excom_server_client_write_def Let_def ret_def data_moved_def moved_def update_event_def elim!: bind_InrE
      split: option.splits if_splits)

lemma drain_moved:
  assumes "drain_step S c w = Inr ((go, c'), w')"
  shows "data_moved S c c'"
proof -
  obtain p d where d: "sc_data c = Some (p, d)" using assms by (auto simp: drain_step_def fail_def split: option.splits)
  show ?thesis
  proof (cases "q_packets (cd_queue d) = Null")
    case True
    then show ?thesis using assms d by (simp add: drain_step_def ret_def data_moved_refl)
  next
    case False
    then obtain raw q d' w1 where h: "server_handle_packet S (d\<lparr>cd_queue := q\<rparr>) raw w1 = Inr (d', w')" "sc_data c' = Some (p, d')"
      using assms d by (auto simp: drain_step_def ret_def update_event_def elim!: bind_InrE)
    have "moved S d d'" using handle_moved [OF h(1)] by (auto intro: moved_cong)
    then show ?thesis using d h(2) by (simp add: data_moved_def)
  qed
qed

lemma server_step_moved:
  assumes "server_step S (w, c) (w', c')"
  shows "data_moved S c c'"
  using assms
proof (rule server_stepE)
  fix p d m b
  assume "c' = c\<lparr>sc_data := Some (p, d\<lparr>cd_mutex := m, cd_disconnected := b\<rparr>)\<rparr>" "sc_data c = Some (p, d)"
  then show ?thesis by (simp add: data_moved_def moved_def)
qed (auto intro: read_moved drain_moved write_moved close_moved)

section \<open>The invariant\<close>

definition session_inv :: "sodium \<Rightarrow> encrypt_pair \<Rightarrow> client_data \<Rightarrow> bool" where
  "session_inv S pair d \<longleftrightarrow>
     c_state d \<le> STATE_BODY \<and> (e_remote_active (c_keys d) \<longleftrightarrow> STATE_ENCRYPT \<le> c_state d) \<and>
     e_local (c_keys d) = Some pair \<and> e_remote_pkey (c_keys d) = replicate 32 0 \<and>
     session_key S (c_keys d) = box_beforenm S (replicate 32 0) (ep_skey pair)"

lemma moved_inv:
  assumes "moved S d d'" and "session_inv S pair d"
  shows "session_inv S pair d'" and "c_state d \<le> c_state d'"
proof -
  show "c_state d \<le> c_state d'"
    using assms(1) by (auto simp: moved_def less_eq_protocol_state_def)
  obtain k where k: "keys_kept S (c_keys d) k" and
    d': "c_keys d' = k \<and> (c_state d' = c_state d \<or> c_state d = STATE_PREHANDSHAKE \<and> c_state d' = STATE_PREENCRYPT \<or>
        c_state d = STATE_ENCRYPT \<and> c_state d' = STATE_BODY) \<or>
      c_state d = STATE_PREENCRYPT \<and> c_state d' = STATE_ENCRYPT \<and> c_keys d' = k\<lparr>e_remote_active := True\<rparr>"
    using assms(1) unfolding moved_def by blast
  show "session_inv S pair d'"
    using d' assms(2) keys_keptD [OF k] by (elim disjE conjE) (simp_all add: session_inv_def)
qed

lemma connect_inv:
  assumes "sodium_ok S" and "excom_server_client_connect S sz pair c w = Inr (c', w')" and "sc_data c' = Some (p, d)"
  shows "session_inv S pair d"
  using assms
  by (auto simp: excom_server_client_connect_def ret_def fail_def session_inv_def excom_encrypt_init_def session_key_def prepped_def
      sodium_ok_def elim!: bind_InrE split: if_splits)

lemma connection_inv:
  assumes "connection S pair w c" and "sc_data c = Some (p, d)"
  shows "session_inv S pair d"
  using assms
proof (induction arbitrary: p d rule: connection.induct)
  case (start sz c w c' w')
  then show ?case by (auto intro: connect_inv)
next
  case (step w c w' c')
  then obtain p1 d1 where "sc_data c = Some (p1, d1)" "moved S d1 d"
    using server_step_moved [OF step.hyps(2)] by (auto simp: data_moved_def)
  then show ?case using step.IH moved_inv(1) by blast
qed

text \<open>The handshake does not go back.\<close>

lemma steps_forward:
  assumes "(server_step S)\<^sup>*\<^sup>* (w, c) (w', c')" and "sc_data c' = Some (p', d')" and "connection S pair w c"
  shows "\<exists>p d. sc_data c = Some (p, d) \<and> c_state d \<le> c_state d' \<and> connection S pair w' c'"
  using assms(1,2)
proof (induction arbitrary: p' d' rule: rtranclp_induct2)
  case refl
  then show ?case using assms(3) by auto
next
  case (step w1 c1 w2 c2)
  obtain p1 d1 where d1: "sc_data c1 = Some (p1, d1)" "moved S d1 d'"
    using server_step_moved [OF step.hyps(2)] step.prems by (auto simp: data_moved_def)
  then obtain p d where d: "sc_data c = Some (p, d)" "c_state d \<le> c_state d1" "connection S pair w1 c1"
    using step.IH by blast
  have "c_state d1 \<le> c_state d'" using moved_inv(2) [OF d1(2) connection_inv [OF d(3) d1(1)]] .
  then show ?case using d connection.step [OF d(3) step.hyps(2)] by (auto intro: order_trans)
qed

section \<open>Turns are steps\<close>

text \<open>A round of the worker that does not wait, and so a turn of the server, is a run of steps.\<close>

lemma drain_steps: "loop (drain_step S) c w = Inr (c', w') \<Longrightarrow> (server_step S)\<^sup>*\<^sup>* (w, c) (w', c')"
proof (induction rule: loop_induct)
  case (stop c w c' w')
  then show ?case by (blast intro: server_step.handles)
next
  case (go c w c1 w1 c' w')
  then show ?case by (blast intro: server_step.handles converse_rtranclp_into_rtranclp)
qed

lemma server_step_world: "sc_data c = Some (p, d) \<Longrightarrow> server_step S (w, c) (w', c)"
  using server_step.others [where c = c and p = p and d = d and S = S and w = w and w' = w' and m = "cd_mutex d" and b = "cd_disconnected d"] by (cases c; cases d) simp

lemma worker_steps:
  assumes "worker_step S ret c w = Inr ((go, c'), w')"
  shows "(server_step S)\<^sup>*\<^sup>* (w, c) (w', c')"
proof -
  obtain p d where c: "sc_data c = Some (p, d)"
    using assms by (auto simp: worker_step_def with_data_def fail_def bind_def split: option.splits)
  let ?c = "\<lambda>m. c\<lparr>sc_data := Some (p, d\<lparr>cd_mutex := m\<rparr>)\<rparr>"
  have d: "d\<lparr>cd_mutex := m, cd_disconnected := cd_disconnected d\<rparr> = d\<lparr>cd_mutex := m\<rparr>" for m by (cases d) simp
  have m: "server_step S (w, c) (w, ?c m)" for m
    using server_step.others [OF c, where S = S and w = w and w' = w and m = m and b = "cd_disconnected d"] unfolding d .
  have e: "worker_step S ret c = (if cd_mutex d then fail DeadLock else if cd_disconnected d then ret (False, ?c True)
      else bind (loop (drain_step S) (?c False)) (\<lambda>c. ret (True, c)))"
    by (cases "cd_mutex d"; cases "cd_disconnected d"; cases "q_packets (cd_queue d) = Null") (simp_all add: worker_step_def with_data_def c)
  have "c' = ?c True \<and> w' = w \<or> loop (drain_step S) (?c False) w = Inr (c', w')"
    using assms unfolding e by (auto simp: fail_def ret_def elim!: bind_InrE split: if_splits)
  then show ?thesis
    using m [of True] converse_rtranclp_into_rtranclp [OF m [of False] drain_steps [of S "?c False" w c' w']] by auto
qed

lemma server_turn_steps:
  assumes "server_turn S bs c w = Inr (c', w')"
  shows "(server_step S)\<^sup>*\<^sup>* (w, c) (w', c')"
proof -
  obtain c1 w1 go c2 w2 where t: "excom_server_client_read_on Fast S (event_of (sc_fd c) EVENT_READ) c (w\<lparr>ins := [Inr bs]\<rparr>) = Inr (c1, w1)"
    "worker_step S ret c1 w1 = Inr ((go, c2), w2)" "excom_server_client_write (event_of (sc_fd c2) EVENT_WRITE) c2 w2 = Inr (c', w')"
    using assms by (auto simp: server_turn_def arrive_def elim!: bind_InrE)
  obtain p1 d1 where "sc_data c1 = Some (p1, d1)"
    using t(2) by (auto simp: worker_step_def with_data_def fail_def bind_def split: option.splits)
  then obtain p d where "sc_data c = Some (p, d)" using read_moved [OF t(1)] by (auto simp: data_moved_def)
  then have "server_step S (w, c) (w\<lparr>ins := [Inr bs]\<rparr>, c)" by (rule server_step_world)
  moreover have "server_step S (w\<lparr>ins := [Inr bs]\<rparr>, c) (w1, c1)" using t(1) by (rule server_step.reads)
  moreover have "(server_step S)\<^sup>*\<^sup>* (w1, c1) (w2, c2)" using t(2) by (rule worker_steps)
  moreover have "server_step S (w2, c2) (w', c')" using t(3) by (rule server_step.writes)
  ultimately show ?thesis by (meson converse_rtranclp_into_rtranclp rtranclp.rtrancl_into_rtrancl)
qed

lemma exchanges_steps:
  assumes "exchanges S n (bs, (s, ws), x) = Inr (bs', (s', ws'), x')"
  shows "(server_step S)\<^sup>*\<^sup>* (ws, s) (ws', s')"
  using assms
proof (induction n arbitrary: bs s ws x)
  case (Suc n)
  then obtain bs1 s1 ws1 x1 where e: "exchange S (bs, (s, ws), x) = Inr (bs1, (s1, ws1), x1)"
    "exchanges S n (bs1, (s1, ws1), x1) = Inr (bs', (s', ws'), x')"
    by (cases "exchange S (bs, (s, ws), x)") (auto simp: andthen_def)
  then have "server_turn S bs s ws = Inr (s1, ws1)"
    by (auto simp: exchange_def andthen_def split: sum.splits prod.splits)
  then show ?case using server_turn_steps Suc.IH [OF e(2)] by (blast intro: rtranclp_trans)
qed simp

lemma connection_steps: "(server_step S)\<^sup>*\<^sup>* (w, c) (w', c') \<Longrightarrow> connection S pair w c \<Longrightarrow> connection S pair w' c'"
  by (induction rule: rtranclp_induct2) (auto intro: connection.step)

text \<open>The server after a handshake with the client.\<close>

lemma session_example: "\<exists>w d. session xor_sodium (pair_of 9) w d \<and> c_state d = STATE_BODY"
proof -
  have w: "sane ((trio [])\<lparr>outs := x\<rparr>)" "hwf ((trio [])\<lparr>outs := x\<rparr>)" "plenty ((trio [])\<lparr>outs := x\<rparr>)" for x
    using trio_ready(1) [of "[]"] by (simp_all add: sane_def hwf_def plenty_def trio_def)
  have c: "c_keys (cp_client program_of) = (excom_encrypt_init xor_sodium)\<lparr>e_local := Some (pair_of 7)\<rparr>"
    "\<not> cl_disconnected (cp_client program_of)" "cl_enc (cp_client program_of) = pair_of 7" "c_state (cp_client program_of) = STATE_PREHANDSHAKE"
    by (simp_all add: program_of_def client_c_def)
  have t: "takes 4 (replicate 4 (Inr 128))" "takes (3 + 0) (replicate 3 (Inr 128))" by (simp_all add: numeral_eq_Suc)
  have "wp (excom_client_connect xor_sodium logging program_of) (\<lambda>(err, c1) wc1.
      \<exists>w d. session xor_sodium (pair_of 9) w d \<and> c_state d = STATE_BODY) ((trio [])\<lparr>outs := replicate 4 (Inr 128)\<rparr>)"
  proof (rule wp_mono [OF handshake_at [where pc = "pair_of 7" and ps = "pair_of 9" and fd = 4 and sz = 400 and s = "new_client 5" and n = 0
        and ws = "(trio [])\<lparr>outs := replicate 3 (Inr 128)\<rparr>", OF _ _ _ _ _ w(2,3,1) _ w(2,3,1)]], goal_cases)
    case (17 x wc1)
    then show ?case
      by (auto simp: session_def server_at_def elim!: wpE dest!: exchanges_steps connection.start [OF xor_sodium_ok])
         (blast dest: connection_steps)
  qed (use c t in \<open>simp_all add: logging_def program_of_def pair_of_def\<close>)
  then show ?thesis by (auto elim!: wpE)
qed

text \<open>
  A connection starts a session: \<open>excom_server_client_connect\<close> leaves the client in the initial
  state of the handshake, with the server's pair of keys, nothing received and nothing to send.
\<close>

theorem server_connect_session:
  assumes "hwf w" and "plenty w" and "sane w" and "sz < 2 ^ 63" and "sodium_ok S"
  shows "wp (excom_server_client_connect S sz pair c) (\<lambda>c' w'. \<exists>p d. sc_data c' = Some (p, d) \<and> session S pair w' d \<and>
    queue_holds (cd_queue d) [] \<and> pending w' (cd_in d) = []) w"
proof -
  have l: "little w" using assms(3) by (simp add: sane_def)
  obtain c' w' p d where run: "excom_server_client_connect S sz pair c w = Inr (c', w')"
    and d: "c' = c\<lparr>sc_data := Some (p, d)\<rparr>" "fresh_client S pair w' d"
    using connect_wp [OF assms(1,2) l assms(4), of S pair c] by (auto elim!: wpE)
  have "connection S pair w' c'" using assms(5) run by (rule connection.start)
  then show ?thesis
    using run d by (auto simp: wp_def session_def fresh_client_def queue_holds_def queue_blocks_def empty_queue_def intro!: exI [of _ "[]"])
qed

theorem server_connect_session_witness:
  "wp (excom_server_client_connect xor_sodium 400 (pair_of 7) (new_client 5)) (\<lambda>c' w'.
     \<exists>p d. sc_data c' = Some (p, d) \<and> session xor_sodium (pair_of 7) w' d) (trio [])"
  by (rule wp_mono [OF server_connect_session]) (auto simp: pair_of_def)

section \<open>Properties\<close>

text \<open>
  C13. A connection of the server goes through the states of the handshake in their order and never back. In
  every state that is reached, whatever arrives and whatever the handlers are given, it is at most in the body
  state, packets are sealed exactly from the exchange of keys on, and nothing that happens afterwards decreases
  the state. In particular a \<open>reject\<close> that is received does not lead to \<open>INVALID\<close>, as the comment in \<open>protocol.h\<close>
  says it does (\<open>reject_ignored\<close>).
\<close>

theorem session_states:
  assumes "connection S pair w c" and "sc_data c = Some (p, d)"
  shows "c_state d \<le> STATE_BODY \<and> (encrypting (Some (c_keys d)) \<longleftrightarrow> STATE_ENCRYPT \<le> c_state d) \<and>
    (\<forall>w' c' p' d'. (server_step S)\<^sup>*\<^sup>* (w, c) (w', c') \<longrightarrow> sc_data c' = Some (p', d') \<longrightarrow> c_state d \<le> c_state d')"
  using connection_inv [OF assms] steps_forward [OF _ _ assms(1)] assms(2)
  by (fastforce simp: session_inv_def encrypting_def simp del: state_order)

theorem session_states_witness:
  "\<exists>w c p d. connection xor_sodium (pair_of 9) w c \<and> sc_data c = Some (p, d) \<and> c_state d = STATE_BODY \<and> encrypting (Some (c_keys d))"
proof -
  obtain w c p d where c: "connection xor_sodium (pair_of 9) w c" "sc_data c = Some (p, d)" "c_state d = STATE_BODY"
    using session_example unfolding session_def by blast
  have "STATE_ENCRYPT \<le> c_state d" using c(3) by simp
  then show ?thesis using session_states [OF c(1,2)] c by blast
qed

text \<open>
  C17. The key exchange never takes effect: whatever public key the peer has sent, in every reachable
  state the remote key of a connection is still all zeros, and the key its packets are sealed with
  is computed from the zeros and the server's own secret key alone.
\<close>

theorem session_ignores_peer_key:
  assumes "session S pair w d"
  shows "e_remote_pkey (c_keys d) = replicate 32 0 \<and>
    session_key S (c_keys d) = box_beforenm S (replicate 32 0) (ep_skey pair)"
  using assms connection_inv by (fastforce simp: session_def session_inv_def)

theorem session_ignores_peer_key_witness:
  "\<exists>w d. session xor_sodium (pair_of 9) w d \<and> c_state d = STATE_BODY \<and> e_remote_pkey (c_keys d) = replicate 32 0"
proof -
  obtain w d where "session xor_sodium (pair_of 9) w d" "c_state d = STATE_BODY" using session_example by blast
  with session_ignores_peer_key [OF this(1)] show ?thesis by blast
qed

end
