(* ===== verification/Runs.thy ===== *)
theory Runs
  imports Prelude
begin

text \<open>
  What the theories about threads share: schedules, and runs that come to an end. A thread is a function
  that gives, for a state, nothing (the thread has to wait or is done), a fault, or the next state; a
  schedule is the list of the threads that step.
\<close>

primrec schedule :: "('t \<Rightarrow> 's \<Rightarrow> (fault + 's) option) \<Rightarrow> 't list \<Rightarrow> 's \<Rightarrow> 's option" where
  "schedule f [] s = Some s"
| "schedule f (t # ts) s = (case f t s of Some (Inr s') \<Rightarrow> schedule f ts s' | _ \<Rightarrow> None)"

lemma schedule_append:
  "schedule f (ts @ us) s = (case schedule f ts s of None \<Rightarrow> None | Some s' \<Rightarrow> schedule f us s')"
  by (induction ts arbitrary: s) (auto split: option.splits sum.splits)

lemma schedule_run:
  assumes "\<And>t s s'. f t s = Some (Inr s') \<Longrightarrow> run s s'" and "schedule f ts s = Some s'"
  shows "run\<^sup>*\<^sup>* s s'"
  using assms(2)
  by (induction ts arbitrary: s)
     (auto split: option.splits sum.splits intro: assms(1) converse_rtranclp_into_rtranclp)

text \<open>
  An invariant under which every step makes progress: it holds in every state that is reached, and no run
  is infinite.
\<close>

locale progressing =
  fixes run :: "'s \<Rightarrow> 's \<Rightarrow> bool" and inv :: "'s \<Rightarrow> bool" and left :: "'s \<Rightarrow> nat"
  assumes step: "run s s' \<Longrightarrow> inv s \<Longrightarrow> inv s' \<and> left s' < left s"
begin

lemma reach: "run\<^sup>*\<^sup>* s s' \<Longrightarrow> inv s \<Longrightarrow> inv s'"
  by (induction rule: rtranclp_induct) (auto dest: step)

lemma finite_run:
  assumes "inv (f 0)"
  shows "\<exists>i. \<not> run (f i) (f (Suc i))"
proof (rule ccontr)
  assume "\<not> ?thesis"
  then have run: "run (f i) (f (Suc i))" for i by blast
  have inv: "inv (f i)" for i
    by (induction i) (use assms run step in auto)
  have less: "left (f (Suc i)) < left (f i)" for i using step [OF run inv] by blast
  have "left (f i) + i \<le> left (f 0)" for i
  proof (induction i)
    case (Suc i)
    then show ?case using less [of i] by simp
  qed simp
  from this [of "Suc (left (f 0))"] show False by linarith
qed

text \<open>If moreover a state that cannot step is final, a final state can be reached from everywhere.\<close>

lemma reaches_end:
  assumes "inv s" and "\<And>s. inv s \<Longrightarrow> \<not> final s \<Longrightarrow> \<exists>s'. run s s'"
  shows "\<exists>s'. run\<^sup>*\<^sup>* s s' \<and> final s'"
  using assms(1)
proof (induction "left s" arbitrary: s rule: less_induct)
  case less
  show ?case
  proof (cases "final s")
    case False
    then obtain s' where s': "run s s'" using assms(2) less.prems by blast
    with less.hyps [of s'] step [OF s' less.prems] show ?thesis by (meson converse_rtranclp_into_rtranclp)
  qed auto
qed

end

end
