(* ===== verification/Threads.thy ===== *)
theory Threads
  imports ServerClient Runs "HOL-Library.Sublist"
begin

text \<open>
  The two threads of a connection of the server, \<open>src/excom-server/client.c\<close>: the thread of the event
  loop links packets in \<open>check_packet\<close>, the worker unlinks them in \<open>worker\<close>. The theories before run
  each function as a whole; here every assignment to the shared list is a step of its own, the mutex
  is a variable both threads take and release, and a schedule is a path of a step relation. Memory is
  sequentially consistent. Both threads are seen on the list only: what was read into a packet, and
  what its handler does, is a parameter or is left out, and the connection is not closed.

  \<open>check_packet\<close> holds the mutex while it links. The worker releases it before it unlinks.
\<close>

section \<open>Model\<close>

text \<open>
  Where the event loop's thread is: outside \<open>check_packet\<close>, at the head of its loop, and before
  each of the accesses of the \<open>if\<close> that links a packet. \<open>packets = last = packet\<close> are two of them.
\<close>

datatype linker_pc = LOutside | LTop | LTest | LLast | LPackets | LHook | LMove | LNext

text \<open>
  Where the worker is: before it takes the mutex, before it looks whether there are packets, in
  \<open>excom_cond_wait\<close>, before \<open>packet = packets\<close> and the release of the mutex, and at the parts of
  the inner loop.
\<close>

datatype worker_pc = WLock | WLook | WWait | WLoad | WUnlock | WNext | WTest | WClear | WHandle | WReload

text \<open>
  \<open>t_todo\<close> are the packets that each coming call of \<open>check_packet\<close> will read: the block a packet gets,
  and the struct as \<open>excom_protocol_read_packet\<close> leaves it, with \<open>_next\<close> not initialised. \<open>t_new\<close> and
  \<open>t_packet\<close> are the local variables \<open>packet\<close> of the two functions.
\<close>

record threads_state =
  t_queue :: pqueue
  t_mutex :: bool
  t_linker :: linker_pc
  t_new :: nat
  t_todo :: "(nat \<times> pnode) list list"
  t_worker :: worker_pc
  t_packet :: ptr
  t_handled :: "packet list"

definition start :: "(nat \<times> pnode) list list \<Rightarrow> threads_state" where
  "start calls = \<lparr>t_queue = \<lparr>q_packets = Null, q_last = Null, q_nodes = \<lambda>_. None\<rparr>, t_mutex = False,
     t_linker = LOutside, t_new = 0, t_todo = calls, t_worker = WLock, t_packet = Null, t_handled = []\<rparr>"

definition set_next :: "ptr \<Rightarrow> ptr \<Rightarrow> pqueue \<Rightarrow> fault + pqueue" where
  "set_next p v q = andthen (set_struct p (n_next_update (\<lambda>_. v)) (q_nodes q)) (\<lambda>h. Inr (q\<lparr>q_nodes := h\<rparr>))"

text \<open>
  A step of a thread is \<open>None\<close> where the thread has to wait or has nothing to do, and otherwise a fault
  or the next state.
\<close>

definition linker_step :: "threads_state \<Rightarrow> (fault + threads_state) option" where
  "linker_step s =
     (let q = t_queue s; packet = Ptr (t_new s) 0 in
      case t_linker s of
        LOutside \<Rightarrow>
          if t_todo s = [] \<or> t_mutex s then None else Some (Inr (s\<lparr>t_mutex := True, t_linker := LTop\<rparr>))
      | LTop \<Rightarrow>
          (case t_todo s of
             [] \<Rightarrow> None
           | [] # calls \<Rightarrow> Some (Inr (s\<lparr>t_mutex := False, t_linker := LOutside, t_todo := calls\<rparr>))
           | ((i, n) # xs) # calls \<Rightarrow>
               Some (Inr (s\<lparr>t_queue := q\<lparr>q_nodes := (q_nodes q)(i \<mapsto> n)\<rparr>, t_new := i, t_todo := xs # calls, t_linker := LTest\<rparr>)))
      | LTest \<Rightarrow> Some (Inr (s\<lparr>t_linker := (if q_packets q = Null then LLast else LHook)\<rparr>))
      | LLast \<Rightarrow> Some (Inr (s\<lparr>t_queue := q\<lparr>q_last := packet\<rparr>, t_linker := LPackets\<rparr>))
      | LPackets \<Rightarrow> Some (Inr (s\<lparr>t_queue := q\<lparr>q_packets := packet\<rparr>, t_linker := LNext\<rparr>))
      | LHook \<Rightarrow> Some (andthen (set_next (q_last q) packet q) (\<lambda>q. Inr (s\<lparr>t_queue := q, t_linker := LMove\<rparr>)))
      | LMove \<Rightarrow> Some (Inr (s\<lparr>t_queue := q\<lparr>q_last := packet\<rparr>, t_linker := LNext\<rparr>))
      | LNext \<Rightarrow> Some (andthen (set_next packet Null q) (\<lambda>q. Inr (s\<lparr>t_queue := q, t_linker := LTop\<rparr>))))"

text \<open>Waiting may end at any time the mutex is free, as POSIX allows; the worker does not look again.\<close>

definition consumer_step :: "threads_state \<Rightarrow> (fault + threads_state) option" where
  "consumer_step s =
     (let q = t_queue s in
      case t_worker s of
        WLock \<Rightarrow> if t_mutex s then None else Some (Inr (s\<lparr>t_mutex := True, t_worker := WLook\<rparr>))
      | WLook \<Rightarrow>
          Some (Inr (if q_packets q = Null then s\<lparr>t_mutex := False, t_worker := WWait\<rparr> else s\<lparr>t_worker := WLoad\<rparr>))
      | WWait \<Rightarrow> if t_mutex s then None else Some (Inr (s\<lparr>t_mutex := True, t_worker := WLoad\<rparr>))
      | WLoad \<Rightarrow> Some (Inr (s\<lparr>t_packet := q_packets q, t_worker := WUnlock\<rparr>))
      | WUnlock \<Rightarrow> Some (Inr (s\<lparr>t_mutex := False, t_worker := WNext\<rparr>))
      | WNext \<Rightarrow>
          if t_packet s = Null then Some (Inr (s\<lparr>t_worker := WLock\<rparr>))
          else
            Some (andthen (struct_at (q_nodes q) (t_packet s)) (\<lambda>(_, n).
                  Inr (s\<lparr>t_queue := q\<lparr>q_packets := n_next n\<rparr>, t_worker := WTest\<rparr>)))
      | WTest \<Rightarrow> Some (Inr (s\<lparr>t_worker := (if q_packets q = Null then WClear else WHandle)\<rparr>))
      | WClear \<Rightarrow> Some (Inr (s\<lparr>t_queue := q\<lparr>q_last := Null\<rparr>, t_worker := WHandle\<rparr>))
      | WHandle \<Rightarrow>
          Some (andthen (struct_at (q_nodes q) (t_packet s)) (\<lambda>(_, n).
                Inr (s\<lparr>t_handled := t_handled s @ [n_packet n], t_worker := WReload\<rparr>)))
      | WReload \<Rightarrow> Some (Inr (s\<lparr>t_packet := q_packets q, t_worker := WNext\<rparr>)))"

text \<open>The inner loop of the worker, in which it does not hold the mutex.\<close>

definition unlinking :: "worker_pc \<Rightarrow> bool" where
  "unlinking pc \<longleftrightarrow> pc \<in> {WNext, WTest, WClear, WHandle, WReload}"

text \<open>
  A schedule. The code is \<open>step False\<close>. \<open>step True\<close> is the code with \<open>check_packet\<close> kept from starting
  while the worker unlinks, as it would be if the worker held the mutex there.
\<close>

inductive step :: "bool \<Rightarrow> threads_state \<Rightarrow> threads_state \<Rightarrow> bool" for excl where
  linker: "linker_step s = Some (Inr s') \<Longrightarrow> (excl \<Longrightarrow> t_linker s = LOutside \<Longrightarrow> \<not> unlinking (t_worker s)) \<Longrightarrow> step excl s s'"
| worker: "consumer_step s = Some (Inr s') \<Longrightarrow> step excl s s'"

inductive_cases stepE: "step excl s s'"

definition crashes :: "threads_state \<Rightarrow> bool" where
  "crashes s \<longleftrightarrow> (\<exists>e. linker_step s = Some (Inl e) \<or> consumer_step s = Some (Inl e))"

text \<open>The packets of all calls, in order.\<close>

definition received :: "(nat \<times> pnode) list list \<Rightarrow> packet list" where
  "received calls = map (\<lambda>(i, n). n_packet n) (concat calls)"

lemma received_simps [simp]:
  "received [] = []" "received ([] # calls) = received calls"
  "received (((i, n) # xs) # calls) = n_packet n # received (xs # calls)"
  by (simp_all add: received_def)

section \<open>With the worker excluded\<close>

text \<open>
  What the list is while the linker is between its steps, in terms of the queue \<open>q0\<close> that was there
  when it began: \<open>i\<close> is the block of the new packet \<open>n\<close>.
\<close>

definition linking :: "linker_pc \<Rightarrow> pqueue \<Rightarrow> nat \<Rightarrow> pnode \<Rightarrow> pqueue \<Rightarrow> bool" where
  "linking pc q0 i n q \<longleftrightarrow>
     (let new = q0\<lparr>q_nodes := (q_nodes q0)(i \<mapsto> n)\<rparr> in
      case pc of
        LTest \<Rightarrow> q = new
      | LLast \<Rightarrow> q_packets q0 = Null \<and> q = new
      | LPackets \<Rightarrow> q_packets q0 = Null \<and> q = new\<lparr>q_last := Ptr i 0\<rparr>
      | LHook \<Rightarrow> q_packets q0 \<noteq> Null \<and> q = new
      | LMove \<Rightarrow> q_packets q0 \<noteq> Null \<and> (\<exists>j m. q_last q0 = Ptr j 0 \<and> q_nodes q0 j = Some m \<and>
          q = q0\<lparr>q_nodes := (q_nodes q0)(j \<mapsto> m\<lparr>n_next := Ptr i 0\<rparr>, i \<mapsto> n)\<rparr>)
      | LNext \<Rightarrow> (\<exists>q'. link_packet q0 i (n_packet n) = Inr q' \<and> q = q'\<lparr>q_nodes := (q_nodes q')(i \<mapsto> n)\<rparr>)
      | _ \<Rightarrow> False)"

text \<open>The same for the worker, with the packets that are not handled yet.\<close>

definition taking :: "worker_pc \<Rightarrow> ptr \<Rightarrow> pqueue \<Rightarrow> packet list \<Rightarrow> bool" where
  "taking pc p q pks \<longleftrightarrow>
     (case pc of
        WUnlock \<Rightarrow> queue_holds q pks \<and> p = q_packets q
      | WNext \<Rightarrow> queue_holds q pks \<and> p = q_packets q
      | WTest \<Rightarrow> (\<exists>q0 i n. queue_holds q0 pks \<and> q_packets q0 = p \<and> p = Ptr i 0 \<and> q_nodes q0 i = Some n \<and> q = q0\<lparr>q_packets := n_next n\<rparr>)
      | WClear \<Rightarrow> (\<exists>q0 i n. queue_holds q0 pks \<and> q_packets q0 = p \<and> p = Ptr i 0 \<and> q_nodes q0 i = Some n \<and> n_next n = Null \<and>
          q = q0\<lparr>q_packets := Null\<rparr>)
      | WHandle \<Rightarrow> (\<exists>i n pks'. p = Ptr i 0 \<and> q_nodes q i = Some n \<and> pks = n_packet n # pks' \<and> queue_holds q pks')
      | _ \<Rightarrow> queue_holds q pks)"

definition pending_packets :: "threads_state \<Rightarrow> packet list \<Rightarrow> bool" where
  "pending_packets s pks \<longleftrightarrow>
     (if t_linker s \<in> {LOutside, LTop} then taking (t_worker s) (t_packet s) (t_queue s) pks
      else \<exists>q0 n pks0. queue_holds q0 pks0 \<and> q_nodes q0 (t_new s) = None \<and> pks = pks0 @ [n_packet n] \<and>
             linking (t_linker s) q0 (t_new s) n (t_queue s))"

definition threads_inv :: "(nat \<times> pnode) list list \<Rightarrow> threads_state \<Rightarrow> bool" where
  "threads_inv calls s \<longleftrightarrow>
     (t_mutex s \<longleftrightarrow> t_linker s \<noteq> LOutside \<or> t_worker s \<in> {WLook, WLoad, WUnlock}) \<and>
     (t_linker s \<noteq> LOutside \<longrightarrow> t_worker s \<in> {WLock, WWait}) \<and>
     (t_linker s \<noteq> LOutside \<longrightarrow> t_todo s \<noteq> []) \<and>
     distinct (map fst (concat (t_todo s))) \<and>
     (\<forall>i \<in> fst ` set (concat (t_todo s)). q_nodes (t_queue s) i = None) \<and>
     (\<exists>pks. pending_packets s pks \<and> received calls = t_handled s @ pks @ received (t_todo s))"

lemma queue_holds_Nil [simp]: "queue_holds \<lparr>q_packets = Null, q_last = l, q_nodes = h\<rparr> []"
  by (auto simp: queue_holds_def queue_blocks_def)

lemma threads_inv_start:
  "distinct (map fst (concat calls)) \<Longrightarrow> threads_inv calls (start calls)"
  by (simp add: threads_inv_def start_def pending_packets_def taking_def)

text \<open>The two ends of a queue that is not empty.\<close>

lemma queue_first:
  assumes "queue_holds q pks" and "q_packets q \<noteq> Null"
  obtains i n where "q_packets q = Ptr i 0" and "q_nodes q i = Some n"
proof -
  obtain pk pks' where "pks = pk # pks'" using queue_empty_iff [OF assms(1)] assms(2) by (cases pks) auto
  then show thesis using assms(1) that by (auto simp: queue_holds_def queue_blocks_def Cons_eq_map_conv)
qed

lemma queue_final:
  assumes "queue_holds q pks" and "q_packets q \<noteq> Null"
  obtains j m where "q_last q = Ptr j 0" and "q_nodes q j = Some m"
proof -
  obtain "is" where q: "queue_blocks q is" using assms(1) by (auto simp: queue_holds_def)
  have ne: "is \<noteq> []" using q assms(2) by (cases "is") (auto simp: queue_blocks_def)
  have "q_nodes q (last is) \<noteq> None" using q ne by (intro chain_alloc [of _ _ "is"]) (auto simp: queue_blocks_def)
  then show thesis using q ne that by (auto simp: queue_blocks_def)
qed

text \<open>The steps of the linker on the list, and of the worker.\<close>

lemma linking_hook:
  assumes "queue_holds q0 pks" and "linking LHook q0 i n q" and "q_nodes q0 i = None"
  shows "\<exists>q'. set_next (q_last q) (Ptr i 0) q = Inr q' \<and> linking LMove q0 i n q' \<and> (\<forall>k. q_nodes q' k = None \<longleftrightarrow> q_nodes q k = None)"
proof -
  have q: "q_packets q0 \<noteq> Null" "q = q0\<lparr>q_nodes := (q_nodes q0)(i \<mapsto> n)\<rparr>"
    using assms(2) by (simp_all add: linking_def)
  obtain j m where j: "q_last q0 = Ptr j 0" "q_nodes q0 j = Some m" using queue_final [OF assms(1) q(1)] .
  have "j \<noteq> i" using j(2) assms(3) by auto
  then show ?thesis
    using q j by (auto simp: set_next_def linking_def fun_upd_twist)
qed

lemma linking_move:
  "linking LMove q0 i n q \<Longrightarrow> q_nodes q0 i = None \<Longrightarrow> linking LNext q0 i n (q\<lparr>q_last := Ptr i 0\<rparr>)"
  by (auto simp: linking_def link_packet_def)

lemma linking_next:
  assumes "linking LNext q0 i n q" and "queue_holds q0 pks" and "q_nodes q0 i = None"
  shows "\<exists>q'. set_next (Ptr i 0) Null q = Inr q' \<and> queue_holds q' (pks @ [n_packet n]) \<and> (\<forall>k. q_nodes q' k = None \<longleftrightarrow> q_nodes q k = None)"
proof -
  obtain q1 where q1: "link_packet q0 i (n_packet n) = Inr q1" "q = q1\<lparr>q_nodes := (q_nodes q1)(i \<mapsto> n)\<rparr>"
    using assms(1) by (auto simp: linking_def)
  have i: "q_nodes q1 i = Some (n\<lparr>n_next := Null\<rparr>)"
    using q1(1) by (cases n) (auto simp: link_packet_def Let_def split: if_splits sum.splits)
  then have "q1\<lparr>q_nodes := (q_nodes q1)(i \<mapsto> n\<lparr>n_next := Null\<rparr>)\<rparr> = q1" by (simp add: fun_upd_idem)
  then show ?thesis
    using link_packet_ok [OF assms(2,3), of "n_packet n"] q1 i by (auto simp: set_next_def)
qed

lemma taking_next:
  assumes "taking WNext p q pks" and "p \<noteq> Null"
  shows "\<exists>i n. struct_at (q_nodes q) p = Inr (i, n) \<and> taking WTest p (q\<lparr>q_packets := n_next n\<rparr>) pks"
proof -
  have q: "queue_holds q pks" "p = q_packets q" using assms(1) by (simp_all add: taking_def)
  obtain i n where i: "q_packets q = Ptr i 0" "q_nodes q i = Some n" using queue_first [OF q(1)] q(2) assms(2) by auto
  show ?thesis
    using q i by (intro exI [of _ i] exI [of _ n]) (auto simp: taking_def intro!: exI [of _ q])
qed

lemma taking_handle:
  assumes q0: "queue_holds q0 pks" "q_packets q0 = Ptr i 0" "q_nodes q0 i = Some n"
    and q: "q = q0\<lparr>q_packets := n_next n, q_last := (if n_next n = Null then Null else q_last q0)\<rparr>"
  shows "taking WHandle (Ptr i 0) q pks"
proof -
  obtain pk pks' where pks: "pks = pk # pks'" using queue_empty_iff [OF q0(1)] q0(2) by (cases pks) auto
  from unlink_packet_ok [OF q0(1) [unfolded this]] show ?thesis
    using q0(2,3) q pks by (auto simp: taking_def unlink_packet_def)
qed

lemma taking_test:
  assumes "taking WTest p q pks"
  shows "taking (if q_packets q = Null then WClear else WHandle) p q pks"
proof -
  obtain q0 i n where q0: "queue_holds q0 pks" "q_packets q0 = p" "p = Ptr i 0" "q_nodes q0 i = Some n" "q = q0\<lparr>q_packets := n_next n\<rparr>"
    using assms by (auto simp: taking_def)
  show ?thesis
  proof (cases "n_next n = Null")
    case True
    then have "taking WClear p q pks"
      using q0 by (auto simp: taking_def)
    then show ?thesis using True q0(5) by simp
  next
    case False
    then have "q = q0\<lparr>q_packets := n_next n, q_last := (if n_next n = Null then Null else q_last q0)\<rparr>" using q0(5) by simp
    from taking_handle [OF q0(1) _ q0(4) this] show ?thesis using False q0 by simp
  qed
qed

lemma taking_clear:
  assumes "taking WClear p q pks"
  shows "taking WHandle p (q\<lparr>q_last := Null\<rparr>) pks"
proof -
  obtain q0 i n where q0: "queue_holds q0 pks" "q_packets q0 = p" "p = Ptr i 0" "q_nodes q0 i = Some n" "n_next n = Null" "q = q0\<lparr>q_packets := Null\<rparr>"
    using assms by (auto simp: taking_def)
  from taking_handle [OF q0(1) _ q0(4), of "q\<lparr>q_last := Null\<rparr>"] show ?thesis using q0 by simp
qed

lemma linker_inside:
  assumes "threads_inv calls s" and "t_linker s \<notin> {LOutside, LTop}"
  obtains q0 n pks0 where "queue_holds q0 pks0" and "q_nodes q0 (t_new s) = None" and
    "linking (t_linker s) q0 (t_new s) n (t_queue s)" and
    "received calls = t_handled s @ (pks0 @ [n_packet n]) @ received (t_todo s)"
  using assms by (auto simp: threads_inv_def pending_packets_def)

text \<open>A step of the linker that leaves its packet and the packets to come as they are.\<close>

lemma linker_stays:
  assumes "threads_inv calls s" and "t_linker s \<noteq> LOutside" and "pc \<notin> {LOutside, LTop}"
    and "queue_holds q0 pks0" and "q_nodes q0 (t_new s) = None" and "linking pc q0 (t_new s) n q"
    and "received calls = t_handled s @ (pks0 @ [n_packet n]) @ received (t_todo s)"
    and "\<forall>k. q_nodes q k = None \<longleftrightarrow> q_nodes (t_queue s) k = None"
  shows "threads_inv calls (s\<lparr>t_queue := q, t_linker := pc\<rparr>)"
proof -
  have "pending_packets (s\<lparr>t_queue := q, t_linker := pc\<rparr>) (pks0 @ [n_packet n])"
    using assms(3-6) by (auto simp: pending_packets_def)
  then show ?thesis using assms(1,2,3,7,8) unfolding threads_inv_def by auto
qed

lemma linker_outside:
  assumes "threads_inv calls s" and "t_linker s = LOutside" and "\<not> unlinking (t_worker s)" and "t_todo s \<noteq> []" and "\<not> t_mutex s"
  shows "threads_inv calls (s\<lparr>t_mutex := True, t_linker := LTop\<rparr>)"
proof -
  have "t_worker s \<in> {WLock, WWait}"
    using assms by (cases "t_worker s") (auto simp: threads_inv_def unlinking_def)
  then show ?thesis using assms(1,2,4) by (auto simp: threads_inv_def pending_packets_def)
qed

lemma linker_top:
  assumes "threads_inv calls s" and "t_linker s = LTop" and "t_todo s = ((i, n) # xs) # cs"
  shows "threads_inv calls (s\<lparr>t_queue := (t_queue s)\<lparr>q_nodes := (q_nodes (t_queue s))(i \<mapsto> n)\<rparr>,
           t_new := i, t_todo := xs # cs, t_linker := LTest\<rparr>)" (is "threads_inv calls ?s")
proof -
  have w: "t_worker s \<in> {WLock, WWait}" using assms(1,2) by (simp add: threads_inv_def)
  obtain pks where pks: "pending_packets s pks" "received calls = t_handled s @ pks @ received (t_todo s)"
    using assms(1) by (auto simp: threads_inv_def)
  have "queue_holds (t_queue s) pks" using pks(1) w assms(2) by (auto simp: pending_packets_def taking_def)
  moreover have "q_nodes (t_queue s) i = None" using assms(1,3) by (simp add: threads_inv_def)
  ultimately have "pending_packets ?s (pks @ [n_packet n])"
    by (auto simp: pending_packets_def linking_def)
  then show ?thesis
    using assms pks(2) unfolding threads_inv_def by (auto simp: image_iff)
qed

lemma linker_end:
  assumes "threads_inv calls s" and "t_linker s = LTop" and "t_todo s = [] # cs"
  shows "threads_inv calls (s\<lparr>t_mutex := False, t_linker := LOutside, t_todo := cs\<rparr>)"
  using assms by (auto simp: threads_inv_def pending_packets_def)

lemma linker_next:
  assumes "threads_inv calls s" and "t_linker s = LNext" and "queue_holds q (pks0 @ [n_packet n])"
    and "received calls = t_handled s @ (pks0 @ [n_packet n]) @ received (t_todo s)"
    and "\<forall>k. q_nodes q k = None \<longleftrightarrow> q_nodes (t_queue s) k = None"
  shows "threads_inv calls (s\<lparr>t_queue := q, t_linker := LTop\<rparr>)"
proof -
  have "t_worker s \<in> {WLock, WWait}" using assms(1,2) by (simp add: threads_inv_def)
  then have "pending_packets (s\<lparr>t_queue := q, t_linker := LTop\<rparr>) (pks0 @ [n_packet n])"
    using assms(3) by (auto simp: pending_packets_def taking_def)
  then show ?thesis using assms(1,2,4,5) unfolding threads_inv_def by auto
qed

lemma linker_kept:
  assumes i: "threads_inv calls s" and r: "linker_step s = Some r"
    and e: "t_linker s = LOutside \<Longrightarrow> \<not> unlinking (t_worker s)"
  shows "\<exists>s'. r = Inr s' \<and> threads_inv calls s'"
proof (cases "t_linker s \<in> {LOutside, LTop}")
  case True
  then show ?thesis
    using r e linker_outside [OF i] linker_top [OF i] linker_end [OF i]
    by (auto simp: linker_step_def Let_def split: if_splits list.splits)
next
  case False
  obtain q0 n pks0 where q0: "queue_holds q0 pks0" "q_nodes q0 (t_new s) = None"
      "linking (t_linker s) q0 (t_new s) n (t_queue s)"
      "received calls = t_handled s @ (pks0 @ [n_packet n]) @ received (t_todo s)"
    using linker_inside [OF i False] .
  note stays = linker_stays [OF i _ _ q0(1,2) _ q0(4)]
  show ?thesis
  proof (cases "t_linker s")
    case LTest
    let ?pc = "if q_packets (t_queue s) = Null then LLast else LHook"
    have "linking ?pc q0 (t_new s) n (t_queue s)" using LTest q0(3) by (auto simp: linking_def)
    from stays [OF _ _ this] have "threads_inv calls (s\<lparr>t_linker := ?pc\<rparr>)" using LTest by simp
    then show ?thesis using r LTest by (auto simp: linker_step_def)
  next
    case LLast
    then show ?thesis
      using r q0(3) stays [of LPackets "(t_queue s)\<lparr>q_last := Ptr (t_new s) 0\<rparr>"]
      by (auto simp: linker_step_def linking_def)
  next
    case LPackets
    then show ?thesis
      using r q0(3) stays [of LNext "(t_queue s)\<lparr>q_packets := Ptr (t_new s) 0\<rparr>"]
      by (auto simp: linker_step_def linking_def link_packet_def)
  next
    case LHook
    then obtain q' where "set_next (q_last (t_queue s)) (Ptr (t_new s) 0) (t_queue s) = Inr q'"
        "linking LMove q0 (t_new s) n q'" "\<forall>k. q_nodes q' k = None \<longleftrightarrow> q_nodes (t_queue s) k = None"
      using linking_hook [OF q0(1) _ q0(2)] q0(3) by metis
    then show ?thesis using r LHook stays [of LMove q'] by (auto simp: linker_step_def)
  next
    case LMove
    then show ?thesis
      using r stays [OF _ _ linking_move [OF _ q0(2)]] q0(3) by (auto simp: linker_step_def)
  next
    case LNext
    then obtain q' where "set_next (Ptr (t_new s) 0) Null (t_queue s) = Inr q'"
        "queue_holds q' (pks0 @ [n_packet n])" "\<forall>k. q_nodes q' k = None \<longleftrightarrow> q_nodes (t_queue s) k = None"
      using linking_next [OF _ q0(1,2)] q0(3) by metis
    then show ?thesis using r LNext linker_next [OF i LNext _ q0(4)] by (auto simp: linker_step_def)
  qed (use False in auto)
qed

text \<open>The worker inside its inner loop, and between taking and releasing the mutex.\<close>

lemma consumer_inside:
  assumes "threads_inv calls s" and "t_worker s \<notin> {WLock, WWait}"
  obtains pks where "t_linker s = LOutside" and "taking (t_worker s) (t_packet s) (t_queue s) pks" and
    "received calls = t_handled s @ pks @ received (t_todo s)"
proof -
  obtain pks where pks: "pending_packets s pks" "received calls = t_handled s @ pks @ received (t_todo s)"
    using assms(1) by (auto simp: threads_inv_def)
  moreover have "t_linker s = LOutside" using assms by (auto simp: threads_inv_def)
  ultimately show thesis by (intro that) (simp_all add: pending_packets_def)
qed

lemma consumer_moves:
  assumes "threads_inv calls s" and "t_linker s = LOutside"
    and "t_linker s' = t_linker s" and "t_todo s' = t_todo s" and "q_nodes (t_queue s') = q_nodes (t_queue s)"
    and "t_mutex s' \<longleftrightarrow> t_worker s' \<in> {WLook, WLoad, WUnlock}"
    and "received calls = t_handled s' @ pks @ received (t_todo s)"
    and "taking (t_worker s') (t_packet s') (t_queue s') pks"
  shows "threads_inv calls s'"
  using assms by (auto simp: threads_inv_def pending_packets_def)

lemma consumer_lock:
  assumes "threads_inv calls s" and "t_worker s \<in> {WLock, WWait}" and "\<not> t_mutex s" and "pc \<in> {WLook, WLoad}"
  shows "threads_inv calls (s\<lparr>t_mutex := True, t_worker := pc\<rparr>)"
  using assms by (auto simp: threads_inv_def pending_packets_def taking_def)

lemma consumer_kept:
  assumes i: "threads_inv calls s" and r: "consumer_step s = Some r"
  shows "\<exists>s'. r = Inr s' \<and> threads_inv calls s'"
proof (cases "t_worker s \<in> {WLock, WWait}")
  case True
  then show ?thesis
    using r consumer_lock [OF i True] by (auto simp: consumer_step_def Let_def split: if_splits)
next
  case False
  obtain pks where l: "t_linker s = LOutside" and t: "taking (t_worker s) (t_packet s) (t_queue s) pks"
      and e: "received calls = t_handled s @ pks @ received (t_todo s)"
    using consumer_inside [OF i False] .
  have m: "t_mutex s \<longleftrightarrow> t_worker s \<in> {WLook, WLoad, WUnlock}" using i l by (simp add: threads_inv_def)
  note moves = consumer_moves [OF i l, of _ pks]
  show ?thesis
  proof (cases "t_worker s")
    case WNext
    show ?thesis
    proof (cases "t_packet s = Null")
      case True
      then show ?thesis using r t m e WNext by (auto simp: consumer_step_def taking_def intro!: moves)
    next
      case False
      then obtain i n where "struct_at (q_nodes (t_queue s)) (t_packet s) = Inr (i, n)"
          "taking WTest (t_packet s) ((t_queue s)\<lparr>q_packets := n_next n\<rparr>) pks"
        using taking_next [of "t_packet s" "t_queue s" pks] t WNext by auto
      then show ?thesis using r m e False WNext by (auto simp: consumer_step_def intro!: moves)
    qed
  next
    case WTest
    then show ?thesis
      using r m e t taking_test [of "t_packet s" "t_queue s" pks]
      by (auto simp: consumer_step_def split: if_splits intro!: moves)
  next
    case WClear
    then show ?thesis
      using r t m e taking_clear [of "t_packet s" "t_queue s" pks] by (auto simp: consumer_step_def intro!: moves)
  next
    case WHandle
    then show ?thesis
      using r t m e by (auto simp: consumer_step_def taking_def intro!: consumer_moves [OF i l])
  qed (use False r t m e in \<open>auto simp: consumer_step_def taking_def Let_def intro!: moves split: if_splits\<close>)
qed

lemma threads_inv_step:
  assumes "threads_inv calls s" and "step True s s'"
  shows "threads_inv calls s'"
  using assms(2)
proof cases
  case linker
  then show ?thesis using linker_kept [OF assms(1) linker(1)] by simp
next
  case worker
  then show ?thesis using consumer_kept [OF assms(1) worker] by simp
qed

lemma threads_inv_reachable:
  "(step True)\<^sup>*\<^sup>* (start calls) s \<Longrightarrow> distinct (map fst (concat calls)) \<Longrightarrow> threads_inv calls s"
  by (induction rule: rtranclp_induct) (auto intro: threads_inv_start threads_inv_step)

text \<open>No step of an invariant state is a fault, even one that \<open>step True\<close> does not let the linker make.\<close>

lemma threads_inv_safe:
  assumes "threads_inv calls s"
  shows "\<not> crashes s"
proof
  assume "crashes s"
  then obtain e where "linker_step s = Some (Inl e) \<or> consumer_step s = Some (Inl e)" by (auto simp: crashes_def)
  then show False
  proof
    assume l: "linker_step s = Some (Inl e)"
    then have "t_linker s \<noteq> LOutside" by (auto simp: linker_step_def split: if_splits)
    then show False using linker_kept [OF assms l] by simp
  next
    assume "consumer_step s = Some (Inl e)"
    then show False using consumer_kept [OF assms] by auto
  qed
qed

lemma threads_inv_fifo:
  assumes "threads_inv calls s"
  shows "\<exists>rest. received calls = t_handled s @ rest"
  using assms by (auto simp: threads_inv_def)

lemma threads_inv_idle:
  assumes "threads_inv calls s" and "t_todo s = []" and "q_packets (t_queue s) = Null" and "t_worker s \<in> {WLock, WWait}"
  shows "t_handled s = received calls"
proof -
  obtain pks where "pending_packets s pks" "received calls = t_handled s @ pks" and l: "t_linker s = LOutside"
    using assms(1,2) by (auto simp: threads_inv_def)
  moreover from this have "queue_holds (t_queue s) pks" using assms(4) by (auto simp: pending_packets_def taking_def)
  ultimately show ?thesis using queue_empty_iff assms(3) by auto
qed

text \<open>
  Every packet can be handled. The measure of the schedule that gets there: the packets not handled,
  those to come, and how far each thread is from its next progress.
\<close>

primrec linker_left :: "linker_pc \<Rightarrow> nat" where
  "linker_left LOutside = 5" | "linker_left LTop = 0" | "linker_left LTest = 4" | "linker_left LLast = 3"
| "linker_left LPackets = 2" | "linker_left LHook = 3" | "linker_left LMove = 2" | "linker_left LNext = 1"

primrec worker_left :: "worker_pc \<Rightarrow> bool \<Rightarrow> nat" where
  "worker_left WLock e = (if e then 0 else 8)" | "worker_left WLook e = 7" | "worker_left WWait e = (if e then 0 else 8)"
| "worker_left WLoad e = 6" | "worker_left WUnlock e = 5" | "worker_left WNext e = 4" | "worker_left WTest e = 3"
| "worker_left WClear e = 2" | "worker_left WHandle e = 1" | "worker_left WReload e = 5"

definition ahead :: "(nat \<times> pnode) list list \<Rightarrow> (threads_state \<times> threads_state) set" where
  "ahead calls = measures [\<lambda>s. length (received calls) - length (t_handled s), \<lambda>s. \<Sum>xs \<leftarrow> t_todo s. Suc (length xs),
     \<lambda>s. linker_left (t_linker s), \<lambda>s. worker_left (t_worker s) (q_packets (t_queue s) = Null)]"

lemma set_next_packets: "set_next p v q = Inr q' \<Longrightarrow> q_packets q' = q_packets q"
  by (auto simp: set_next_def andthen_def split: sum.splits)

lemma linker_ahead:
  assumes "linker_step s = Some (Inr s')"
  shows "(s', s) \<in> ahead calls"
  using assms
  by (cases "t_linker s")
     (auto simp: linker_step_def ahead_def Let_def andthen_def split: if_splits list.splits sum.splits)

lemma consumer_ahead:
  assumes "threads_inv calls s" and "consumer_step s = Some (Inr s')"
    and "t_worker s \<in> {WLock, WWait} \<Longrightarrow> q_packets (t_queue s) \<noteq> Null"
  shows "(s', s) \<in> ahead calls"
proof (cases "t_worker s = WNext \<or> t_worker s = WHandle")
  case True
  then obtain pks where t: "taking (t_worker s) (t_packet s) (t_queue s) pks"
      and e: "received calls = t_handled s @ pks @ received (t_todo s)"
    using consumer_inside [OF assms(1)] by (metis insertE singletonD worker_pc.distinct)
  then show ?thesis
    using assms(2) True
    by (auto simp: consumer_step_def ahead_def taking_def Let_def andthen_def split: if_splits sum.splits)
next
  case False
  then show ?thesis
    using assms(2,3)
    by (cases "t_worker s") (auto simp: consumer_step_def ahead_def Let_def split: if_splits)
qed

lemma threads_progress:
  assumes i: "threads_inv calls s" and n: "t_handled s \<noteq> received calls"
  shows "\<exists>s'. step True s s' \<and> (s', s) \<in> ahead calls"
proof -
  have *: ?thesis if "linker_step s = Some r" "t_linker s = LOutside \<Longrightarrow> \<not> unlinking (t_worker s)" for r
    using linker_kept [OF i that] that step.linker [of s _ True] linker_ahead [of s _ calls] by blast
  have **: ?thesis if "consumer_step s = Some r" "t_worker s \<in> {WLock, WWait} \<Longrightarrow> q_packets (t_queue s) \<noteq> Null" for r
    using consumer_kept [OF i that(1)] that step.worker [of s _ True] consumer_ahead [OF i] by blast
  show ?thesis
  proof (cases "t_linker s = LOutside")
    case False
    then have "linker_step s \<noteq> None"
      using i by (auto simp: linker_step_def threads_inv_def Let_def split: linker_pc.splits list.splits)
    then show ?thesis using * False by auto
  next
    case l: True
    show ?thesis
    proof (cases "t_worker s \<in> {WLock, WWait}")
      case False
      then have "consumer_step s \<noteq> None" by (auto simp: consumer_step_def Let_def split: worker_pc.splits)
      then show ?thesis using ** False by auto
    next
      case w: True
      have m: "\<not> t_mutex s" using i l w by (auto simp: threads_inv_def)
      show ?thesis
      proof (cases "q_packets (t_queue s) = Null")
        case True
        have "t_todo s \<noteq> []" using threads_inv_idle [OF i _ True w] n by blast
        then have "linker_step s \<noteq> None" using l m by (simp add: linker_step_def)
        then show ?thesis using * w by (auto simp: unlinking_def)
      next
        case False
        have "consumer_step s \<noteq> None" using m w by (auto simp: consumer_step_def Let_def)
        then show ?thesis using ** False by auto
      qed
    qed
  qed
qed

lemma threads_finish:
  assumes "threads_inv calls s"
  shows "\<exists>s'. (step True)\<^sup>*\<^sup>* s s' \<and> t_handled s' = received calls"
proof -
  have "wf (ahead calls)" by (simp add: ahead_def)
  then show ?thesis
    using assms
  proof (induction s rule: wf_induct_rule)
    case (less s)
    show ?case
    proof (cases "t_handled s = received calls")
      case False
      then obtain s' where s': "step True s s'" "(s', s) \<in> ahead calls" using threads_progress [OF less.prems] by blast
      then show ?thesis using less.IH [OF s'(2)] threads_inv_step [OF less.prems] by (meson converse_rtranclp_into_rtranclp)
    qed auto
  qed
qed

section \<open>As the code is\<close>

text \<open>A schedule as a list of choices; \<open>True\<close> is a step of the event loop's thread.\<close>

abbreviation run_schedule :: "bool list \<Rightarrow> threads_state \<Rightarrow> threads_state option" where
  "run_schedule \<equiv> schedule (\<lambda>x. if x then linker_step else consumer_step)"

lemma run_schedule_steps: "run_schedule xs s = Some s' \<Longrightarrow> (step False)\<^sup>*\<^sup>* s s'"
  by (erule schedule_run [rotated]) (auto intro: step.intros split: if_splits)

text \<open>Nothing is left to do, and nothing will be done.\<close>

definition starved :: "threads_state \<Rightarrow> bool" where
  "starved s \<longleftrightarrow> t_linker s = LOutside \<and> t_todo s = [] \<and> q_packets (t_queue s) = Null \<and>
     t_worker s \<in> {WLock, WLook, WWait, WLoad, WUnlock, WNext} \<and> (t_worker s \<in> {WUnlock, WNext} \<longrightarrow> t_packet s = Null)"

lemma starved_step: "step False s s' \<Longrightarrow> starved s \<Longrightarrow> starved s' \<and> t_handled s' = t_handled s"
  by (erule stepE; cases "t_worker s")
     (auto simp: starved_def linker_step_def consumer_step_def Let_def split: if_splits)

lemma starved_for_ever: "(step False)\<^sup>*\<^sup>* s s' \<Longrightarrow> starved s \<Longrightarrow> starved s' \<and> t_handled s' = t_handled s"
  by (induction rule: rtranclp_induct) (auto dest: starved_step)

definition losing :: "bool list" where
  "losing = replicate 7 True @ replicate 4 False @ replicate 3 True @ [False] @ replicate 4 True @ replicate 5 False"

lemma losing_run:
  assumes "i \<noteq> j"
  shows "\<exists>s. run_schedule losing (start [[(i, n)], [(j, m)]]) = Some s \<and> starved s \<and> t_handled s = [n_packet n]"
  using assms
  by (simp add: losing_def start_def numeral_eq_Suc linker_step_def consumer_step_def set_next_def starved_def Let_def)

definition crashing :: "bool list" where
  "crashing = replicate 7 True @ replicate 6 False @ replicate 5 True @ [False] @ replicate 5 True"

lemma crashing_run:
  assumes "i \<noteq> j" and "i \<noteq> k" and "j \<noteq> k"
  shows "\<exists>s. run_schedule crashing (start [[(i, n)], [(j, m)], [(k, l)]]) = Some s \<and> linker_step s = Some (Inl NullDeref)"
  using assms
  by (simp add: crashing_def start_def numeral_eq_Suc linker_step_def consumer_step_def set_next_def Let_def)

section \<open>What holds in every interleaving\<close>

text \<open>
  Packets come in the order of \<open>L\<close>, the blocks and structs of all calls. A pointer between two places of
  \<open>L\<close>, or null.
\<close>

definition points :: "(nat \<times> pnode) list \<Rightarrow> nat \<Rightarrow> nat \<Rightarrow> ptr \<Rightarrow> bool" where
  "points L a b p \<longleftrightarrow> p = Null \<or> (\<exists>j. a \<le> j \<and> j < b \<and> p = Ptr (fst (L ! j)) 0)"

lemma points_mono: "points L a b p \<Longrightarrow> a' \<le> a \<Longrightarrow> b \<le> b' \<Longrightarrow> points L a' b' p"
  unfolding points_def by (metis le_trans less_le_trans)

lemma points_Null [simp]: "points L a b Null"
  by (simp add: points_def)

text \<open>The linker has a packet that nothing points to yet.\<close>

definition unpublished :: "linker_pc \<Rightarrow> bool" where
  "unpublished pc \<longleftrightarrow> pc \<in> {LTest, LLast, LPackets, LHook}"

text \<open>
  The first \<open>m\<close> packets are behind the worker, the first \<open>u\<close> are published. Every pointer in the list leads on
  to a later packet, and the head to one that is still ahead of the worker.
\<close>

definition nodes_ok :: "(nat \<times> pnode) list \<Rightarrow> nat \<Rightarrow> nat \<Rightarrow> (nat \<Rightarrow> pnode option) \<Rightarrow> bool" where
  "nodes_ok L u v h \<longleftrightarrow> (\<forall>k < v. \<exists>n. h (fst (L ! k)) = Some n \<and> n_packet n = n_packet (snd (L ! k)) \<and> points L (Suc k) u (n_next n))"

definition linker_at :: "(nat \<times> pnode) list \<Rightarrow> nat \<Rightarrow> threads_state \<Rightarrow> bool" where
  "linker_at L u s \<longleftrightarrow> u \<le> length L \<and>
     (if unpublished (t_linker s)
      then u < length L \<and> fst (L ! u) = t_new s \<and> drop (Suc u) L = concat (t_todo s) \<and> nodes_ok L u (Suc u) (q_nodes (t_queue s))
      else drop u L = concat (t_todo s) \<and> nodes_ok L u u (q_nodes (t_queue s))) \<and>
     (t_linker s \<in> {LMove, LNext} \<longrightarrow> (\<exists>k < u. t_new s = fst (L ! k))) \<and>
     (t_linker s \<in> {LLast, LPackets} \<longrightarrow> q_packets (t_queue s) = Null) \<and>
     points L 0 (if t_linker s = LPackets then Suc u else u) (q_last (t_queue s))"

definition worker_at :: "(nat \<times> pnode) list \<Rightarrow> nat \<Rightarrow> nat \<Rightarrow> threads_state \<Rightarrow> bool" where
  "worker_at L m u s \<longleftrightarrow> m \<le> u \<and> subseq (t_handled s) (map (n_packet \<circ> snd) (take m L)) \<and>
     points L m u (q_packets (t_queue s)) \<and>
     (t_worker s \<in> {WUnlock, WNext} \<longrightarrow> t_packet s = Null \<or> t_packet s = q_packets (t_queue s)) \<and>
     (t_worker s \<in> {WTest, WClear, WHandle} \<longrightarrow>
        (\<exists>j. m \<le> j \<and> j < u \<and> t_packet s = Ptr (fst (L ! j)) 0 \<and> points L (Suc j) u (q_packets (t_queue s))))"

definition order_inv :: "(nat \<times> pnode) list \<Rightarrow> threads_state \<Rightarrow> bool" where
  "order_inv L s \<longleftrightarrow> (\<exists>m u. linker_at L u s \<and> worker_at L m u s)"

lemma order_inv_start: "order_inv (concat calls) (start calls)"
  unfolding order_inv_def
  by (rule exI [of _ 0], rule exI [of _ 0]) (simp add: start_def linker_at_def worker_at_def unpublished_def nodes_ok_def)

text \<open>Publishing the new packet.\<close>

lemma nodes_publish: "nodes_ok L u v h \<Longrightarrow> u \<le> u' \<Longrightarrow> nodes_ok L u' v h"
  unfolding nodes_ok_def by (meson points_mono order_refl)

lemma worker_publish:
  assumes "worker_at L m u s" and "u \<le> u'" and "t_worker s' = t_worker s" and "t_packet s' = t_packet s" and "t_handled s' = t_handled s"
    and "q_packets (t_queue s') = q_packets (t_queue s) \<or> q_packets (t_queue s) = Null \<and> points L u u' (q_packets (t_queue s'))"
  shows "worker_at L m u' s'"
proof -
  have k: "m \<le> u" "subseq (t_handled s) (map (n_packet \<circ> snd) (take m L))" "points L m u (q_packets (t_queue s))"
    using assms(1) by (simp_all add: worker_at_def)
  have "points L (Suc j) u' (q_packets (t_queue s'))" if "points L (Suc j) u (q_packets (t_queue s))" "j < u" for j
    using that assms(2,6) points_mono [of L "Suc j" u] points_mono [of L u u'] by (metis Suc_leI order_refl)
  moreover have "points L m u' (q_packets (t_queue s'))"
    using k assms(2,6) points_mono [of L m u] points_mono [of L u u'] by (metis order_refl)
  ultimately show ?thesis
    using assms k(1,2) unfolding worker_at_def by (auto dest: less_le_trans)
qed

lemma nodes_update:
  assumes "nodes_ok L u v h" and "distinct (map fst L)" and "v \<le> length L" and "k < v" and "h (fst (L ! k)) = Some n" and "points L (Suc k) u p"
  shows "nodes_ok L u v (h(fst (L ! k) \<mapsto> n\<lparr>n_next := p\<rparr>))"
  unfolding nodes_ok_def
proof (intro allI impI)
  fix k' assume "k' < v"
  then show "\<exists>n'. (h(fst (L ! k) \<mapsto> n\<lparr>n_next := p\<rparr>)) (fst (L ! k')) = Some n' \<and> n_packet n' = n_packet (snd (L ! k')) \<and> points L (Suc k') u (n_next n')"
    using assms nth_eq_iff_index_eq [OF assms(2), of k' k] by (cases "k' = k") (auto simp: nodes_ok_def)
qed

lemma nodes_add:
  assumes "nodes_ok L u u h" and "distinct (map fst L)" and "u < length L" and "n_packet n = n_packet (snd (L ! u))" and "n_next n = Null"
  shows "nodes_ok L u (Suc u) (h(fst (L ! u) \<mapsto> n))"
  using assms nth_eq_iff_index_eq [OF assms(2)] by (auto simp: nodes_ok_def less_Suc_eq)

lemma linker_order:
  assumes d: "distinct (map fst L)" and nx: "\<forall>x \<in> set L. n_next (snd x) = Null"
    and i: "order_inv L s" and r: "linker_step s = Some r"
  shows "case r of Inl e \<Rightarrow> e = NullDeref \<and> t_linker s = LHook \<and> q_last (t_queue s) = Null | Inr s' \<Rightarrow> order_inv L s'"
proof -
  obtain m u where l: "linker_at L u s" and w: "worker_at L m u s" using i by (auto simp: order_inv_def)
  note keep = worker_publish [OF w order_refl]
  show ?thesis
  proof (cases "t_linker s")
    case LTop
    then have t: "drop u L = concat (t_todo s)" "nodes_ok L u u (q_nodes (t_queue s))" "u \<le> length L" "points L 0 u (q_last (t_queue s))"
      using l by (simp_all add: linker_at_def unpublished_def)
    show ?thesis
    proof (cases "\<exists>j n xs cs. t_todo s = ((j, n) # xs) # cs")
      case True
      then obtain j n xs cs where td: "t_todo s = ((j, n) # xs) # cs" by blast
      let ?s = "s\<lparr>t_queue := (t_queue s)\<lparr>q_nodes := (q_nodes (t_queue s))(j \<mapsto> n)\<rparr>, t_new := j, t_todo := xs # cs, t_linker := LTest\<rparr>"
      have dr: "drop u L = (j, n) # (xs @ concat cs)" using t(1) td by simp
      then have u: "u < length L" by (metis drop_all list.distinct(1) not_less)
      then have lu: "L ! u = (j, n)" "drop (Suc u) L = xs @ concat cs"
        using dr Cons_nth_drop_Suc [OF u] by simp_all
      have "n_next n = Null" using nx nth_mem [OF u] lu(1) by auto
      then have "nodes_ok L u (Suc u) ((q_nodes (t_queue s))(j \<mapsto> n))"
        using nodes_add [OF t(2) d u, of n] lu(1) by simp
      then have "linker_at L u ?s" using u lu t(4) by (simp add: linker_at_def unpublished_def)
      moreover have "worker_at L m u ?s" by (rule keep) simp_all
      moreover have "r = Inr ?s" using r LTop td by (simp add: linker_step_def Let_def)
      ultimately show ?thesis by (auto simp: order_inv_def)
    next
      case False
      then obtain cs where td: "t_todo s = [] # cs"
        using r LTop by (auto simp: linker_step_def Let_def split: list.splits)
      let ?s = "s\<lparr>t_mutex := False, t_linker := LOutside, t_todo := cs\<rparr>"
      have "linker_at L u ?s" using t td by (simp add: linker_at_def unpublished_def)
      moreover have "worker_at L m u ?s" by (rule keep) simp_all
      moreover have "r = Inr ?s" using r LTop td by (simp add: linker_step_def Let_def)
      ultimately show ?thesis by (auto simp: order_inv_def)
    qed
  next
    case LHook
    then have t: "u < length L" "fst (L ! u) = t_new s" "drop (Suc u) L = concat (t_todo s)" "nodes_ok L u (Suc u) (q_nodes (t_queue s))"
      "points L 0 u (q_last (t_queue s))"
      using l by (simp_all add: linker_at_def unpublished_def)
    show ?thesis
    proof (cases "q_last (t_queue s) = Null")
      case True
      then show ?thesis using r LHook by (auto simp: linker_step_def set_next_def set_struct_def struct_at_def andthen_def Let_def)
    next
      case False
      then obtain j where j: "j < u" "q_last (t_queue s) = Ptr (fst (L ! j)) 0" using t(5) by (auto simp: points_def)
      obtain n where n: "q_nodes (t_queue s) (fst (L ! j)) = Some n"
        using t(4) j(1) unfolding nodes_ok_def by (meson less_SucI)
      let ?q = "(t_queue s)\<lparr>q_nodes := (q_nodes (t_queue s))(fst (L ! j) \<mapsto> n\<lparr>n_next := Ptr (t_new s) 0\<rparr>)\<rparr>"
      let ?s = "s\<lparr>t_queue := ?q, t_linker := LMove\<rparr>"
      have p: "points L (Suc j) (Suc u) (Ptr (t_new s) 0)" using j(1) t(2) by (auto simp: points_def intro!: exI [of _ u])
      have "nodes_ok L (Suc u) (Suc u) (q_nodes ?q)"
        using nodes_update [OF nodes_publish [OF t(4)] d _ _ n p] t(1) j(1) by simp
      then have "linker_at L (Suc u) ?s"
        using t(1-3) points_mono [OF t(5), of 0 "Suc u"] by (auto simp: linker_at_def unpublished_def)
      moreover have "worker_at L m (Suc u) ?s" by (rule worker_publish [OF w]) simp_all
      moreover have "r = Inr ?s" using r LHook j(2) n by (simp add: linker_step_def set_next_def Let_def)
      ultimately show ?thesis by (auto simp: order_inv_def)
    qed
  next
    case LNext
    then have t: "drop u L = concat (t_todo s)" "nodes_ok L u u (q_nodes (t_queue s))" "u \<le> length L" "points L 0 u (q_last (t_queue s))"
      using l by (simp_all add: linker_at_def unpublished_def)
    obtain k where k: "k < u" "t_new s = fst (L ! k)" using l LNext by (auto simp: linker_at_def)
    obtain n where n: "q_nodes (t_queue s) (fst (L ! k)) = Some n" using t(2) k(1) by (auto simp: nodes_ok_def)
    let ?q = "(t_queue s)\<lparr>q_nodes := (q_nodes (t_queue s))(fst (L ! k) \<mapsto> n\<lparr>n_next := Null\<rparr>)\<rparr>"
    let ?s = "s\<lparr>t_queue := ?q, t_linker := LTop\<rparr>"
    have "nodes_ok L u u (q_nodes ?q)" using nodes_update [OF t(2) d t(3) k(1) n points_Null] by simp
    then have "linker_at L u ?s" using t by (simp add: linker_at_def unpublished_def)
    moreover have "worker_at L m u ?s" by (rule keep) simp_all
    moreover have "r = Inr ?s" using r LNext k(2) n by (simp add: linker_step_def set_next_def Let_def)
    ultimately show ?thesis by (auto simp: order_inv_def)
  next
    case LPackets
    then have t: "u < length L" "fst (L ! u) = t_new s" "drop (Suc u) L = concat (t_todo s)" "nodes_ok L u (Suc u) (q_nodes (t_queue s))"
      "points L 0 (Suc u) (q_last (t_queue s))" "q_packets (t_queue s) = Null"
      using l by (simp_all add: linker_at_def unpublished_def)
    let ?s = "s\<lparr>t_queue := (t_queue s)\<lparr>q_packets := Ptr (t_new s) 0\<rparr>, t_linker := LNext\<rparr>"
    have "linker_at L (Suc u) ?s"
      using t nodes_publish [OF t(4), of "Suc u"] by (auto simp: linker_at_def unpublished_def)
    moreover have "worker_at L m (Suc u) ?s"
      by (rule worker_publish [OF w]) (use t(2,6) in \<open>auto simp: points_def\<close>)
    moreover have "r = Inr ?s" using r LPackets by (simp add: linker_step_def)
    ultimately show ?thesis by (auto simp: order_inv_def)
  next
    case LLast
    let ?s = "s\<lparr>t_queue := (t_queue s)\<lparr>q_last := Ptr (t_new s) 0\<rparr>, t_linker := LPackets\<rparr>"
    have "linker_at L u ?s" using l LLast by (auto simp: linker_at_def unpublished_def points_def)
    moreover have "worker_at L m u ?s" by (rule keep) simp_all
    moreover have "r = Inr ?s" using r LLast by (simp add: linker_step_def)
    ultimately show ?thesis by (auto simp: order_inv_def)
  next
    case LMove
    let ?s = "s\<lparr>t_queue := (t_queue s)\<lparr>q_last := Ptr (t_new s) 0\<rparr>, t_linker := LNext\<rparr>"
    have "linker_at L u ?s" using l LMove by (auto simp: linker_at_def unpublished_def points_def)
    moreover have "worker_at L m u ?s" by (rule keep) simp_all
    moreover have "r = Inr ?s" using r LMove by (simp add: linker_step_def)
    ultimately show ?thesis by (auto simp: order_inv_def)
  next
    case LTest
    let ?s = "s\<lparr>t_linker := (if q_packets (t_queue s) = Null then LLast else LHook)\<rparr>"
    have "linker_at L u ?s" using l LTest by (auto simp: linker_at_def unpublished_def)
    moreover have "worker_at L m u ?s" by (rule keep) simp_all
    moreover have "r = Inr ?s" using r LTest by (simp add: linker_step_def)
    ultimately show ?thesis unfolding order_inv_def by (simp only: sum.case) blast
  next
    case LOutside
    let ?s = "s\<lparr>t_mutex := True, t_linker := LTop\<rparr>"
    have "linker_at L u ?s" using l LOutside by (auto simp: linker_at_def unpublished_def)
    moreover have "worker_at L m u ?s" by (rule keep) simp_all
    moreover have "r = Inr ?s" using r LOutside by (simp add: linker_step_def split: if_splits)
    ultimately show ?thesis by (auto simp: order_inv_def)
  qed
qed

text \<open>The linker does not notice what the worker does.\<close>

lemma linker_stands:
  assumes "linker_at L u s" and "t_linker s' = t_linker s" and "t_new s' = t_new s" and "t_todo s' = t_todo s"
    and "q_nodes (t_queue s') = q_nodes (t_queue s)" and "q_last (t_queue s') = q_last (t_queue s) \<or> q_last (t_queue s') = Null"
    and "q_packets (t_queue s) = Null \<Longrightarrow> q_packets (t_queue s') = Null"
  shows "linker_at L u s'"
  using assms unfolding linker_at_def by (auto split: if_splits)

lemma subseq_handled:
  assumes "subseq xs (map g (take m L))" and "m \<le> j" and "j < length L"
  shows "subseq (xs @ [g (L ! j)]) (map g (take (Suc j) L))"
proof -
  have "subseq (map g (take m L)) (map g (take j L))"
    using assms(2) by (metis min.absorb1 prefix_imp_subseq subseq_map take_is_prefix take_take)
  then have "subseq xs (map g (take j L))" using assms(1) by (rule subseq_order.order_trans [rotated])
  then show ?thesis using assms(3) by (simp add: take_Suc_conv_app_nth)
qed

lemma consumer_order:
  assumes i: "order_inv L s" and r: "consumer_step s = Some r"
  shows "\<exists>s'. r = Inr s' \<and> order_inv L s'"
proof -
  obtain m u where l: "linker_at L u s" and w: "worker_at L m u s" using i by (auto simp: order_inv_def)
  have nodes: "\<exists>n. q_nodes (t_queue s) (fst (L ! k)) = Some n \<and> n_packet n = n_packet (snd (L ! k)) \<and> points L (Suc k) u (n_next n)" if "k < u" for k
    using l that unfolding linker_at_def nodes_ok_def by (metis less_Suc_eq)
  have len: "u \<le> length L" using l by (simp add: linker_at_def)
  have fin: ?thesis if "r = Inr s'" "worker_at L m' u s'" "t_linker s' = t_linker s" "t_new s' = t_new s" "t_todo s' = t_todo s"
      "q_nodes (t_queue s') = q_nodes (t_queue s)" "q_last (t_queue s') = q_last (t_queue s) \<or> q_last (t_queue s') = Null"
      "q_packets (t_queue s) = Null \<Longrightarrow> q_packets (t_queue s') = Null" for s' m'
    using that linker_stands [OF l that(3-8)] unfolding order_inv_def by blast
  show ?thesis
  proof (cases "t_worker s")
    case WNext
    show ?thesis
    proof (cases "t_packet s = Null")
      case True
      then show ?thesis using r w WNext by (intro fin [of "s\<lparr>t_worker := WLock\<rparr>" m]) (auto simp: consumer_step_def worker_at_def)
    next
      case False
      then obtain j where j: "m \<le> j" "j < u" "t_packet s = Ptr (fst (L ! j)) 0" "q_packets (t_queue s) = t_packet s"
        using w WNext by (auto simp: worker_at_def points_def)
      obtain n where n: "q_nodes (t_queue s) (fst (L ! j)) = Some n" "points L (Suc j) u (n_next n)" using nodes [OF j(2)] by blast
      let ?s = "s\<lparr>t_queue := (t_queue s)\<lparr>q_packets := n_next n\<rparr>, t_worker := WTest\<rparr>"
      have "worker_at L m u ?s"
        using w j n(2) points_mono [OF n(2), of m u] by (auto simp: worker_at_def)
      then show ?thesis
        using r WNext False j(3,4) n(1) by (intro fin [of ?s m]) (auto simp: consumer_step_def)
    qed
  next
    case WHandle
    then obtain j where j: "m \<le> j" "j < u" "t_packet s = Ptr (fst (L ! j)) 0" "points L (Suc j) u (q_packets (t_queue s))"
      using w by (auto simp: worker_at_def)
    obtain n where n: "q_nodes (t_queue s) (fst (L ! j)) = Some n" "n_packet n = n_packet (snd (L ! j))" using nodes [OF j(2)] by blast
    let ?s = "s\<lparr>t_handled := t_handled s @ [n_packet n], t_worker := WReload\<rparr>"
    have "worker_at L (Suc j) u ?s"
      using w j n(2) len subseq_handled [of "t_handled s" "n_packet \<circ> snd" m L j] by (auto simp: worker_at_def)
    then show ?thesis
      using r WHandle j(3) n(1) by (intro fin [of ?s "Suc j"]) (auto simp: consumer_step_def)
  next
    case WTest
    then show ?thesis
      using r w by (intro fin [of "s\<lparr>t_worker := (if q_packets (t_queue s) = Null then WClear else WHandle)\<rparr>" m])
        (auto simp: consumer_step_def worker_at_def)
  next
    case WClear
    then show ?thesis
      using r w by (intro fin [of "s\<lparr>t_queue := (t_queue s)\<lparr>q_last := Null\<rparr>, t_worker := WHandle\<rparr>" m])
        (auto simp: consumer_step_def worker_at_def)
  next
    case WLock
    then show ?thesis
      using r w by (intro fin [of "s\<lparr>t_mutex := True, t_worker := WLook\<rparr>" m]) (auto simp: consumer_step_def worker_at_def split: if_splits)
  next
    case WLook
    then show ?thesis
      using r w by (intro fin [of "if q_packets (t_queue s) = Null then s\<lparr>t_mutex := False, t_worker := WWait\<rparr> else s\<lparr>t_worker := WLoad\<rparr>" m])
        (auto simp: consumer_step_def worker_at_def)
  next
    case WWait
    then show ?thesis
      using r w by (intro fin [of "s\<lparr>t_mutex := True, t_worker := WLoad\<rparr>" m]) (auto simp: consumer_step_def worker_at_def split: if_splits)
  next
    case WLoad
    then show ?thesis
      using r w by (intro fin [of "s\<lparr>t_packet := q_packets (t_queue s), t_worker := WUnlock\<rparr>" m]) (auto simp: consumer_step_def worker_at_def)
  next
    case WUnlock
    then show ?thesis
      using r w by (intro fin [of "s\<lparr>t_mutex := False, t_worker := WNext\<rparr>" m]) (auto simp: consumer_step_def worker_at_def)
  next
    case WReload
    then show ?thesis
      using r w by (intro fin [of "s\<lparr>t_packet := q_packets (t_queue s), t_worker := WNext\<rparr>" m]) (auto simp: consumer_step_def worker_at_def)
  qed
qed

lemma order_reachable:
  assumes "(step excl)\<^sup>*\<^sup>* (start calls) s" and "distinct (map fst (concat calls))" and "\<forall>x \<in> set (concat calls). n_next (snd x) = Null"
  shows "order_inv (concat calls) s"
  using assms(1)
proof (induction rule: rtranclp_induct)
  case base
  show ?case by (rule order_inv_start)
next
  case (step s s')
  from step.hyps(2) show ?case
  proof cases
    case linker
    then show ?thesis using linker_order [OF assms(2,3) step.IH linker(1)] by simp
  next
    case worker
    then show ?thesis using consumer_order [OF step.IH worker] by simp
  qed
qed

lemma order_handled:
  assumes "order_inv (concat calls) s"
  shows "subseq (t_handled s) (received calls)"
proof -
  obtain m where m: "subseq (t_handled s) (map (n_packet \<circ> snd) (take m (concat calls)))"
    using assms by (auto simp: order_inv_def worker_at_def)
  have "subseq (map (n_packet \<circ> snd) (take m (concat calls))) (map (n_packet \<circ> snd) (concat calls))"
    by (rule subseq_map) (rule prefix_imp_subseq, rule take_is_prefix)
  then have "subseq (t_handled s) (map (n_packet \<circ> snd) (concat calls))" using m by (rule subseq_order.order_trans [rotated])
  then show ?thesis by (simp add: received_def comp_def case_prod_unfold)
qed

text \<open>A packet whose \<open>_next\<close> was never written is published before it is set to null; the worker can follow it.\<close>

definition following :: "bool list" where
  "following = replicate 7 True @ replicate 8 False @ replicate 5 True @ replicate 5 False"

lemma following_run:
  assumes "i \<noteq> j" and "n_next m = Ptr k 0" and "k \<noteq> i" and "k \<noteq> j"
  shows "\<exists>s. run_schedule following (start [[(i, n)], [(j, m)]]) = Some s \<and> crashes s"
  using assms
  by (simp add: following_def start_def numeral_eq_Suc linker_step_def consumer_step_def set_next_def crashes_def struct_at_def andthen_def Let_def)

section \<open>One thread alone\<close>

text \<open>With the other thread at rest, the steps are those of the functions of theory \<open>Queue\<close>.\<close>

lemma linker_alone:
  assumes "link_packet q i (n_packet n) = Inr q'" and "q_nodes q i = None"
    and "t_linker s = LTest" and "t_new s = i" and "t_queue s = q\<lparr>q_nodes := (q_nodes q)(i \<mapsto> n)\<rparr>"
  shows "run_schedule (replicate 4 True) s = Some (s\<lparr>t_queue := q', t_linker := LTop\<rparr>)"
proof (cases "q_packets q = Null")
  case True
  then show ?thesis
    using assms by (cases n; cases q) (auto simp: numeral_eq_Suc linker_step_def set_next_def link_packet_def Let_def)
next
  case False
  then obtain j m where j: "struct_at (q_nodes q) (q_last q) = Inr (j, m)"
      "q' = q\<lparr>q_last := Ptr i 0, q_nodes := (q_nodes q)(j \<mapsto> m\<lparr>n_next := Ptr i 0\<rparr>, i \<mapsto> \<lparr>n_packet = n_packet n, n_next = Null\<rparr>)\<rparr>"
    using assms(1) by (auto simp: link_packet_def split: sum.splits)
  then have "q_last q = Ptr j 0" "q_nodes q j = Some m" "j \<noteq> i"
    using assms(2) by (auto simp: struct_at_def split: ptr.splits if_splits option.splits)
  then show ?thesis
    using assms j(2) False
    by (cases n; cases q) (auto simp: numeral_eq_Suc linker_step_def set_next_def Let_def fun_upd_twist)
qed

lemma consumer_alone:
  assumes "unlink_packet (t_queue s) = Inr (pk, q')" and "t_worker s = WNext" and "t_packet s = q_packets (t_queue s)"
  shows "\<exists>k. run_schedule (replicate k False) s = Some (s\<lparr>t_queue := q', t_handled := t_handled s @ [pk], t_worker := WReload\<rparr>)"
proof -
  obtain i n where n: "struct_at (q_nodes (t_queue s)) (q_packets (t_queue s)) = Inr (i, n)" "pk = n_packet n"
      "q' = (t_queue s)\<lparr>q_packets := n_next n, q_last := (if n_next n = Null then Null else q_last (t_queue s))\<rparr>"
    using assms(1) by (auto simp: unlink_packet_def split: sum.splits)
  have p: "q_packets (t_queue s) \<noteq> Null" using n(1) by (auto simp: struct_at_def)
  show ?thesis
    using assms(2,3) n p
    by (intro exI [of _ "if n_next n = Null then 4 else 3"]) (auto simp: numeral_eq_Suc consumer_step_def Let_def)
qed

section \<open>Properties\<close>

text \<open>
  C7. What the two threads of the code keep in every interleaving, when the packets are read into blocks of their
  own whose \<open>_next\<close> is null. The worker handles packets in the order in which they came, each at most
  once, and never goes through a bad pointer. The only fault there is is \<open>check_packet\<close>'s, which hangs a packet
  behind a null \<open>last\<close> (as it does in \<open>threads_crash\<close>); packets can be lost (\<open>threads_lose_packet\<close>), but
  not repeated or swapped.
\<close>

theorem threads_in_order:
  assumes "(step False)\<^sup>*\<^sup>* (start calls) s" and "distinct (map fst (concat calls))" and "\<forall>x \<in> set (concat calls). n_next (snd x) = Null"
  shows "subseq (t_handled s) (received calls) \<and> (\<forall>e. consumer_step s \<noteq> Some (Inl e)) \<and>
    (\<forall>e. linker_step s = Some (Inl e) \<longrightarrow> e = NullDeref \<and> t_linker s = LHook \<and> q_last (t_queue s) = Null)"
proof -
  have i: "order_inv (concat calls) s" by (rule order_reachable [OF assms])
  show ?thesis
    using order_handled [OF i] consumer_order [OF i] linker_order [OF assms(2,3) i] by fastforce
qed

theorem threads_in_order_witness:
  "\<exists>s. (step False)\<^sup>*\<^sup>* (start [[(1, \<lparr>n_packet = raw_packet, n_next = Null\<rparr>)], [(2, \<lparr>n_packet = raw_packet\<lparr>pk_id := 5\<rparr>, n_next = Null\<rparr>)]]) s \<and>
     t_handled s = [raw_packet] \<and> subseq (t_handled s) [raw_packet, raw_packet\<lparr>pk_id := 5\<rparr>] \<and> (\<forall>e. consumer_step s \<noteq> Some (Inl e))"
proof -
  let ?calls = "[[(1, \<lparr>n_packet = raw_packet, n_next = Null\<rparr>)], [(2, \<lparr>n_packet = raw_packet\<lparr>pk_id := 5\<rparr>, n_next = Null\<rparr>)]]"
  obtain s where s: "run_schedule losing (start ?calls) = Some s" "t_handled s = [raw_packet]"
    using losing_run [of 1 2 "\<lparr>n_packet = raw_packet, n_next = Null\<rparr>" "\<lparr>n_packet = raw_packet\<lparr>pk_id := 5\<rparr>, n_next = Null\<rparr>"] by auto
  from threads_in_order [OF run_schedule_steps [OF s(1)]] show ?thesis
    using run_schedule_steps [OF s(1)] s(2) by auto
qed

text \<open>
  A packet is published in \<open>packets\<close> before its \<open>_next\<close> is set (lines 212 and 213). In between the worker can
  take it, and go through the pointer that malloc's memory happens to hold.
\<close>

theorem threads_follow_junk:
  assumes "i \<noteq> j" and "n_next m = Ptr k 0" and "k \<noteq> i" and "k \<noteq> j"
  shows "\<exists>s. (step False)\<^sup>*\<^sup>* (start [[(i, n)], [(j, m)]]) s \<and> crashes s"
  using following_run [OF assms, of n] run_schedule_steps by blast

theorem threads_follow_junk_witness:
  "\<exists>s. (step False)\<^sup>*\<^sup>* (start [[(1, \<lparr>n_packet = raw_packet, n_next = Null\<rparr>)], [(2, \<lparr>n_packet = raw_packet, n_next = Ptr 9 0\<rparr>)]]) s \<and> crashes s"
  by (rule threads_follow_junk [where k = 9]) simp_all

text \<open>
  If the worker kept others from linking while it unlinks (\<open>step True\<close>), the two threads together would be a queue:
  no fault, the packets in order, each at most once, and from every state all of them can still be handled.
\<close>

theorem threads_excluded:
  assumes "(step True)\<^sup>*\<^sup>* (start calls) s" and "distinct (map fst (concat calls))"
  shows "\<not> crashes s \<and> (\<exists>rest. received calls = t_handled s @ rest) \<and>
    (\<exists>s'. (step True)\<^sup>*\<^sup>* s s' \<and> t_handled s' = received calls)"
  using threads_inv_reachable [OF assms] threads_inv_safe threads_inv_fifo threads_finish by blast

theorem threads_excluded_witness:
  "\<exists>s. (step True)\<^sup>*\<^sup>* (start [[(1, \<lparr>n_packet = raw_packet, n_next = Null\<rparr>)], [(2, \<lparr>n_packet = raw_packet\<lparr>pk_id := 5\<rparr>, n_next = Ptr 9 9\<rparr>)]]) s \<and>
     t_handled s = [raw_packet, raw_packet\<lparr>pk_id := 5\<rparr>]"
  using threads_excluded [of "[[(1, \<lparr>n_packet = raw_packet, n_next = Null\<rparr>)], [(2, \<lparr>n_packet = raw_packet\<lparr>pk_id := 5\<rparr>, n_next = Ptr 9 9\<rparr>)]]",
      OF rtranclp.rtrancl_refl] by simp

text \<open>
  C18. The code lets go of the mutex before it unlinks (line 250 of \<open>src/excom-server/client.c\<close>). Then a packet
  can be lost: the event loop's thread hangs it behind the packet that the worker takes off at the same
  time, and whatever happens then, the worker never sees it.
\<close>

theorem threads_lose_packet:
  assumes "i \<noteq> j"
  shows "\<exists>s. (step False)\<^sup>*\<^sup>* (start [[(i, n)], [(j, m)]]) s \<and>
    (\<forall>s'. (step False)\<^sup>*\<^sup>* s s' \<longrightarrow> t_todo s' = [] \<and> t_handled s' = [n_packet n])"
proof -
  obtain s where s: "run_schedule losing (start [[(i, n)], [(j, m)]]) = Some s" "starved s" "t_handled s = [n_packet n]"
    using losing_run [OF assms] by blast
  show ?thesis
    using run_schedule_steps [OF s(1)] starved_for_ever [OF _ s(2)] s(3) by (auto simp: starved_def)
qed

theorem threads_lose_packet_witness:
  "\<exists>s. (step False)\<^sup>*\<^sup>* (start [[(1, \<lparr>n_packet = raw_packet, n_next = Null\<rparr>)], [(2, \<lparr>n_packet = raw_packet\<lparr>pk_id := 5\<rparr>, n_next = Null\<rparr>)]]) s \<and>
     t_todo s = [] \<and> t_handled s = [raw_packet]"
  using threads_lose_packet [of 1 2 "\<lparr>n_packet = raw_packet, n_next = Null\<rparr>" "\<lparr>n_packet = raw_packet\<lparr>pk_id := 5\<rparr>, n_next = Null\<rparr>"]
  by auto

text \<open>
  C19. Or the process crashes: the worker sets \<open>last\<close> to null after the other thread has linked the next packet,
  and the packet after that is hung behind the null pointer.
\<close>

theorem threads_crash:
  assumes "i \<noteq> j" and "i \<noteq> k" and "j \<noteq> k"
  shows "\<exists>s. (step False)\<^sup>*\<^sup>* (start [[(i, n)], [(j, m)], [(k, l)]]) s \<and> linker_step s = Some (Inl NullDeref)"
  using crashing_run [OF assms, of n m l] run_schedule_steps by blast

theorem threads_crash_witness:
  "\<exists>s. (step False)\<^sup>*\<^sup>* (start (map (\<lambda>i. [(i, \<lparr>n_packet = raw_packet, n_next = Null\<rparr>)]) [1, 2, 3])) s \<and> crashes s"
  using threads_crash [of 1 2 3 "\<lparr>n_packet = raw_packet, n_next = Null\<rparr>" "\<lparr>n_packet = raw_packet, n_next = Null\<rparr>"
      "\<lparr>n_packet = raw_packet, n_next = Null\<rparr>"]
  by (auto simp: crashes_def)

end
