(* ===== verification/Thread.thy ===== *)
theory Thread
  imports Loop Structs
begin

text \<open>
  Threads, \<open>src/excom/thread.c\<close> and \<open>inc/excom/thread.h\<close>, in their POSIX branch. The mutexes are the
  bool of theory \<open>Prelude\<close>; here are the two operations only this file has, condition variables,
  and the threads themselves.
\<close>

section \<open>Mutexes\<close>

abbreviation (input) EBUSY :: int where "EBUSY \<equiv> 16"

definition excom_mutex_trylock :: "mutex \<Rightarrow> int \<times> mutex" where
  "excom_mutex_trylock m = (if m then (EBUSY, m) else (0, True))"

definition excom_mutex_islocked :: "mutex \<Rightarrow> (int \<times> mutex) cmd" where
  "excom_mutex_islocked m =
     (case excom_mutex_trylock m of (result, m) \<Rightarrow>
        if result = 0 then bind (mutex_unlock m) (\<lambda>m. ret (result, m)) else ret (result, m))"

section \<open>Condition variables\<close>

text \<open>
  A condition variable is the list of the threads that wait for it. \<open>excom_cond_wait\<close> has two halves:
  the thread joins the list and releases the mutex in one step, and it returns with the mutex once it
  was taken off the list and the mutex is free. Which thread a signal wakes is up to the system,
  \<open>pick\<close>; nobody is woken who was not waiting, and a signal to nobody is lost. POSIX also lets a wait
  return without any signal: \<open>cond_wakes\<close> takes a waiting thread off the list for no reason.
\<close>

type_synonym cond = "nat list"

definition excom_cond_init :: "int \<times> cond" where
  "excom_cond_init = (0, [])"

definition cond_wait_begin :: "nat \<Rightarrow> cond \<Rightarrow> mutex \<Rightarrow> cond \<times> mutex" where
  "cond_wait_begin self c m = (self # c, False)"

definition cond_wait_end :: "nat \<Rightarrow> cond \<Rightarrow> mutex \<Rightarrow> mutex option" where
  "cond_wait_end self c m = (if self \<in> set c \<or> m then None else Some True)"

definition excom_cond_signal :: "(cond \<Rightarrow> nat) \<Rightarrow> cond \<Rightarrow> int \<times> cond" where
  "excom_cond_signal pick c = (0, if c = [] then [] else remove1 (pick c) c)"

definition excom_cond_broadcast :: "cond \<Rightarrow> int \<times> cond" where
  "excom_cond_broadcast c = (0, [])"

definition cond_wakes :: "nat \<Rightarrow> cond \<Rightarrow> cond" where
  "cond_wakes self c = removeAll self c"

lemma cond_simps [simp]:
  "excom_cond_init = (0, [])" "excom_cond_broadcast c = (0, [])" "cond_wait_begin i c m = (i # c, False)"
  "cond_wait_end i c m = (if i \<in> set c \<or> m then None else Some True)"
  "excom_cond_signal pick [] = (0, [])" "excom_cond_signal pick [i] = (0, if pick [i] = i then [] else [i])"
  by (auto simp: excom_cond_init_def excom_cond_broadcast_def cond_wait_begin_def cond_wait_end_def excom_cond_signal_def)

section \<open>Threads\<close>

datatype thread_status = THREAD_INVALID | THREAD_RUNNING | THREAD_STOPPED

record thread =
  t_thread :: nat
  t_ret :: ptr
  t_status :: thread_status

text \<open>A procedure is its number, the thread struct the number of the object it is.\<close>

record thread_data =
  td_arg :: ptr
  td_proc :: nat
  td_thread :: nat

text \<open>
  \<open>ts_threads\<close> are the thread structs of the callers, \<open>ts_data\<close> the structs in malloc blocks,
  \<open>ts_local\<close> the value of the key \<open>local_data\<close> in each thread, and \<open>ts_next\<close> the identifier
  \<open>pthread_create\<close> gives next.
\<close>

record threads =
  ts_threads :: "nat \<Rightarrow> thread"
  ts_data :: "nat \<Rightarrow> thread_data option"
  ts_local :: "nat \<Rightarrow> ptr"
  ts_next :: nat

definition set_thread :: "nat \<Rightarrow> (thread \<Rightarrow> thread) \<Rightarrow> threads \<Rightarrow> threads" where
  "set_thread t f s = s\<lparr>ts_threads := (ts_threads s)(t := f (ts_threads s t))\<rparr>"

text \<open>
  \<open>excom_tls_key_init\<close>: the system has a key to give, or returns an error. A new key is null in every
  thread.
\<close>

definition excom_tls_key_init :: "int \<Rightarrow> threads \<Rightarrow> int \<times> threads" where
  "excom_tls_key_init err s = (err, if err = 0 then s\<lparr>ts_local := (\<lambda>_. Null)\<rparr> else s)"

text \<open>The library's own key, \<open>local_data\<close>.\<close>

definition excom_thread_load :: "int \<Rightarrow> threads \<Rightarrow> int \<times> threads" where
  "excom_thread_load err s = excom_tls_key_init err s"

text \<open>The thread-local value in the running thread \<open>self\<close>.\<close>

definition excom_tls_set :: "nat \<Rightarrow> ptr \<Rightarrow> threads \<Rightarrow> threads" where
  "excom_tls_set self p s = s\<lparr>ts_local := (ts_local s)(self := p)\<rparr>"

definition excom_tls_get :: "nat \<Rightarrow> threads \<Rightarrow> ptr" where
  "excom_tls_get self s = ts_local s self"

text \<open>\<open>sizeof(excom_thread_data_t)\<close> on a 64-bit host.\<close>

definition sizeof_thread_data :: size_t where
  "sizeof_thread_data = 24"

text \<open>\<open>create\<close> is what \<open>pthread_create\<close> returns. The result has the argument of the new thread.\<close>

definition excom_thread_init :: "int \<Rightarrow> nat \<Rightarrow> nat \<Rightarrow> ptr \<Rightarrow> threads \<Rightarrow> (int \<times> ptr \<times> threads) cmd" where
  "excom_thread_init create thread proc arg s =
     (let s = set_thread thread (\<lambda>t. t\<lparr>t_ret := Null, t_status := THREAD_RUNNING\<rparr>) s in
      bind (excom_malloc sizeof_thread_data) (\<lambda>data.
      case data of
        Ptr i _ \<Rightarrow>
          let s = s\<lparr>ts_data := (ts_data s)(i \<mapsto> \<lparr>td_arg = arg, td_proc = proc, td_thread = thread\<rparr>)\<rparr> in
          if create \<noteq> 0 then ret (create, data, set_thread thread (\<lambda>t. t\<lparr>t_status := THREAD_STOPPED\<rparr>) s)
          else ret (0, data, (set_thread thread (\<lambda>t. t\<lparr>t_thread := ts_next s\<rparr>) s)\<lparr>ts_next := Suc (ts_next s)\<rparr>)
      | _ \<Rightarrow> fail NullDeref))"

text \<open>
  \<open>excom_thread_exit\<close>, and the thread with it. The thread then runs nothing anymore, so the state is
  all it leaves.
\<close>

definition excom_thread_exit :: "nat \<Rightarrow> ptr \<Rightarrow> threads \<Rightarrow> threads cmd" where
  "excom_thread_exit self retval s =
     (if excom_tls_get self s = Null then ret s
      else
        bind (lift_fault (struct_at (ts_data s) (excom_tls_get self s))) (\<lambda>(_, d).
        ret (set_thread (td_thread d) (\<lambda>t. t\<lparr>t_ret := retval, t_status := THREAD_STOPPED\<rparr>) s)))"

text \<open>
  The body of a new thread. \<open>call\<close> runs the procedure: it returns a value, or None when the thread has
  exited inside it.
\<close>

definition excom_thread_wrapper ::
    "(nat \<Rightarrow> ptr \<Rightarrow> threads \<Rightarrow> (ptr option \<times> threads) cmd) \<Rightarrow> nat \<Rightarrow> ptr \<Rightarrow> threads \<Rightarrow> threads cmd" where
  "excom_thread_wrapper call self data s =
     bind (lift_fault (struct_at (ts_data s) data)) (\<lambda>(i, d).
     bind (call (td_proc d) (td_arg d) (excom_tls_set self data s)) (\<lambda>(r, s).
     case r of
       None \<Rightarrow> ret s
     | Some v \<Rightarrow>
         bind (lift_fault (struct_at (ts_data s) data)) (\<lambda>(_, d).
         let s = excom_tls_set self Null (set_thread (td_thread d) (\<lambda>t. t\<lparr>t_ret := v\<rparr>) s) in
         bind (excom_free data) (\<lambda>_.
         ret (s\<lparr>ts_data := (ts_data s)(i := None)\<rparr>)))))"

text \<open>\<open>join\<close> is what \<open>pthread_join\<close> returns, once the thread has ended.\<close>

definition excom_thread_join :: "int \<Rightarrow> nat \<Rightarrow> threads \<Rightarrow> int \<times> ptr" where
  "excom_thread_join join thread s = (join, t_ret (ts_threads s thread))"

text \<open>A pointer to \<open>excom_thread_data_t\<close>, cast to \<open>excom_thread_t*\<close>.\<close>

definition excom_thread_current :: "nat \<Rightarrow> threads \<Rightarrow> ptr" where
  "excom_thread_current self s = excom_tls_get self s"

section \<open>Properties\<close>

lemma islocked: "excom_mutex_islocked m = ret (if m then EBUSY else 0, m)"
  by (simp add: excom_mutex_islocked_def excom_mutex_trylock_def)

lemma thread_init_wp:
  assumes "plenty w" and "hwf w"
    and "\<And>w'. blocks w (fresh w) = None \<Longrightarrow> blocks w' (fresh w) \<noteq> None \<Longrightarrow> \<forall>j. j \<noteq> fresh w \<longrightarrow> blocks w' j = blocks w j \<Longrightarrow>
      Q (0, Ptr (fresh w) 0, s\<lparr>ts_data := (ts_data s)(fresh w \<mapsto> \<lparr>td_arg = arg, td_proc = proc, td_thread = t\<rparr>),
        ts_threads := (ts_threads s)(t := \<lparr>t_thread = ts_next s, t_ret = Null, t_status = THREAD_RUNNING\<rparr>), ts_next := Suc (ts_next s)\<rparr>) w'"
  shows "wp (excom_thread_init 0 t proc arg s) Q w"
proof -
  have nf: "\<not> malloc_fails sizeof_thread_data w"
    by (rule malloc_succeeds [OF assms(1)]) (simp add: sizeof_thread_data_def)
  have eq: "(ts_threads s t)\<lparr>t_ret := Null, t_status := THREAD_RUNNING, t_thread := ts_next s\<rparr> =
      \<lparr>t_thread = ts_next s, t_ret = Null, t_status = THREAD_RUNNING\<rparr>" by simp
  show ?thesis
    unfolding excom_thread_init_def Let_def wp_bind
  proof (rule malloc_wp, goal_cases)
    case (1 w')
    with nf show ?case by simp
  next
    case (2 w1 bs)
    have "blocks w (fresh w) = None" using assms(2) by (simp add: hwf_def)
    then show ?case using assms(3) [of w1] 2(4) by (simp add: set_thread_def eq)
  qed
qed

text \<open>
  C31. A thread hands on its result: when the procedure of a thread returns \<open>v\<close>, joining the thread
  gives \<open>v\<close> and the struct that was allocated for it is freed; but the status of the thread still says
  that it is running.
\<close>

theorem thread_result:
  assumes "plenty w" and "hwf w" and "\<forall>s w. call proc arg s w = Inr ((Some v, s), w)"
  shows "wp (bind (excom_thread_init 0 t proc arg s) (\<lambda>(err, data, s). excom_thread_wrapper call self data s)) (\<lambda>s' w'.
    snd (excom_thread_join 0 t s') = v \<and> t_status (ts_threads s' t) = THREAD_RUNNING \<and> blocks w' = blocks w) w"
  unfolding wp_bind
proof (rule thread_init_wp [OF assms(1,2)], goal_cases)
  case (1 w1)
  show ?case
    using 1
    by (simp add: excom_thread_wrapper_def lift_run set_thread_def excom_tls_set_def wp_run [OF assms(3) [rule_format]] Let_def)
       (rule free_wp [OF refl 1(2)], auto simp: excom_thread_join_def fun_eq_iff)
qed

theorem thread_result_witness:
  "wp (bind (excom_thread_init 0 1 2 Null \<lparr>ts_threads = (\<lambda>_. \<lparr>t_thread = 0, t_ret = Null, t_status = THREAD_INVALID\<rparr>),
       ts_data = (\<lambda>_. None), ts_local = (\<lambda>_. Null), ts_next = 7\<rparr>)
     (\<lambda>(err, data, s). excom_thread_wrapper (\<lambda>_ _ s. ret (Some (Ptr 5 0), s)) 7 data s)) (\<lambda>s' w'.
     snd (excom_thread_join 0 1 s') = Ptr 5 0 \<and> t_status (ts_threads s' 1) = THREAD_RUNNING \<and> blocks w' = blocks idle_world) idle_world"
  by (rule thread_result) (simp_all add: plenty_def hwf_def ret_def)

text \<open>
  A thread that ends by \<open>excom_thread_exit\<close> is marked as stopped and hands on its result, but the
  struct that was allocated for it is never freed.
\<close>

theorem thread_exit_leaks:
  assumes "plenty w" and "hwf w" and "\<forall>s. call proc arg s = bind (excom_thread_exit self v s) (\<lambda>s. ret (None, s))"
  shows "wp (bind (excom_thread_init 0 t proc arg s) (\<lambda>(err, data, s). excom_thread_wrapper call self data s)) (\<lambda>s' w'.
    snd (excom_thread_join 0 t s') = v \<and> t_status (ts_threads s' t) = THREAD_STOPPED \<and>
    (\<exists>i. blocks w i = None \<and> blocks w' i \<noteq> None)) w"
  unfolding wp_bind
proof (rule thread_init_wp [OF assms(1,2)], goal_cases)
  case (1 w1)
  then show ?case
    by (simp add: excom_thread_wrapper_def lift_run assms(3) excom_thread_exit_def excom_tls_get_def excom_tls_set_def
        set_thread_def excom_thread_join_def)
       blast
qed

theorem thread_exit_leaks_witness:
  "wp (bind (excom_thread_init 0 1 2 Null \<lparr>ts_threads = (\<lambda>_. \<lparr>t_thread = 0, t_ret = Null, t_status = THREAD_INVALID\<rparr>),
       ts_data = (\<lambda>_. None), ts_local = (\<lambda>_. Null), ts_next = 7\<rparr>)
     (\<lambda>(err, data, s). excom_thread_wrapper (\<lambda>_ _ s. bind (excom_thread_exit 7 (Ptr 5 0) s) (\<lambda>s. ret (None, s))) 7 data s)) (\<lambda>s' w'.
     t_status (ts_threads s' 1) = THREAD_STOPPED \<and> (\<exists>i. blocks w' i \<noteq> None)) idle_world"
  by (rule wp_mono [OF thread_exit_leaks [where v = "Ptr 5 0" and self = 7]]) (auto simp: plenty_def hwf_def)

end
