(* ===== verification/Closing.thy ===== *)
theory Closing
  imports ServerClient Thread Runs
begin

text \<open>
  Closing a connection of the server, \<open>excom_server_client_close\<close> in \<open>src/excom-server/client.c\<close>, while
  its worker runs. As in theory \<open>Threads\<close> the two threads take steps in any order; here the condition
  variable is the one of theory \<open>Thread\<close>, the packets that are linked are fixed (the thread of the
  event loop, which would link more, is the one that closes), and the worker looks at \<open>disconnected\<close>.
  In \<open>close_run\<close> nobody is woken without a signal; in \<open>close_any True\<close> the wait may also end for no reason, as
  POSIX allows.

  \<open>close\<close> sets \<open>disconnected\<close>, wakes the worker and joins it. The worker looks for packets, but not at
  \<open>disconnected\<close>, before it waits.
\<close>

section \<open>Model\<close>

text \<open>
  Where \<open>close\<close> is: before it takes the mutex, in the loop that frees the packets, before
  \<open>disconnected = true\<close>, before the broadcast, before it releases the mutex, at the join, before it
  frees \<open>client_data\<close>, and after that.
\<close>

datatype closer_pc = KLock | KFree | KSet | KBroadcast | KUnlock | KJoin | KRelease | KDone

text \<open>Where the worker is, up to \<open>excom_thread_exit\<close>.\<close>

datatype waiter_pc = CLock | CLook | CWait | CLoad | CTest | CUnlock | CNext | CEmpty | CClear | CHandle | CReload | CExited

record closing =
  z_queue :: pqueue
  z_mutex :: mutex
  z_cond :: cond
  z_disconnected :: bool
  z_released :: bool
  z_closer :: closer_pc
  z_freeing :: ptr
  z_worker :: waiter_pc
  z_packet :: ptr
  z_handled :: "packet list"

definition worker_id :: nat where
  "worker_id = 1"

definition closer_step :: "closing \<Rightarrow> (fault + closing) option" where
  "closer_step s =
     (let q = z_queue s in
      case z_closer s of
        KLock \<Rightarrow>
          if z_mutex s then None
          else Some (Inr (s\<lparr>z_mutex := True, z_freeing := q_packets q, z_closer := KFree\<rparr>))
      | KFree \<Rightarrow>
          if z_freeing s = Null then Some (Inr (s\<lparr>z_closer := KSet\<rparr>))
          else
            Some (andthen (struct_at (q_nodes q) (z_freeing s)) (\<lambda>(i, n).
                  Inr (s\<lparr>z_queue := q\<lparr>q_nodes := (q_nodes q)(i := None)\<rparr>, z_freeing := n_next n\<rparr>)))
      | KSet \<Rightarrow> Some (Inr (s\<lparr>z_disconnected := True, z_closer := KBroadcast\<rparr>))
      | KBroadcast \<Rightarrow> Some (Inr (s\<lparr>z_cond := snd (excom_cond_broadcast (z_cond s)), z_closer := KUnlock\<rparr>))
      | KUnlock \<Rightarrow> Some (Inr (s\<lparr>z_mutex := False, z_closer := KJoin\<rparr>))
      | KJoin \<Rightarrow> if z_worker s = CExited then Some (Inr (s\<lparr>z_closer := KRelease\<rparr>)) else None
      | KRelease \<Rightarrow> Some (Inr (s\<lparr>z_released := True, z_closer := KDone\<rparr>))
      | KDone \<Rightarrow> None)"

text \<open>The worker, which reads \<open>client_data\<close> at every step.\<close>

definition waiter_step :: "closing \<Rightarrow> (fault + closing) option" where
  "waiter_step s =
     (if z_worker s = CExited then None
      else if z_released s then Some (Inl UseAfterFree)
      else
        let q = z_queue s in
        case z_worker s of
          CLock \<Rightarrow> if z_mutex s then None else Some (Inr (s\<lparr>z_mutex := True, z_worker := CLook\<rparr>))
        | CLook \<Rightarrow>
            Some (Inr (if q_packets q = Null then
                         let (c, m) = cond_wait_begin worker_id (z_cond s) (z_mutex s) in
                         s\<lparr>z_cond := c, z_mutex := m, z_worker := CWait\<rparr>
                       else s\<lparr>z_worker := CLoad\<rparr>))
        | CWait \<Rightarrow>
            (case cond_wait_end worker_id (z_cond s) (z_mutex s) of
               None \<Rightarrow> None
             | Some m \<Rightarrow> Some (Inr (s\<lparr>z_mutex := m, z_worker := CLoad\<rparr>)))
        | CLoad \<Rightarrow> Some (Inr (s\<lparr>z_packet := q_packets q, z_worker := CTest\<rparr>))
        | CTest \<Rightarrow> Some (Inr (s\<lparr>z_worker := (if z_disconnected s then CExited else CUnlock)\<rparr>))
        | CUnlock \<Rightarrow> Some (Inr (s\<lparr>z_mutex := False, z_worker := CNext\<rparr>))
        | CNext \<Rightarrow>
            if z_packet s = Null then Some (Inr (s\<lparr>z_worker := CLock\<rparr>))
            else
              Some (andthen (struct_at (q_nodes q) (z_packet s)) (\<lambda>(_, n).
                    Inr (s\<lparr>z_queue := q\<lparr>q_packets := n_next n\<rparr>, z_worker := CEmpty\<rparr>)))
        | CEmpty \<Rightarrow> Some (Inr (s\<lparr>z_worker := (if q_packets q = Null then CClear else CHandle)\<rparr>))
        | CClear \<Rightarrow> Some (Inr (s\<lparr>z_queue := q\<lparr>q_last := Null\<rparr>, z_worker := CHandle\<rparr>))
        | CHandle \<Rightarrow>
            Some (andthen (struct_at (q_nodes q) (z_packet s)) (\<lambda>(_, n).
                  Inr (s\<lparr>z_handled := z_handled s @ [n_packet n], z_worker := CReload\<rparr>)))
        | CReload \<Rightarrow> Some (Inr (s\<lparr>z_packet := q_packets q, z_worker := CNext\<rparr>))
        | CExited \<Rightarrow> None)"

inductive close_run :: "closing \<Rightarrow> closing \<Rightarrow> bool" where
  closer: "closer_step s = Some (Inr s') \<Longrightarrow> close_run s s'"
| worker: "waiter_step s = Some (Inr s') \<Longrightarrow> close_run s s'"

inductive_cases close_runE: "close_run s s'"

inductive close_any :: "bool \<Rightarrow> closing \<Rightarrow> closing \<Rightarrow> bool" for spurious where
  code: "close_run s s' \<Longrightarrow> close_any spurious s s'"
| wakes: "spurious \<Longrightarrow> z_worker s = CWait \<Longrightarrow> close_any spurious s (s\<lparr>z_cond := cond_wakes worker_id (z_cond s)\<rparr>)"

inductive_cases close_anyE: "close_any spurious s s'"

lemma close_any_code: "close_run\<^sup>*\<^sup>* s s' \<Longrightarrow> (close_any spurious)\<^sup>*\<^sup>* s s'"
  by (rule rtranclp_mono [THEN predicate2D]) (auto intro: close_any.code)

lemma close_any_False: "(close_any False)\<^sup>*\<^sup>* s s' \<Longrightarrow> close_run\<^sup>*\<^sup>* s s'"
  by (rule rtranclp_mono [THEN predicate2D]) (auto elim: close_anyE)

definition close_crashes :: "closing \<Rightarrow> bool" where
  "close_crashes s \<longleftrightarrow> (\<exists>e. closer_step s = Some (Inl e) \<or> waiter_step s = Some (Inl e))"

text \<open>Neither thread can take a step.\<close>

definition close_stuck :: "closing \<Rightarrow> bool" where
  "close_stuck s \<longleftrightarrow> closer_step s = None \<and> waiter_step s = None"

text \<open>\<open>close\<close> starts while the worker is at \<open>pc\<close> and the packets of \<open>q\<close> are linked.\<close>

definition close_start :: "waiter_pc \<Rightarrow> pqueue \<Rightarrow> closing" where
  "close_start pc q = \<lparr>z_queue = q, z_mutex = False, z_cond = (if pc = CWait then [worker_id] else []), z_disconnected = False,
     z_released = False, z_closer = KLock, z_freeing = Null, z_worker = pc, z_packet = Null, z_handled = []\<rparr>"

lemma close_stuck_no_step: "close_stuck s \<Longrightarrow> \<not> close_run s s'"
  by (auto simp: close_stuck_def elim: close_runE)

text \<open>A schedule as a list of choices; \<open>True\<close> is a step of \<open>close\<close>.\<close>

abbreviation close_schedule :: "bool list \<Rightarrow> closing \<Rightarrow> closing option" where
  "close_schedule \<equiv> schedule (\<lambda>x. if x then closer_step else waiter_step)"

lemma close_schedule_run: "close_schedule xs s = Some s' \<Longrightarrow> close_run\<^sup>*\<^sup>* s s'"
  by (erule schedule_run [rotated]) (auto intro: close_run.intros split: if_splits)

section \<open>With the worker waiting\<close>

definition close_inv :: "closing \<Rightarrow> bool" where
  "close_inv s \<longleftrightarrow> q_packets (z_queue s) = Null \<and> z_freeing s = Null \<and> (z_released s \<longleftrightarrow> z_closer s = KDone) \<and>
     (z_closer s \<in> {KLock, KFree, KSet, KBroadcast} \<longrightarrow>
        z_worker s = CWait \<and> z_cond s = [worker_id] \<and> (z_mutex s \<longleftrightarrow> z_closer s \<noteq> KLock)) \<and>
     (z_closer s \<in> {KUnlock, KJoin} \<longrightarrow> z_cond s = []) \<and>
     (z_closer s \<in> {KBroadcast, KUnlock, KJoin} \<longrightarrow> z_disconnected s) \<and>
     (z_closer s = KUnlock \<longrightarrow> z_worker s = CWait \<and> z_mutex s) \<and>
     (z_closer s = KJoin \<longrightarrow> z_worker s \<in> {CWait, CLoad, CTest, CExited} \<and> (z_mutex s \<longleftrightarrow> z_worker s \<noteq> CWait)) \<and>
     (z_closer s \<in> {KRelease, KDone} \<longrightarrow> z_worker s = CExited)"

lemma close_inv_start: "q_packets q = Null \<Longrightarrow> close_inv (close_start CWait q)"
  by (simp add: close_inv_def close_start_def)

primrec closer_left :: "closer_pc \<Rightarrow> nat" where
  "closer_left KLock = 7" | "closer_left KFree = 6" | "closer_left KSet = 5" | "closer_left KBroadcast = 4"
| "closer_left KUnlock = 3" | "closer_left KJoin = 2" | "closer_left KRelease = 1" | "closer_left KDone = 0"

definition waiter_left :: "waiter_pc \<Rightarrow> nat" where
  "waiter_left pc = (case pc of CWait \<Rightarrow> 3 | CLoad \<Rightarrow> 2 | CTest \<Rightarrow> 1 | _ \<Rightarrow> 0)"

definition close_left :: "closing \<Rightarrow> nat" where
  "close_left s = closer_left (z_closer s) + waiter_left (z_worker s)"

lemma close_inv_closer:
  assumes "close_inv s" and "closer_step s = Some r"
  shows "\<exists>s'. r = Inr s' \<and> close_inv s' \<and> close_left s' < close_left s"
  using assms
  by (cases "z_closer s") (auto simp: closer_step_def close_inv_def close_left_def Let_def split: if_splits)

lemma close_inv_waiter:
  assumes "close_inv s" and "waiter_step s = Some r"
  shows "\<exists>s'. r = Inr s' \<and> close_inv s' \<and> close_left s' < close_left s"
proof -
  have "z_worker s \<in> {CWait, CLoad, CTest}" and "\<not> z_released s"
    using assms by (cases "z_closer s"; auto simp: close_inv_def waiter_step_def split: if_splits)+
  then show ?thesis
    using assms
    by (cases "z_closer s")
       (auto simp: waiter_step_def close_inv_def close_left_def waiter_left_def Let_def split: if_splits option.splits)
qed

lemma close_inv_run:
  "close_run s s' \<Longrightarrow> close_inv s \<Longrightarrow> close_inv s' \<and> close_left s' < close_left s"
  by (erule close_runE) (use close_inv_closer close_inv_waiter in fastforce)+

interpretation close: progressing close_run close_inv close_left
  by unfold_locales (rule close_inv_run)

lemma close_inv_progress:
  assumes "close_inv s" and "z_closer s \<noteq> KDone"
  shows "\<not> close_stuck s"
  using assms
  by (cases "z_closer s") (auto simp: close_inv_def close_stuck_def closer_step_def waiter_step_def Let_def)

lemma close_inv_safe: "close_inv s \<Longrightarrow> \<not> close_crashes s"
  using close_inv_closer close_inv_waiter by (fastforce simp: close_crashes_def)

section \<open>With wakeups for no reason, and with a worker that does not wait yet\<close>

text \<open>The wakeup is lost: \<open>close\<close> has broadcast and joins the worker, which waits to be woken.\<close>

definition lost_wakeup :: "closing \<Rightarrow> bool" where
  "lost_wakeup s \<longleftrightarrow> z_closer s = KJoin \<and> z_disconnected s \<and> z_worker s = CWait \<and> worker_id \<in> set (z_cond s)"

definition close_held :: "closing \<Rightarrow> bool" where
  "close_held s \<longleftrightarrow> q_packets (z_queue s) = Null \<and> z_freeing s = Null \<and> (z_released s \<longleftrightarrow> z_closer s = KDone) \<and>
     (z_worker s = CExited \<longrightarrow> z_closer s \<in> {KJoin, KRelease, KDone}) \<and> (z_closer s \<in> {KRelease, KDone} \<longrightarrow> z_worker s = CExited) \<and>
     (z_disconnected s \<longleftrightarrow> z_closer s \<in> {KBroadcast, KUnlock, KJoin, KRelease, KDone}) \<and>
     z_worker s \<in> {CLock, CLook, CWait, CLoad, CTest, CUnlock, CNext, CExited} \<and>
     (z_worker s \<in> {CTest, CUnlock, CNext} \<longrightarrow> z_packet s = Null) \<and>
     (z_closer s \<in> {KFree, KSet, KBroadcast, KUnlock} \<longrightarrow> z_mutex s \<and> z_worker s \<in> {CLock, CWait, CNext}) \<and>
     (z_worker s \<in> {CLook, CLoad, CTest, CUnlock} \<longrightarrow> z_mutex s) \<and>
     (z_mutex s \<longrightarrow> z_closer s \<in> {KFree, KSet, KBroadcast, KUnlock} \<or> z_worker s \<in> {CLook, CLoad, CTest, CUnlock, CExited})"

lemma close_held_start: "q_packets q = Null \<Longrightarrow> pc = CWait \<or> pc = CLock \<Longrightarrow> close_held (close_start pc q)"
  by (auto simp: close_held_def close_start_def)

lemma close_held_closer:
  assumes "close_held s" and "closer_step s = Some r"
  shows "\<exists>s'. r = Inr s' \<and> close_held s'"
  using assms
  by (cases "z_closer s"; cases "z_worker s") (auto simp: closer_step_def close_held_def Let_def split: if_splits)

lemma close_held_waiter:
  assumes "close_held s" and "waiter_step s = Some r"
  shows "\<exists>s'. r = Inr s' \<and> close_held s'"
proof -
  have "\<not> z_released s" using assms by (auto simp: close_held_def waiter_step_def split: if_splits)
  then show ?thesis
    using assms
    by (cases "z_worker s"; cases "z_closer s") (auto simp: waiter_step_def close_held_def Let_def split: if_splits option.splits)
qed

lemma close_held_any:
  assumes "(close_any spurious)\<^sup>*\<^sup>* s s'" and "close_held s"
  shows "close_held s'"
  using assms
proof (induction rule: rtranclp_induct)
  case (step s1 s2)
  have h: "close_held s1" by (rule step.IH [OF step.prems])
  from step.hyps(2) show ?case
  proof cases
    case code
    then show ?thesis
    proof cases
      case closer
      then show ?thesis using close_held_closer [OF h closer] by simp
    next
      case worker
      then show ?thesis using close_held_waiter [OF h worker] by simp
    qed
  next
    case wakes
    then show ?thesis using h by (simp add: close_held_def)
  qed
qed simp

lemma close_held_safe: "close_held s \<Longrightarrow> \<not> close_crashes s"
  using close_held_closer close_held_waiter by (fastforce simp: close_crashes_def)

lemma close_held_stuck:
  assumes h: "close_held s" and st: "closer_step s = None" "waiter_step s = None"
  shows "z_closer s = KDone \<and> z_worker s = CExited \<or> lost_wakeup s"
proof -
  have k: "z_closer s \<in> {KLock, KJoin, KDone}" using st(1) by (cases "z_closer s") (auto simp: closer_step_def Let_def split: if_splits)
  have r: "\<not> z_released s" if "z_worker s \<noteq> CExited" using h that by (auto simp: close_held_def)
  have w: "z_worker s = CExited \<or> z_worker s = CLock \<and> z_mutex s \<or> z_worker s = CWait \<and> (z_mutex s \<or> worker_id \<in> set (z_cond s))"
    using st(2) r by (cases "z_worker s") (auto simp: waiter_step_def Let_def split: if_splits)
  have "z_mutex s \<longrightarrow> z_worker s \<notin> {CLock, CWait}" using h k by (cases "z_worker s") (auto simp: close_held_def)
  then have w: "z_worker s = CExited \<or> z_worker s = CWait \<and> worker_id \<in> set (z_cond s) \<and> \<not> z_mutex s" using w by auto
  show ?thesis
    using k
  proof (elim insertE)
    assume l: "z_closer s = KLock"
    then have "z_worker s \<noteq> CExited" using h by (simp add: close_held_def)
    then show ?thesis using l w st(1) by (simp add: closer_step_def)
  next
    assume j: "z_closer s = KJoin"
    then have "z_worker s \<noteq> CExited" using st(1) by (simp add: closer_step_def split: if_splits)
    moreover have "z_disconnected s" using h j by (simp add: close_held_def)
    ultimately show ?thesis using w j by (simp add: lost_wakeup_def)
  next
    assume "z_closer s = KDone"
    then show ?thesis using h by (simp add: close_held_def)
  qed simp
qed

section \<open>Properties\<close>

text \<open>
  C8. Closing a connection whose worker waits, or is about to, with no packets linked. In every interleaving,
  wakeups for no reason included, no step is a fault, and there are only two states in which neither thread
  can go on: the end, with \<open>client_data\<close> freed and the worker gone, and the lost wakeup, in which \<open>close\<close>
  joins a worker that waits for a broadcast that is over. The second takes a wakeup for no reason, or a
  worker that has not come to wait when \<open>close\<close> begins; without either every schedule is finite, and so ends
  well.
\<close>

theorem close_waiting_worker:
  assumes "(close_any spurious)\<^sup>*\<^sup>* (close_start pc q) s" and "pc = CWait \<or> pc = CLock" and "q_packets q = Null"
  shows "\<not> close_crashes s \<and>
    (close_stuck s \<longrightarrow> z_closer s = KDone \<and> z_worker s = CExited \<or> (spurious \<or> pc = CLock) \<and> lost_wakeup s) \<and>
    (\<not> spurious \<and> pc = CWait \<longrightarrow> (\<forall>f. f 0 = s \<longrightarrow> (\<exists>i. \<not> close_run (f i) (f (Suc i)))))"
proof -
  have h: "close_held s" by (rule close_held_any [OF assms(1) close_held_start [OF assms(3,2)]])
  have i: "close_inv s" if "\<not> spurious" "pc = CWait"
    using close.reach [OF close_any_False] assms(1,3) that close_inv_start by simp
  have "z_closer s = KDone \<and> z_worker s = CExited" if "\<not> spurious" "pc = CWait" "close_stuck s"
  proof -
    have "z_closer s = KDone" using close_inv_progress [OF i [OF that(1,2)]] that(3) by blast
    then show ?thesis using i [OF that(1,2)] by (simp add: close_inv_def)
  qed
  moreover have "\<exists>j. \<not> close_run (f j) (f (Suc j))" if "\<not> spurious" "pc = CWait" "f 0 = s" for f
    using close.finite_run [of f] i that by simp
  ultimately show ?thesis
    using close_held_safe [OF h] close_held_stuck [OF h] assms(2) by (fastforce simp: close_stuck_def)
qed

theorem close_waiting_worker_witness:
  "\<exists>s. (close_any False)\<^sup>*\<^sup>* (close_start CWait \<lparr>q_packets = Null, q_last = Null, q_nodes = \<lambda>_. None\<rparr>) s \<and>
     z_closer s = KDone \<and> \<not> close_crashes s"
proof -
  let ?q = "\<lparr>q_packets = Null, q_last = Null, q_nodes = \<lambda>_. None\<rparr>"
  obtain s where s: "close_schedule (replicate 5 True @ replicate 3 False @ replicate 2 True) (close_start CWait ?q) = Some s" "z_closer s = KDone"
    by (simp add: numeral_eq_Suc closer_step_def waiter_step_def close_start_def)
  have r: "(close_any False)\<^sup>*\<^sup>* (close_start CWait ?q) s" by (rule close_any_code [OF close_schedule_run [OF s(1)]])
  from close_waiting_worker [OF r] show ?thesis using s(2) r by auto
qed

text \<open>
  A worker that is woken for no reason just before \<open>close\<close> finds no packets, goes back to the mutex, and misses the
  broadcast: \<open>excom_cond_wait\<close> is not in a loop, and nothing is looked at before it.
\<close>

theorem close_spurious_deadlocks:
  assumes "q_packets q = Null"
  shows "\<exists>s. (close_any True)\<^sup>*\<^sup>* (close_start CWait q) s \<and> close_stuck s \<and> lost_wakeup s"
proof -
  let ?s = "(close_start CWait q)\<lparr>z_cond := cond_wakes worker_id [worker_id]\<rparr>"
  have w: "close_any True (close_start CWait q) ?s"
    using close_any.wakes [of True "close_start CWait q"] by (simp add: close_start_def)
  obtain s where s: "close_schedule (replicate 5 False @ replicate 5 True @ replicate 2 False) ?s = Some s" "close_stuck s \<and> lost_wakeup s"
    using assms by (simp add: numeral_eq_Suc closer_step_def waiter_step_def close_start_def close_stuck_def lost_wakeup_def cond_wakes_def)
  from close_any_code [OF close_schedule_run [OF s(1)]] w s(2) show ?thesis by (meson converse_rtranclp_into_rtranclp)
qed

theorem close_spurious_deadlocks_witness:
  "\<exists>s. (close_any True)\<^sup>*\<^sup>* (close_start CWait \<lparr>q_packets = Null, q_last = Null, q_nodes = \<lambda>_. None\<rparr>) s \<and> close_stuck s \<and> lost_wakeup s"
  by (rule close_spurious_deadlocks) simp

text \<open>
  C20. A worker that is on its way to wait, even without any packets, blocks the server for ever: \<open>close\<close> sets
  \<open>disconnected\<close> and wakes nobody, then the worker finds no packets and waits, and the thread of the
  event loop waits for the worker.
\<close>

theorem close_deadlocks:
  assumes "q_packets q = Null"
  shows "\<exists>s. close_run\<^sup>*\<^sup>* (close_start CLock q) s \<and> close_stuck s \<and> z_closer s = KJoin \<and> z_worker s = CWait \<and> z_disconnected s"
proof -
  obtain s where s: "close_schedule (replicate 5 True @ replicate 2 False) (close_start CLock q) = Some s"
      "close_stuck s \<and> z_closer s = KJoin \<and> z_worker s = CWait \<and> z_disconnected s"
    using assms by (simp add: numeral_eq_Suc closer_step_def waiter_step_def close_start_def close_stuck_def)
  from close_schedule_run [OF s(1)] s(2) show ?thesis by blast
qed

theorem close_deadlocks_witness:
  "\<exists>s. close_run\<^sup>*\<^sup>* (close_start CLock \<lparr>q_packets = Null, q_last = Null, q_nodes = \<lambda>_. None\<rparr>) s \<and> close_stuck s \<and> z_worker s = CWait"
  using close_deadlocks [of "\<lparr>q_packets = Null, q_last = Null, q_nodes = \<lambda>_. None\<rparr>"] by auto

text \<open>
  C22. And while the worker handles packets, \<open>close\<close> frees those behind: the worker, which does not hold the
  mutex, goes on to the next one and reads the freed packet.
\<close>

theorem close_frees_under_worker:
  assumes "q_packets q = Ptr i 0" and "q_nodes q i = Some n" and "n_next n = Ptr j 0" and "q_nodes q j = Some m"
    and "n_next m = Null" and "i \<noteq> j"
  shows "\<exists>s. close_run\<^sup>*\<^sup>* (close_start CLock q) s \<and> z_handled s = [n_packet n] \<and> waiter_step s = Some (Inl UseAfterFree)"
proof -
  obtain s where s: "close_schedule (replicate 8 False @ replicate 2 True @ [False]) (close_start CLock q) = Some s"
      "z_handled s = [n_packet n] \<and> waiter_step s = Some (Inl UseAfterFree)"
    using assms by (simp add: numeral_eq_Suc closer_step_def waiter_step_def close_start_def struct_at_def)
  from close_schedule_run [OF s(1)] s(2) show ?thesis by blast
qed

theorem close_frees_under_worker_witness:
  "\<exists>s. close_run\<^sup>*\<^sup>* (close_start CLock \<lparr>q_packets = Ptr 1 0, q_last = Ptr 2 0,
      q_nodes = [1 \<mapsto> \<lparr>n_packet = raw_packet, n_next = Ptr 2 0\<rparr>, 2 \<mapsto> \<lparr>n_packet = raw_packet, n_next = Null\<rparr>]\<rparr>) s \<and> close_crashes s"
  (is "\<exists>s. close_run\<^sup>*\<^sup>* (close_start CLock ?q) s \<and> _")
  using close_frees_under_worker [of ?q 1 "\<lparr>n_packet = raw_packet, n_next = Ptr 2 0\<rparr>" 2 "\<lparr>n_packet = raw_packet, n_next = Null\<rparr>"]
  by (auto simp: close_crashes_def simp del: One_nat_def)

end
