(* ===== verification/FirstCommand.thy ===== *)
theory FirstCommand
  imports ConnectProps
begin

text \<open>
  What becomes of the first command after the handshake. Both sides compute their session key from an
  all-zero public key. In the group of X25519 zero is the point whose multiples are all the same, so that
  the two keys are equal (the hypothesis \<open>same\<close> below) and the command opens. But the reader of the server
  leaves the last 32 bytes of it in the input.
\<close>

section \<open>A command that opens\<close>

lemma framed_opens:
  assumes "sodium_ok S" and "enc_ok S e" and "e_remote_active e" and "session_key S e' = session_key S e" and "enc_fields vs \<noteq> []"
  obtains nonce c where "framed S e w i (ty, vs) = enc_header (of_nat (length (nonce @ c))) i ty @ nonce @ c" and "length nonce = 24"
    and "length c = 32 + length (enc_fields vs)"
    and "box_open_afternm S c nonce (e_nm_kkey (prepped S e')) = Some (replicate 32 0 @ enc_fields vs)"
proof -
  let ?body = "enc_fields vs"
  let ?n = "randomness 24 (drawn (body_draws ?body) w)"
  let ?c = "sealed S e ?n ?body"
  note sealed = sealed [OF assms(1,2) length_randomness [of 24 "drawn (body_draws ?body) w"], of ?body]
  have "framed S e w i (ty, vs) = enc_header (of_nat (length (?n @ ?c))) i ty @ ?n @ ?c"
    using assms(3,5) by (simp add: framed_def payload_def encrypting_def sealed_body_def Let_def)
  moreover have "box_open_afternm S ?c ?n (e_nm_kkey (prepped S e')) = Some (replicate 32 0 @ ?body)"
    using sealed(3) assms(4) by (simp add: session_key_def)
  ultimately show ?thesis using sealed(2) by (intro that [of ?n ?c]) simp_all
qed

text \<open>The reader on a frame whose body opens: the packet is the one that was sealed, and the last 32 bytes stay.\<close>

lemma read_sealed_ready:
  assumes ok: "buf_ok w b" "hwf w" "plenty w" "little w" and E: "e_remote_active e" "sodium_ok S" "enc_ok S e"
    and pend: "pending w b = enc_header (of_nat (length (nonce @ c))) i ty @ (nonce @ c) @ later" "length nonce = 24"
    and got: "box_open_afternm S c nonce (e_nm_kkey (prepped S e)) = Some (replicate 32 0 @ enc_fields vs)"
      "length c = 32 + length (enc_fields vs)"
    and ty: "packet_fields ty = Some fs" "fields_ok fs vs" and fit: "length (nonce @ c) < 2 ^ 31"
  shows "wp (excom_protocol_read_packet S raw_packet b (Some e))
    (reads_frame w b (prepped S e) (i, ty, vs) (drop (32 + length (enc_fields vs)) (pending w b))) w"
proof -
  have en: "encrypting (Some e)" "enc_ok S (the (Some e))" using E by (simp_all add: encrypting_def)
  have g: "enc_fields vs = (case box_open_afternm S c nonce (e_nm_kkey (prepped S (the (Some e)))) of
      None \<Rightarrow> map (junk w (fresh w)) [0..<32] | Some m \<Rightarrow> drop 32 m)" using got(1) by simp
  have own: "owned (pk_data (fst (snd x)))" if "excom_protocol_read_packet S raw_packet b (Some e) w = Inr (x, w')" for x w'
    using that by (cases x) (auto dest!: read_packet_owned simp: raw_packet_def)
  let ?m = "32 + length (enc_fields vs)"
  let ?in = "b\<lparr>b_pos := b_pos b + of_nat ?m\<rparr>"
  have "?m \<le> length (pending w b)" using pend got(2) by simp
  note adv = advance [OF ok(1) this]
  have b': "buf_ok w' ?in" "pending w' ?in = drop ?m (pending w b)" if "mframe {} w w'" for w'
    using buf_frame [OF adv(2) ok(2) that] adv(4) by simp_all
  show ?thesis
    by (rule wp_mono [OF wp_also [OF read_packet_sealed [OF ok en(1) E(2) en(2) pend(1) refl pend(2) g ty append_Nil2 [symmetric] fit] own]], assumption)
       (use b' in \<open>auto simp: fetched_def arrived_def reads_frame_def intro: owned_below\<close>)
qed

text \<open>
  The read callback when the bytes of such a frame arrive, with \<open>later\<close> behind them: the packet is queued,
  and what is pending begins with the 32 bytes.
\<close>

lemma server_reads_sealed:
  assumes s: "server_at S pair n w s p d" and k: "e_remote_active (c_keys d)"
    and bs: "bs = enc_header (of_nat (length (nonce @ c))) i ty @ nonce @ c" "length nonce = 24"
    and got: "box_open_afternm S c nonce (e_nm_kkey (prepped S (c_keys d))) = Some (replicate 32 0 @ enc_fields vs)"
      "length c = 32 + length (enc_fields vs)"
    and ty: "packet_fields ty = Some fs" "fields_ok fs vs" and fit: "length bs + length later < 2 ^ 31"
    and rest: "incomplete (drop (length bs - 32) bs @ later)"
  shows "wp (excom_server_client_read_on Fast S ev s) (\<lambda>s' w'. \<exists>d' raw. sc_data s' = Some (p, d') \<and> c_state d' = c_state d \<and>
    queue_holds (cd_queue d') [raw] \<and> arrived w' raw (i, ty, vs) \<and> pending w' (cd_in d') = drop (length bs - 32) bs @ later)
    (w\<lparr>ins := [Inr (bs @ later)]\<rparr>)"
proof -
  have sd: "side S pair n w (cd_in d) d" "\<not> cd_mutex d" using s by (simp_all add: server_at_def)
  have room: "unat (b_used (cd_in d)) + length (bs @ later) < 2 ^ 32" using sd(1) fit by (simp add: side_def)
  have some: "bs @ later \<noteq> []" unfolding bs(1) by (auto dest: arg_cong [where f = length])
  have ln: "length (nonce @ c) < 2 ^ 31" using fit bs(1) by simp
  show ?thesis
  proof (rule server_reads_wp [OF s some room], goal_cases)
    case (1 w1 b)
    note heard = side_heard [OF sd(1) 1] and rc = server_heard [OF s 1]
    let ?d = "d\<lparr>cd_in := b\<rparr>" and ?m = "d\<lparr>cd_in := b, cd_mutex := True\<rparr>" and ?rest = "drop (length bs - 32) bs @ later"
    have ok: "sodium_ok S" "enc_ok S (c_keys d)" using heard(1) by (simp_all add: conn_ok_def)
    have pend: "pending w1 b = enc_header (of_nat (length (nonce @ c))) i ty @ (nonce @ c) @ later"
      using heard(4) bs(1) by simp
    have r: "drop (32 + length (enc_fields vs)) (pending w1 b) = ?rest"
      using pend bs got(2) by simp
    have "wp (check_step S ?m) (\<lambda>(go, d') w'. go \<and> took_frame w1 (?m\<lparr>c_keys := prepped S (c_keys d)\<rparr>) [] (i, ty, vs) ?rest w' d') w1"
    proof (rule check_step_reads [OF rc(1), where body = "nonce @ c" and i = i and ty = ty and tail = later])
      fix w2 b2
      assume 2: "buf_ok w2 b2" "pending w2 b2 = pending w1 (cd_in ?m)" "hwf w2" "plenty w2" "little w2"
      have p2: "pending w2 b2 = enc_header (of_nat (length (nonce @ c))) i ty @ (nonce @ c) @ later" using 2(2) pend by simp
      show "wp (excom_protocol_read_packet S raw_packet b2 (Some (c_keys ?m))) (reads_frame w2 b2 (prepped S (c_keys d)) (i, ty, vs) ?rest) w2"
        using read_sealed_ready [OF 2(1,3-5) k ok p2 bs(2) got ty ln] 2(2) r by simp
    qed (use rc pend in simp_all)
    then have "wp (check_packet_on Fast S ?d) (\<lambda>d' w'. took_frame w1 (?d\<lparr>c_keys := prepped S (c_keys d)\<rparr>) [] (i, ty, vs) ?rest w' d') w1"
      using check_packet_takes [of S ?d w1 "prepped S (c_keys d)" "[]" "(i, ty, vs)" ?rest] sd(2) rest by simp
    then show ?case by (rule wp_mono) (auto simp: took_frame_def)
  qed
qed

section \<open>Property\<close>

text \<open>
  C4. The first command of a session arrives, but the connection is out of step behind it. A client and a
  server whose session keys are the same complete the handshake, and the client sends its command. When its
  bytes reach the server, with any bytes \<open>later\<close> behind them, the read callback queues the command, as the
  client wrote it. The last 32 bytes of its ciphertext stay in front of \<open>later\<close>: as long as what the code takes
  for the next size says that bytes are missing, nothing of \<open>later\<close> becomes a packet.
\<close>

theorem first_command_leaves_tail:
  assumes net: "k_socket K (ep_kernel c) = (Inr fd, k1)" "k_gethost K (cp_addr c) k1 = (Some addr, k2)"
      "k_connect K fd addr (cp_port c) k2 = (Inr (), k3)" "k_getfl K fd k3 = (Inr fl, k4)" "k_setfl K fd (or fl O_NONBLOCK) k4 = (Inr (), k5)"
    and wc: "hwf wc" "plenty wc" "sane wc" "takes 4 (outs wc)" and ws: "hwf ws" "plenty ws" "sane ws" "takes 3 (outs ws)"
    and keys: "sodium_ok S" "length (ep_pkey pc) = 32" "length (ep_pkey ps) = 32" "c_keys (cp_client c) = (excom_encrypt_init S)\<lparr>e_local := Some pc\<rparr>"
    and cl: "cl_enc (cp_client c) = pc" "\<not> cl_disconnected (cp_client c)" "c_state (cp_client c) = STATE_PREHANDSHAKE"
    and sz: "sz < 2 ^ 63"
    and same: "box_beforenm S (replicate 32 0) (ep_skey pc) = box_beforenm S (replicate 32 0) (ep_skey ps)"
  shows "wp (excom_client_connect S K c) (\<lambda>(err, c1) wc1.
    wp (excom_server_client_connect S sz ps s) (\<lambda>s1 ws1.
      \<exists>bs s' ws' c' wc'. exchanges S 3 (heard fd wc wc1, (s1, ws1), (cp_client c1, wc1)) = Inr (bs, (s', ws'), (c', wc')) \<and>
        length bs = 79 \<and> (\<exists>e w. e_remote_active e \<and> session_key S e = box_beforenm S (replicate 32 0) (ep_skey ps) \<and>
          bs = framed S e w 1 (packet_command, [WStr hello_world])) \<and>
        (\<forall>later. incomplete (drop 47 bs @ later) \<longrightarrow> length later < 2 ^ 30 \<longrightarrow>
          wp (excom_server_client_read_on Fast S (event_of (sc_fd s') EVENT_READ) s') (\<lambda>s4 ws4. \<exists>p d4 raw.
            sc_data s4 = Some (p, d4) \<and> c_state d4 = STATE_BODY \<and> queue_holds (cd_queue d4) [raw] \<and>
            arrived ws4 raw (1, packet_command, [WStr hello_world]) \<and> pending ws4 (cd_in d4) = drop 47 bs @ later)
            (ws'\<lparr>ins := [Inr (bs @ later)]\<rparr>))) ws) wc"
proof -
  have t: "takes (3 + 0) (outs ws)" using ws(4) by simp
  have len: "length (enc_fields [WStr hello_world]) = 15" by (simp add: enc_fields_def hello_world_def)
  then have ne: "enc_fields [WStr hello_world] \<noteq> []" by auto
  have E: "length bs = 79 \<and> (\<forall>later. incomplete (drop 47 bs @ later) \<longrightarrow> length later < 2 ^ 30 \<longrightarrow>
        wp (excom_server_client_read_on Fast S (event_of (sc_fd s') EVENT_READ) s') (\<lambda>s4 ws4. \<exists>p d4 raw.
          sc_data s4 = Some (p, d4) \<and> c_state d4 = STATE_BODY \<and> queue_holds (cd_queue d4) [raw] \<and>
          arrived ws4 raw (1, packet_command, [WStr hello_world]) \<and> pending ws4 (cd_in d4) = drop 47 bs @ later)
          (ws'\<lparr>ins := [Inr (bs @ later)]\<rparr>))"
    if h: "server_at S ps 0 ws' s' p d'" "e_remote_active (c_keys d')" "c_state d' = STATE_BODY"
      "e_remote_active e" "enc_ok S e" "session_key S e = box_beforenm S (replicate 32 0) (ep_skey pc)"
      "bs = framed S e v 1 (packet_command, [WStr hello_world])"
    for bs e v s' ws' p d'
  proof -
    have d: "session_key S (c_keys d') = session_key S e"
      using h(1,6) same by (simp add: server_at_def side_def)
    obtain nonce b where b: "framed S e v 1 (packet_command, [WStr hello_world]) = enc_header (of_nat (length (nonce @ b))) 1 packet_command @ nonce @ b"
      "length nonce = 24" "length b = 32 + length (enc_fields [WStr hello_world])"
      "box_open_afternm S b nonce (e_nm_kkey (prepped S (c_keys d'))) = Some (replicate 32 0 @ enc_fields [WStr hello_world])"
      by (rule framed_opens [OF keys(1) h(5,4) d ne])
    have bs: "bs = enc_header (of_nat (length (nonce @ b))) 1 packet_command @ nonce @ b" using b(1) h(7) by simp
    have l: "length bs = 79" using bs b(2,3) len by simp
    have ty: "packet_fields packet_command = Some [FString ''command'']" "fields_ok [FString ''command''] [WStr hello_world]"
      by (simp_all add: fields_ok_def hello_world_def)
    show ?thesis
    proof (intro conjI allI impI)
      fix later :: "byte list"
      assume m: "incomplete (drop 47 bs @ later)" "length later < 2 ^ 30"
      have r: "incomplete (drop (length bs - 32) bs @ later)" and fit: "length bs + length later < 2 ^ 31"
        using m l by simp_all
      show "wp (excom_server_client_read_on Fast S (event_of (sc_fd s') EVENT_READ) s') (\<lambda>s4 ws4. \<exists>p d4 raw.
          sc_data s4 = Some (p, d4) \<and> c_state d4 = STATE_BODY \<and> queue_holds (cd_queue d4) [raw] \<and>
          arrived ws4 raw (1, packet_command, [WStr hello_world]) \<and> pending ws4 (cd_in d4) = drop 47 bs @ later)
          (ws'\<lparr>ins := [Inr (bs @ later)]\<rparr>)"
        by (rule wp_mono [OF server_reads_sealed [OF h(1,2) bs b(2,4,3) ty fit r]]) (use h(3) l in auto)
    qed (rule l)
  qed
  show ?thesis
    by (rule wp_mono [OF handshake_at [OF net wc ws(1-3) t keys cl sz]], simp, clarsimp, erule wp_mono)
       (use E same in fastforce)
qed

text \<open>
  A toy of the library in which, as in the group of X25519, zero is nobody's public key and its multiples do
  not depend on the secret.
\<close>

definition toy_public :: "byte list \<Rightarrow> byte list" where
  "toy_public s = 1 # tl (pad32 s)"

definition point_sodium :: sodium where
  "point_sodium = xor_sodium\<lparr>box_public := toy_public,
     box_beforenm := (\<lambda>p s. if p = replicate 32 0 then replicate 32 200 else map2 (+) (pad32 p) (toy_public s))\<rparr>"

lemma point_sodium_ok: "sodium_ok point_sodium"
proof -
  have z: "hd (toy_public s) = 1" "length (toy_public s) = 32" for s by (simp_all add: toy_public_def)
  have nz: "toy_public s \<noteq> replicate 32 0" for s using z(1) [of s] by auto
  have comm: "map2 (+) a b = map2 (+) b a" for a b :: "byte list"
    by (rule nth_equalityI) (simp_all add: add.commute)
  have "box_beforenm point_sodium (box_public point_sodium a) b = box_beforenm point_sodium (box_public point_sodium b) a" for a b
    using nz z(2) comm [of "toy_public a" "toy_public b"] by (simp add: point_sodium_def)
  moreover have "length (box_public point_sodium s) = 32" "length (box_beforenm point_sodium p s) = 32" for p s
    using z(2) by (simp_all add: point_sodium_def)
  moreover have "box_NONCEBYTES point_sodium = box_NONCEBYTES xor_sodium" "box_ZEROBYTES point_sodium = box_ZEROBYTES xor_sodium"
    "box_PUBLICKEYBYTES point_sodium = box_PUBLICKEYBYTES xor_sodium" "box_SECRETKEYBYTES point_sodium = box_SECRETKEYBYTES xor_sodium"
    "box_BEFORENMBYTES point_sodium = box_BEFORENMBYTES xor_sodium" "secretbox_KEYBYTES point_sodium = secretbox_KEYBYTES xor_sodium"
    "box_afternm point_sodium = box_afternm xor_sodium" "box_open_afternm point_sodium = box_open_afternm xor_sodium"
    by (simp_all add: point_sodium_def)
  ultimately show ?thesis using xor_sodium_ok unfolding sodium_ok_def by simp
qed

text \<open>The 32 bytes that stay: the first four of them do not look like a small size.\<close>

lemma point_tail:
  assumes "e_remote_active e" and "session_key point_sodium e = replicate 32 200"
  shows "incomplete (drop 47 (framed point_sodium e w 1 (packet_command, [WStr hello_world])))"
proof -
  let ?body = "enc_fields [WStr hello_world]"
  let ?c = "xor_bytes (replicate 32 200) (replicate 32 0 @ ?body)"
  have len: "length ?body = 15" by (simp add: enc_fields_def hello_world_def)
  have "replicate 4 x = [x, x, x, x]" for x :: byte by (simp add: numeral_eq_Suc)
  moreover have "be32 3368601800 = [200, 200, 200, 200]" by (simp add: be32_def byte_of_def)
  ultimately have four: "be32 3368601800 = replicate 4 200" by simp
  have "sealed point_sodium e n ?body = ?c" for n
    using assms(2) by (simp add: sealed_def session_key_def point_sodium_def xor_sodium_def)
  then have "drop 47 (framed point_sodium e w 1 (packet_command, [WStr hello_world])) = drop 15 ?c"
    using assms(1) len by (auto simp: framed_def payload_def encrypting_def sealed_body_def Let_def)
  also have "\<dots> = replicate 17 200 @ drop 32 ?c"
    by (simp add: xor_bytes_def pad32_def)
  also have "replicate 17 200 = be32 3368601800 @ replicate 13 (200 :: byte)"
    using four by (simp flip: replicate_add)
  finally have t: "drop 47 (framed point_sodium e w 1 (packet_command, [WStr hello_world])) = be32 3368601800 @ replicate 13 200 @ drop 32 ?c" by simp
  show ?thesis
    unfolding t incomplete_def using len by (intro impI exI [of _ 3368601800] exI [of _ "replicate 13 200 @ drop 32 ?c"]) simp
qed

theorem first_command_leaves_tail_witness:
  "wp (excom_client_connect point_sodium logging (program_of\<lparr>cp_client := (cp_client program_of)\<lparr>c_keys := (excom_encrypt_init point_sodium)\<lparr>e_local := Some (pair_of 7)\<rparr>\<rparr>\<rparr>)) (\<lambda>(err, c1) wc1.
    wp (excom_server_client_connect point_sodium 400 (pair_of 9) (new_client 5)) (\<lambda>s1 ws1.
      \<exists>bs s' ws' c' wc'. exchanges point_sodium 3 (heard 4 ((trio [])\<lparr>outs := replicate 4 (Inr 128)\<rparr>) wc1, (s1, ws1), (cp_client c1, wc1)) =
          Inr (bs, (s', ws'), (c', wc')) \<and>
        wp (excom_server_client_read_on Fast point_sodium (event_of (sc_fd s') EVENT_READ) s')
          (\<lambda>s4 ws4. \<exists>p d4. sc_data s4 = Some (p, d4) \<and> length (pending ws4 (cd_in d4)) = 32) (ws'\<lparr>ins := [Inr bs]\<rparr>))
      ((trio [])\<lparr>outs := replicate 3 (Inr 128)\<rparr>))
   ((trio [])\<lparr>outs := replicate 4 (Inr 128)\<rparr>)"
proof -
  let ?c = "program_of\<lparr>cp_client := (cp_client program_of)\<lparr>c_keys := (excom_encrypt_init point_sodium)\<lparr>e_local := Some (pair_of 7)\<rparr>\<rparr>\<rparr>"
  have w: "sane ((trio [])\<lparr>outs := x\<rparr>)" "hwf ((trio [])\<lparr>outs := x\<rparr>)" "plenty ((trio [])\<lparr>outs := x\<rparr>)" for x
    using trio_ready(1) [of "[]"] by (simp_all add: sane_def hwf_def plenty_def trio_def)
  have c: "c_keys (cp_client ?c) = (excom_encrypt_init point_sodium)\<lparr>e_local := Some (pair_of 7)\<rparr>"
    "\<not> cl_disconnected (cp_client ?c)" "cl_enc (cp_client ?c) = pair_of 7" "c_state (cp_client ?c) = STATE_PREHANDSHAKE"
    by (simp_all add: program_of_def client_c_def)
  have t: "takes 4 (replicate 4 (Inr 128))" "takes 3 (replicate 3 (Inr 128))" by (simp_all add: numeral_eq_Suc)
  have z: "box_beforenm point_sodium (replicate 32 0) k = replicate 32 200" for k by (simp add: point_sodium_def)
  have tail: "wp m (\<lambda>s4 ws4. \<exists>p d4. sc_data s4 = Some (p, d4) \<and> length (pending ws4 (cd_in d4)) = 32) (w'\<lparr>ins := [Inr bs]\<rparr>)"
    if "length bs = 79" "e_remote_active e" "session_key point_sodium e = replicate 32 200"
      "bs = framed point_sodium e v 1 (packet_command, [WStr hello_world])"
      "\<forall>later. incomplete (drop 47 bs @ later) \<longrightarrow> length later < 1073741824 \<longrightarrow> wp m (\<lambda>s4 ws4. \<exists>p d4. sc_data s4 = Some (p, d4) \<and>
        c_state d4 = STATE_BODY \<and> (\<exists>raw. queue_holds (cd_queue d4) [raw] \<and> arrived ws4 raw (1, packet_command, [WStr hello_world]) \<and>
        pending ws4 (cd_in d4) = drop 47 bs @ later)) (w'\<lparr>ins := [Inr (bs @ later)]\<rparr>)"
    for bs e v w' and m :: "server_client cmd"
    using that(5) [rule_format, of "[]"] point_tail [OF that(2,3), of v] that(1,4) by (auto elim!: wp_mono)
  note first = first_command_leaves_tail [where pc = "pair_of 7" and ps = "pair_of 9" and fd = 4 and S = point_sodium
        and sz = 400, OF _ _ _ _ _ w(2,3,1) _ w(2,3,1) _ point_sodium_ok]
  show ?thesis
    by (rule wp_mono [OF first], use c t z in \<open>simp_all add: logging_def program_of_def pair_of_def\<close>)
       (clarify, erule wp_mono, use tail in blast)
qed

end
