(* ===== verification/Cli.thy ===== *)
theory Cli
  imports Connect Thread
begin

text \<open>
  The command line program, \<open>src/excom-cli/main.c\<close>: \<open>main\<close> and the handler of the interrupt
  signal, without their printing. The argument of the client's half is what starting its thread returns; the thread
  itself runs \<open>event_loop\<close>, and \<open>main\<close> joins it.
\<close>

text \<open>With any number of arguments but one, or with \<open>server\<close> as the argument, the program is the server.\<close>

definition is_server :: "string list \<Rightarrow> bool" where
  "is_server argv \<longleftrightarrow> length argv \<noteq> 2 \<or> argv ! 1 = ''server''"

definition main_server ::
    "sodium \<Rightarrow> ('k, event_ptr) kernel \<Rightarrow> size_t \<Rightarrow> size_t \<Rightarrow> 'k server \<Rightarrow> 'k server cmd" where
  "main_server S K ssz dsz server =
     bind (excom_server_bind K (excom_server_init server)) (\<lambda>(_, server).
     bind (excom_server_run S K ssz dsz server) (\<lambda>(_, server).
     excom_server_destroy K server))"

text \<open>The failed assertion aborts the program; without a thread, the one that is joined was never set.\<close>

definition main_client :: "sodium \<Rightarrow> ('k, unit) kernel \<Rightarrow> int \<Rightarrow> 'k client_program \<Rightarrow> 'k client_program cmd" where
  "main_client S K start c =
     bind (excom_client_init S c) (\<lambda>c.
     bind (excom_client_connect S K c) (\<lambda>(connection, c).
     if connection \<noteq> 0 then fail Exits
     else
       bind (excom_client_handle_packets S K start None c) (\<lambda>(h, c).
       case h of
         None \<Rightarrow> fail BadMember
       | Some f \<Rightarrow> event_loop S K f c)))"

text \<open>
  The whole of \<open>main\<close>, on the two objects of the file and the state of the threads; \<open>key\<close> is the
  result of making the thread-local key, which is not looked at.
\<close>

definition main_program ::
    "sodium \<Rightarrow> ('k, event_ptr) kernel \<Rightarrow> ('k, unit) kernel \<Rightarrow> size_t \<Rightarrow> size_t \<Rightarrow> int \<Rightarrow> int \<Rightarrow> string list \<Rightarrow>
      threads \<times> 'k server \<times> 'k client_program \<Rightarrow> (int \<times> threads \<times> 'k server \<times> 'k client_program) cmd" where
  "main_program S K K' ssz dsz key start argv x =
     (case x of (ts, server, client) \<Rightarrow>
        let ts = snd (excom_thread_load key ts) in
        if is_server argv
        then bind (main_server S K ssz dsz server) (\<lambda>server. ret (0, ts, server, client))
        else bind (main_client S K' start client) (\<lambda>client. ret (0, ts, server, client)))"

text \<open>
  The handler of \<open>SIGINT\<close>. Only the server installs it, so the second branch is never taken.
\<close>

definition sighandle ::
    "('k, unit) kernel \<Rightarrow> bool \<Rightarrow> int \<Rightarrow> 'k server \<times> 'k client_program \<Rightarrow> ('k server \<times> 'k client_program) cmd" where
  "sighandle K srv signal x =
     (case x of (server, client) \<Rightarrow>
        if signal \<noteq> 2 then ret x
        else if srv then ret (excom_event_epoll_loop_end server, client)
        else bind (excom_client_destroy K client) (\<lambda>client. ret (server, client)))"

text \<open>With the argument \<open>server\<close> or with none the program is the server; its signal ends the loop and nothing else.\<close>

lemma main_arguments [simp]:
  "is_server [p]" "is_server [p, ''server'']" "\<not> is_server [p, ''client'']" "is_server [p, a, b]"
  by (simp_all add: is_server_def)

lemma sighandle_server: "sighandle K True 2 (server, client) = ret (server\<lparr>ep_loop := False\<rparr>, client)"
  by (simp add: sighandle_def excom_event_epoll_loop_end_def)

end
