(* ===== verification/Factory.thy ===== *)
theory Factory
  imports Loop Structs
begin

text \<open>
  The job factory, \<open>src/excom/factory.c\<close> and \<open>inc/excom/factory.h\<close>: workers that take jobs from a
  shared doubly linked list. The macros \<open>PUSH\<close> and \<open>POP\<close> are operations on a heap of job structs;
  a struct is the malloc block it lies in. The runner of a job and its data are numbers, and an
  argument \<open>call\<close> says what calling the runner does. Where a worker waits for the condition variable,
  an argument \<open>wait\<close> says what the other threads do meanwhile.
\<close>

section \<open>Model\<close>

datatype worker_status = WORKER_FAIL | WORKER_WORK | WORKER_TERM

record job =
  j_runner :: nat
  j_data :: nat
  j_prev :: ptr
  j_next :: ptr

record factory_worker =
  w_status :: worker_status
  w_err :: int

record factory =
  f_num :: nat
  f_block :: ptr
  f_workers :: "factory_worker list"
  f_jobs :: ptr
  f_mutex :: mutex
  f_heap :: "nat \<Rightarrow> job option"

text \<open>\<open>PUSH(item, list)\<close>; the third assignment goes through the old head of the list.\<close>

definition PUSH :: "ptr \<Rightarrow> ptr \<times> (nat \<Rightarrow> job option) \<Rightarrow> fault + (ptr \<times> (nat \<Rightarrow> job option))" where
  "PUSH item x =
     (case x of (list, h) \<Rightarrow>
        andthen (set_struct item (j_prev_update (\<lambda>_. Null)) h) (\<lambda>h.
        andthen (set_struct item (j_next_update (\<lambda>_. list)) h) (\<lambda>h.
        andthen (struct_at h item) (\<lambda>(_, j).
        andthen (set_struct (j_next j) (j_prev_update (\<lambda>_. list)) h) (\<lambda>h.
        Inr (item, h))))))"

definition POP :: "ptr \<Rightarrow> ptr \<times> (nat \<Rightarrow> job option) \<Rightarrow> fault + (ptr \<times> (nat \<Rightarrow> job option))" where
  "POP item x =
     (case x of (list, h) \<Rightarrow>
        andthen (struct_at h item) (\<lambda>(_, j).
        andthen (if j_prev j \<noteq> Null then set_struct (j_prev j) (j_next_update (\<lambda>_. j_next j)) h else Inr h) (\<lambda>h.
        andthen (struct_at h item) (\<lambda>(_, j).
        andthen (if j_next j \<noteq> Null then set_struct (j_next j) (j_prev_update (\<lambda>_. j_prev j)) h else Inr h) (\<lambda>h.
        andthen (struct_at h item) (\<lambda>(_, j).
        let list = (if list = item then j_next j else list) in
        andthen (set_struct item (j_next_update (\<lambda>_. Null)) h) (\<lambda>h.
        andthen (set_struct item (j_prev_update (\<lambda>_. Null)) h) (\<lambda>h.
        Inr (list, h)))))))))"

text \<open>\<open>sizeof(excom_factory_job_t)\<close> on a 64-bit host.\<close>

definition sizeof_job :: size_t where
  "sizeof_job = 32"

text \<open>
  \<open>starts\<close> is what \<open>excom_thread_init\<close> returns for each worker, \<open>sz\<close> the size of a worker struct.
  \<open>jobs\<close> is not assigned.
\<close>

definition excom_factory_init :: "factory \<Rightarrow> byte \<Rightarrow> size_t \<Rightarrow> int list \<Rightarrow> (int \<times> factory) cmd" where
  "excom_factory_init factory workers sz starts =
     (if workers < 1 then ret (EINVAL, factory)
      else
        bind mutex_init (\<lambda>_.
        bind (asks errno) (\<lambda>e.
        let factory = factory\<lparr>f_mutex := False\<rparr> in
        if 0 < e then bind excom_return_errno (\<lambda>err. ret (err, factory))
        else
          bind (excom_malloc (ucast workers * sz)) (\<lambda>p.
          let factory = factory\<lparr>f_num := unat workers, f_block := p\<rparr> in
          if p = Null then bind excom_return_errno (\<lambda>err. ret (err, factory))
          else
            ret (0, factory\<lparr>f_workers := map (\<lambda>err.
              if err \<noteq> 0 then \<lparr>w_status = WORKER_FAIL, w_err = err\<rparr> else \<lparr>w_status = WORKER_WORK, w_err = 0\<rparr>)
              (take (unat workers) starts)\<rparr>)))))"

definition excom_factory_add_job :: "factory \<Rightarrow> nat \<Rightarrow> nat \<Rightarrow> factory cmd" where
  "excom_factory_add_job factory runner data =
     bind (excom_malloc sizeof_job) (\<lambda>p.
     case p of
       Ptr i _ \<Rightarrow>
         let h = (f_heap factory)(i \<mapsto> \<lparr>j_runner = runner, j_data = data, j_prev = Null, j_next = Null\<rparr>) in
         bind (mutex_lock (f_mutex factory)) (\<lambda>m.
         bind (lift_fault (PUSH p (f_jobs factory, h))) (\<lambda>(jobs, h).
         bind (mutex_unlock m) (\<lambda>m.
         ret (factory\<lparr>f_jobs := jobs, f_heap := h, f_mutex := m\<rparr>))))
     | _ \<Rightarrow> fail NullDeref)"

text \<open>
  One round of \<open>excom_factory_work\<close> by the worker number \<open>k\<close>; the result says whether it goes on.
\<close>

definition factory_work_step ::
    "(factory \<Rightarrow> factory cmd) \<Rightarrow> (nat \<Rightarrow> nat \<Rightarrow> unit cmd) \<Rightarrow> nat \<Rightarrow> factory \<Rightarrow> (bool \<times> factory) cmd" where
  "factory_work_step wait call k factory =
     bind (mutex_lock (f_mutex factory)) (\<lambda>m.
     bind (mutex_unlock m) (\<lambda>m.
     bind (wait (factory\<lparr>f_mutex := m\<rparr>)) (\<lambda>factory.
     bind (mutex_lock (f_mutex factory)) (\<lambda>m.
     let job = f_jobs factory in
     bind (if job \<noteq> Null then lift_fault (POP job (f_jobs factory, f_heap factory))
           else ret (f_jobs factory, f_heap factory)) (\<lambda>(jobs, h).
     bind (mutex_unlock m) (\<lambda>m.
     let factory = factory\<lparr>f_jobs := jobs, f_heap := h, f_mutex := m\<rparr> in
     if w_status (f_workers factory ! k) = WORKER_TERM then ret (False, factory)
     else if job = Null then ret (True, factory)
     else
       bind (lift_fault (struct_at h job)) (\<lambda>(i, j).
       bind (call (j_runner j) (j_data j)) (\<lambda>_.
       bind (excom_free job) (\<lambda>_.
       ret (True, factory\<lparr>f_heap := h(i := None)\<rparr>))))))))))"

definition excom_factory_work ::
    "(factory \<Rightarrow> factory cmd) \<Rightarrow> (nat \<Rightarrow> nat \<Rightarrow> unit cmd) \<Rightarrow> nat \<Rightarrow> factory \<Rightarrow> factory cmd" where
  "excom_factory_work wait call k factory = loop (factory_work_step wait call k) factory"

text \<open>The workers are joined before their block is freed.\<close>

definition excom_factory_destroy :: "factory \<Rightarrow> factory cmd" where
  "excom_factory_destroy factory =
     (let factory = factory\<lparr>f_workers := map (\<lambda>w. w\<lparr>w_status := WORKER_TERM\<rparr>) (f_workers factory)\<rparr> in
      bind (mutex_lock (f_mutex factory)) (\<lambda>m.
      bind (mutex_unlock m) (\<lambda>m.
      bind (excom_free (f_block factory)) (\<lambda>_.
      ret (factory\<lparr>f_jobs := Null, f_mutex := m\<rparr>)))))"

section \<open>The list\<close>

text \<open>
  What the operations keep: following \<open>next\<close> from the head gives the blocks \<open>is\<close>, and the head has
  no \<open>prev\<close>. The \<open>prev\<close> of the other jobs is not what it should be.
\<close>

primrec jobs_from :: "(nat \<Rightarrow> job option) \<Rightarrow> ptr \<Rightarrow> nat list \<Rightarrow> bool" where
  "jobs_from h p [] = (p = Null)"
| "jobs_from h p (i # is) = (p = Ptr i 0 \<and> (\<exists>j. h i = Some j \<and> jobs_from h (j_next j) is))"

definition job_list :: "(nat \<Rightarrow> job option) \<Rightarrow> ptr \<Rightarrow> nat list \<Rightarrow> bool" where
  "job_list h p is \<longleftrightarrow> jobs_from h p is \<and> distinct is \<and> (\<forall>i j. p = Ptr i 0 \<longrightarrow> h i = Some j \<longrightarrow> j_prev j = Null)"

lemma jobs_from_upd [simp]: "i \<notin> set is \<Longrightarrow> jobs_from (h(i := x)) p is = jobs_from h p is"
  by (induction "is" arbitrary: p) auto

lemma jobs_from_same_next:
  assumes "h i = Some j" and "j_next j' = j_next j"
  shows "jobs_from (h(i \<mapsto> j')) p is = jobs_from h p is"
  using assms by (induction "is" arbitrary: p) (auto simp: fun_upd_def)

lemma jobs_from_alloc: "jobs_from h p is \<Longrightarrow> i \<in> set is \<Longrightarrow> h i \<noteq> None"
  by (induction "is" arbitrary: p) auto

lemma PUSH_empty: "h i = Some j \<Longrightarrow> PUSH (Ptr i 0) (Null, h) = Inl NullDeref"
  by (simp add: PUSH_def)

lemma PUSH_list:
  assumes "job_list h (Ptr k 0) (k # is)" and "i \<notin> set (k # is)" and "h i = Some j"
  shows "\<exists>h'. PUSH (Ptr i 0) (Ptr k 0, h) = Inr (Ptr i 0, h') \<and> job_list h' (Ptr i 0) (i # k # is) \<and>
    h' i = Some (j\<lparr>j_prev := Null, j_next := Ptr k 0\<rparr>) \<and> (\<forall>l. l \<noteq> i \<longrightarrow> l \<noteq> k \<longrightarrow> h' l = h l)"
proof -
  obtain jk where jk: "h k = Some jk" "jobs_from h (j_next jk) is" "distinct (k # is)"
    using assms(1) by (auto simp: job_list_def)
  let ?h = "h(i \<mapsto> j\<lparr>j_prev := Null, j_next := Ptr k 0\<rparr>, k \<mapsto> jk\<lparr>j_prev := Ptr k 0\<rparr>)"
  have ik: "i \<noteq> k" using assms(2) by auto
  then have "PUSH (Ptr i 0) (Ptr k 0, h) = Inr (Ptr i 0, ?h)"
    using assms(3) jk(1) by (simp add: PUSH_def)
  moreover have "job_list ?h (Ptr i 0) (i # k # is)"
    using jk ik assms(2) by (auto simp: job_list_def)
  ultimately show ?thesis using ik by auto
qed

lemma POP_list:
  assumes "job_list h (Ptr i 0) (i # is)" and "h i = Some j"
  shows "\<exists>h'. POP (Ptr i 0) (Ptr i 0, h) = Inr (j_next j, h') \<and> job_list h' (j_next j) is \<and>
    h' i = Some (j\<lparr>j_next := Null, j_prev := Null\<rparr>)"
proof -
  have p: "j_prev j = Null" "jobs_from h (j_next j) is" "distinct (i # is)"
    using assms by (auto simp: job_list_def)
  show ?thesis
  proof (cases "is")
    case Nil
    then have "j_next j = Null" using p(2) by simp
    then show ?thesis
      using assms(2) p Nil by (simp add: POP_def job_list_def)
  next
    case (Cons k ks)
    then obtain jk where jk: "j_next j = Ptr k 0" "h k = Some jk" "jobs_from h (j_next jk) ks"
      using p(2) by auto
    have ik: "i \<noteq> k" using p(3) Cons by auto
    let ?h = "h(k \<mapsto> jk\<lparr>j_prev := Null\<rparr>, i \<mapsto> j\<lparr>j_next := Null, j_prev := Null\<rparr>)"
    have "POP (Ptr i 0) (Ptr i 0, h) = Inr (j_next j, ?h)"
      using assms(2) p(1) jk(1,2) ik by (simp add: POP_def fun_upd_twist)
    moreover have "job_list ?h (j_next j) is"
      using jk Cons p(3) ik by (auto simp: job_list_def)
    ultimately show ?thesis by auto
  qed
qed

section \<open>Operations\<close>

lemma excom_factory_add_job_wp:
  assumes jobs: "job_list (f_heap f) (f_jobs f) (k # js)" and m: "\<not> f_mutex f" and w: "plenty w"
    and below: "\<forall>i. f_heap f i \<noteq> None \<longrightarrow> i < fresh w"
    and Q: "\<And>h w'. job_list h (Ptr (fresh w) 0) (fresh w # k # js) \<Longrightarrow>
      h (fresh w) = Some \<lparr>j_runner = r, j_data = x, j_prev = Null, j_next = Ptr k 0\<rparr> \<Longrightarrow>
      blocks w' (fresh w) \<noteq> None \<Longrightarrow> mframe {} w w' \<Longrightarrow>
      Q (f\<lparr>f_jobs := Ptr (fresh w) 0, f_heap := h, f_mutex := False\<rparr>) w'"
  shows "wp (excom_factory_add_job f r x) Q w"
  unfolding excom_factory_add_job_def wp_bind
proof (rule malloc_wp, goal_cases)
  case (1 w')
  have "\<not> malloc_fails sizeof_job w" by (rule malloc_succeeds [OF w]) (simp add: sizeof_job_def)
  with 1(1) show ?case by simp
next
  case (2 w1 bs)
  let ?j = "\<lparr>j_runner = r, j_data = x, j_prev = Null, j_next = Null\<rparr>"
  let ?h = "(f_heap f)(fresh w \<mapsto> ?j)"
  have hd: "f_jobs f = Ptr k 0" and new: "fresh w \<notin> set (k # js)"
    using jobs jobs_from_alloc [of "f_heap f" "f_jobs f" "k # js" "fresh w"] below by (auto simp: job_list_def)
  have l: "job_list ?h (Ptr k 0) (k # js)"
    using jobs new unfolding hd job_list_def by auto
  obtain h where h: "PUSH (Ptr (fresh w) 0) (Ptr k 0, ?h) = Inr (Ptr (fresh w) 0, h)"
      "job_list h (Ptr (fresh w) 0) (fresh w # k # js)" "h (fresh w) = Some (?j\<lparr>j_prev := Null, j_next := Ptr k 0\<rparr>)"
    using PUSH_list [OF l new, of ?j] by auto
  have "blocks w1 (fresh w) \<noteq> None" using 2 by simp
  from Q [OF h(2) _ this 2(6)] show ?case
    using m h by (simp add: hd)
qed

lemma work_step_wp:
  assumes jobs: "job_list (f_heap f) (f_jobs f) (i # js)" and j: "f_heap f i = Some j" and m: "\<not> f_mutex f"
    and wk: "w_status (f_workers f ! k) \<noteq> WORKER_TERM"
    and c: "wp (call (j_runner j) (j_data j)) (\<lambda>_ w2. R w2 \<and> blocks w2 i \<noteq> None) w"
    and Q: "\<And>h w2. job_list h (j_next j) js \<Longrightarrow> h i = None \<Longrightarrow> R w2 \<Longrightarrow>
      Q (True, f\<lparr>f_jobs := j_next j, f_mutex := False, f_heap := h\<rparr>) (w2\<lparr>blocks := (blocks w2)(i := None)\<rparr>)"
  shows "wp (factory_work_step ret call k f) Q w"
proof -
  have hd: "f_jobs f = Ptr i 0" and ni: "i \<notin> set js" using jobs by (simp_all add: job_list_def)
  obtain h where h: "POP (Ptr i 0) (Ptr i 0, f_heap f) = Inr (j_next j, h)" "job_list h (j_next j) js"
      "h i = Some (j\<lparr>j_next := Null, j_prev := Null\<rparr>)"
    using POP_list [OF jobs [unfolded hd] j] by blast
  have "j_next j \<noteq> Ptr i 0"
    using jobs j ni unfolding hd by (cases js) (auto simp: job_list_def)
  then have "job_list (h(i := None)) (j_next j) js"
    using h(2) ni by (auto simp: job_list_def)
  note Q = Q [OF this]
  have f: "f\<lparr>f_mutex := False\<rparr> = f" using m by (cases f) simp
  show ?thesis
    by (simp add: factory_work_step_def m wk f hd h Let_def, rule wp_mono [OF c])
       (simp add: Q wp_def bind_def excom_free_def ret_def)
qed

section \<open>Properties\<close>

text \<open>
  No job can be added to an empty factory: \<open>PUSH\<close> writes through the old head of the list, so
  \<open>excom_factory_add_job\<close> dereferences the null pointer whenever there is no job in the list.
\<close>

theorem factory_add_to_empty_faults:
  assumes "f_jobs f = Null" and "\<not> f_mutex f"
  shows "excom_factory_add_job f r x w = Inl NullDeref"
  using assms
  by (auto simp: excom_factory_add_job_def excom_malloc_def bind_def ret_def fail_def lift_fault_def Let_def PUSH_empty)

definition factory_of :: "ptr \<Rightarrow> (nat \<Rightarrow> job option) \<Rightarrow> factory" where
  "factory_of p h = \<lparr>f_num = 1, f_block = Ptr 1 0, f_workers = [\<lparr>w_status = WORKER_WORK, w_err = 0\<rparr>],
     f_jobs = p, f_mutex = False, f_heap = h\<rparr>"

lemma factory_of_simps [simp]:
  "f_jobs (factory_of p h) = p" "f_heap (factory_of p h) = h" "\<not> f_mutex (factory_of p h)"
  "f_workers (factory_of p h) = [\<lparr>w_status = WORKER_WORK, w_err = 0\<rparr>]" "f_block (factory_of p h) = Ptr 1 0"
  by (simp_all add: factory_of_def)

theorem factory_add_to_empty_faults_witness:
  "excom_factory_add_job (factory_of Null (\<lambda>_. None)) 7 8 idle_world = Inl NullDeref"
  by (rule factory_add_to_empty_faults) simp_all

text \<open>
  C32. The factory is a stack: when the list already has a job, a job that is added is the one the next
  worker takes, not the oldest one. The worker calls its runner with its data, whatever the runner
  does (the relation \<open>R\<close> between the states before and after it), then frees the struct of the job and
  changes nothing else of the memory; the older jobs are in the list as before. (With an empty list
  adding faults, \<open>factory_add_to_empty_faults\<close>.)
\<close>

theorem factory_newest_job_first:
  assumes "job_list (f_heap f) (f_jobs f) (i # js)" and "\<not> f_mutex f" and "plenty w"
    and "\<forall>i. f_heap f i \<noteq> None \<longrightarrow> i < fresh w" and "w_status (f_workers f ! k) \<noteq> WORKER_TERM"
    and "\<And>w1. mframe {} w w1 \<Longrightarrow> blocks w1 (fresh w) \<noteq> None \<Longrightarrow>
      wp (call r x) (\<lambda>_ w2. R w1 w2 \<and> blocks w2 (fresh w) \<noteq> None) w1"
  shows "wp (bind (excom_factory_add_job f r x) (factory_work_step ret call k)) (\<lambda>(go, f') w'. go \<and>
    job_list (f_heap f') (f_jobs f') (i # js) \<and> \<not> f_mutex f' \<and>
    (\<exists>w1 w2. mframe {} w w1 \<and> blocks w1 (fresh w) \<noteq> None \<and> R w1 w2 \<and>
      w' = w2\<lparr>blocks := (blocks w2)(fresh w := None)\<rparr>)) w"
  unfolding wp_bind
proof (rule excom_factory_add_job_wp [OF assms(1-4)], goal_cases)
  case (1 h w1)
  show ?case
    by (rule work_step_wp [where i = "fresh w" and js = "i # js" and R = "R w1" and
          j = "\<lparr>j_runner = r, j_data = x, j_prev = Null, j_next = Ptr i 0\<rparr>"])
       (use 1 assms(5,6) in auto)
qed

definition lone_job :: "nat \<Rightarrow> job option" where
  "lone_job = [0 \<mapsto> \<lparr>j_runner = 1, j_data = 2, j_prev = Null, j_next = Null\<rparr>]"

lemma lone_job_list [simp]: "job_list lone_job (Ptr 0 0) [0]"
  by (simp add: job_list_def lone_job_def)

definition two_blocks :: world where
  "two_blocks = idle_world\<lparr>blocks := [0 \<mapsto> replicate 32 0, 1 \<mapsto> [0]], fresh := 2\<rparr>"

text \<open>A runner that leaves the number it was given in \<open>errno\<close>.\<close>

definition errno_runner :: "nat \<Rightarrow> nat \<Rightarrow> unit cmd" where
  "errno_runner r x = (if r = 7 then set_errno (int x) else fail Diverges)"

theorem factory_newest_job_first_witness:
  "wp (bind (excom_factory_add_job (factory_of (Ptr 0 0) lone_job) 7 8) (factory_work_step ret errno_runner 0))
     (\<lambda>(go, f') w'. go \<and> job_list (f_heap f') (f_jobs f') [0] \<and> errno w' = 8 \<and> blocks w' 2 = None) two_blocks"
  by (rule wp_mono [OF factory_newest_job_first [where i = 0 and js = "[]" and R = "\<lambda>w1 w2. errno w2 = 8"]])
     (use lone_job_list in \<open>auto simp: two_blocks_def plenty_def lone_job_def errno_runner_def set_errno_def split: if_splits\<close>)

text \<open>
  Destroying a factory forgets its jobs without freeing them.
\<close>

theorem factory_destroy_leaks_jobs:
  assumes "job_list (f_heap f) (f_jobs f) js" and "\<not> f_mutex f" and "f_block f = Ptr b 0" and "blocks w b \<noteq> None"
    and "b \<notin> set js" and "i \<in> set js"
  shows "wp (excom_factory_destroy f) (\<lambda>f' w'. f_jobs f' = Null \<and> blocks w' b = None \<and> blocks w' i = blocks w i) w"
  unfolding excom_factory_destroy_def Let_def
  by (simp add: assms(2), rule free_wp [OF assms(3,4)]) (use assms(5,6) in auto)

theorem factory_destroy_leaks_jobs_witness:
  "wp (excom_factory_destroy (factory_of (Ptr 0 0) lone_job)) (\<lambda>f' w'. f_jobs f' = Null \<and> blocks w' 0 = Some (replicate 32 0)) two_blocks"
  by (rule wp_mono [OF factory_destroy_leaks_jobs [where b = 1 and i = 0 and js = "[0]"]]) (auto simp: two_blocks_def)

text \<open>
  A stale \<open>errno\<close> makes \<open>excom_factory_init\<close> fail: it takes a positive \<open>errno\<close> for a failure of
  the two initialisations, which do not set it, and returns it although nothing has failed,
  without creating a worker.
\<close>

theorem factory_init_stale_errno:
  assumes "n \<noteq> 0" and "0 < errno w" and "minits w = []"
  shows "wp (excom_factory_init f n sz starts) (\<lambda>(r, f') w'. r = errno w \<and> errno w' = 0 \<and>
    f_workers f' = f_workers f \<and> blocks w' = blocks w) w"
proof -
  have "\<not> n < 1" using assms(1) by (simp add: word_less_nat_alt unat_gt_0)
  then show ?thesis
    using assms(2,3) by (simp add: excom_factory_init_def excom_return_errno_def set_errno_def mutex_init_def wp_def bind_def
        asks_def modify_def ret_def Let_def)
qed

theorem factory_init_stale_errno_witness:
  "wp (excom_factory_init (factory_of Null (\<lambda>_. None)) 4 72 [0, 0, 0, 0]) (\<lambda>(r, f') w'. r = EAGAIN)
     (idle_world\<lparr>errno := EAGAIN\<rparr>)"
  by (rule wp_mono [OF factory_init_stale_errno]) auto

end
