(* ===== verification/FactoryThreads.thy ===== *)
theory FactoryThreads
  imports Factory Thread Runs
begin

text \<open>
  The job factory with its threads, \<open>src/excom/factory.c\<close>: the workers, each in \<open>excom_factory_work\<close>, and
  the thread that destroys the factory take steps in any order. The condition variable is that of theory
  \<open>Thread\<close>: in \<open>plant_run\<close> nobody is woken without a signal, in \<open>plant_any True\<close> a wait may also end for no
  reason, as POSIX allows. A worker waits each time before it looks at the list and at its status.
\<close>

section \<open>Model\<close>

text \<open>
  Where a worker is: before it takes the mutex, before it waits, waiting, before it takes a job, before it
  releases the mutex, before it looks at its status, before it runs its job, and at the end.
\<close>

datatype fworker_pc = FLock | FBegin | FWait | FTake | FUnlock | FCheck | FRun | FExited

text \<open>
  Where \<open>excom_factory_destroy\<close> is: in the first loop at worker \<open>i\<close>, before it takes the mutex, before it
  clears the list, before the broadcast, before it releases the mutex, in the second loop, before it frees
  the workers, and at the end.
\<close>

datatype master_pc = MTerm nat | MLock | MClear | MBroadcast | MUnlock | MJoin nat | MFree | MDone

record plant =
  t_factory :: factory
  t_cond :: cond
  t_pcs :: "fworker_pc list"
  t_job :: "ptr list"
  t_ran :: "(nat \<times> nat) list"
  t_master :: master_pc
  t_freed :: bool

text \<open>Worker \<open>k\<close>; its struct is in the block that \<open>excom_factory_destroy\<close> frees.\<close>

definition fworker_step :: "nat \<Rightarrow> plant \<Rightarrow> (fault + plant) option" where
  "fworker_step k s =
     (if length (t_pcs s) \<le> k \<or> t_pcs s ! k = FExited then None
      else if t_freed s then Some (Inl UseAfterFree)
      else
        let f = t_factory s; go = (\<lambda>pc s. s\<lparr>t_pcs := (t_pcs s)[k := pc]\<rparr>) in
        case t_pcs s ! k of
          FLock \<Rightarrow> if f_mutex f then None else Some (Inr (go FBegin (s\<lparr>t_factory := f\<lparr>f_mutex := True\<rparr>\<rparr>)))
        | FBegin \<Rightarrow>
            (case cond_wait_begin k (t_cond s) (f_mutex f) of
               (c, m) \<Rightarrow> Some (Inr (go FWait (s\<lparr>t_factory := f\<lparr>f_mutex := m\<rparr>, t_cond := c\<rparr>))))
        | FWait \<Rightarrow>
            (case cond_wait_end k (t_cond s) (f_mutex f) of
               None \<Rightarrow> None
             | Some m \<Rightarrow> Some (Inr (go FTake (s\<lparr>t_factory := f\<lparr>f_mutex := m\<rparr>\<rparr>))))
        | FTake \<Rightarrow>
            Some (andthen (if f_jobs f \<noteq> Null then POP (f_jobs f) (f_jobs f, f_heap f) else Inr (f_jobs f, f_heap f)) (\<lambda>(jobs, h).
                  Inr (go FUnlock (s\<lparr>t_factory := f\<lparr>f_jobs := jobs, f_heap := h\<rparr>, t_job := (t_job s)[k := f_jobs f]\<rparr>))))
        | FUnlock \<Rightarrow> Some (Inr (go FCheck (s\<lparr>t_factory := f\<lparr>f_mutex := False\<rparr>\<rparr>)))
        | FCheck \<Rightarrow>
            Some (Inr (go (if w_status (f_workers f ! k) = WORKER_TERM then FExited
                           else if t_job s ! k = Null then FLock else FRun) s))
        | FRun \<Rightarrow>
            Some (andthen (struct_at (f_heap f) (t_job s ! k)) (\<lambda>(i, j).
                  Inr (go FLock (s\<lparr>t_factory := f\<lparr>f_heap := (f_heap f)(i := None)\<rparr>, t_ran := t_ran s @ [(j_runner j, j_data j)]\<rparr>))))
        | FExited \<Rightarrow> None)"

definition factory_destroy_step :: "plant \<Rightarrow> (fault + plant) option" where
  "factory_destroy_step s =
     (let f = t_factory s in
      case t_master s of
        MTerm i \<Rightarrow>
          Some (Inr (if i < f_num f then
                       s\<lparr>t_factory := f\<lparr>f_workers := (f_workers f)[i := (f_workers f ! i)\<lparr>w_status := WORKER_TERM\<rparr>]\<rparr>, t_master := MTerm (Suc i)\<rparr>
                     else s\<lparr>t_master := MLock\<rparr>))
      | MLock \<Rightarrow> if f_mutex f then None else Some (Inr (s\<lparr>t_factory := f\<lparr>f_mutex := True\<rparr>, t_master := MClear\<rparr>))
      | MClear \<Rightarrow> Some (Inr (s\<lparr>t_factory := f\<lparr>f_jobs := Null\<rparr>, t_master := MBroadcast\<rparr>))
      | MBroadcast \<Rightarrow> Some (Inr (s\<lparr>t_cond := snd (excom_cond_broadcast (t_cond s)), t_master := MUnlock\<rparr>))
      | MUnlock \<Rightarrow> Some (Inr (s\<lparr>t_factory := f\<lparr>f_mutex := False\<rparr>, t_master := MJoin 0\<rparr>))
      | MJoin i \<Rightarrow>
          if i < f_num f then (if t_pcs s ! i = FExited then Some (Inr (s\<lparr>t_master := MJoin (Suc i)\<rparr>)) else None)
          else Some (Inr (s\<lparr>t_master := MFree\<rparr>))
      | MFree \<Rightarrow> Some (Inr (s\<lparr>t_freed := True, t_master := MDone\<rparr>))
      | MDone \<Rightarrow> None)"

text \<open>The threads: the one that destroys the factory, and the workers by number.\<close>

definition plant_step :: "nat option \<Rightarrow> plant \<Rightarrow> (fault + plant) option" where
  "plant_step t = (case t of None \<Rightarrow> factory_destroy_step | Some k \<Rightarrow> fworker_step k)"

inductive plant_run :: "plant \<Rightarrow> plant \<Rightarrow> bool" where
  step: "plant_step t s = Some (Inr s') \<Longrightarrow> plant_run s s'"

inductive_cases plant_runE: "plant_run s s'"

inductive plant_any :: "bool \<Rightarrow> plant \<Rightarrow> plant \<Rightarrow> bool" for spurious where
  code: "plant_run s s' \<Longrightarrow> plant_any spurious s s'"
| wakes: "spurious \<Longrightarrow> k < length (t_pcs s) \<Longrightarrow> t_pcs s ! k = FWait \<Longrightarrow>
    plant_any spurious s (s\<lparr>t_cond := cond_wakes k (t_cond s)\<rparr>)"

inductive_cases plant_anyE: "plant_any spurious s s'"

lemma plant_any_code: "plant_run\<^sup>*\<^sup>* s s' \<Longrightarrow> (plant_any spurious)\<^sup>*\<^sup>* s s'"
  by (rule rtranclp_mono [THEN predicate2D]) (auto intro: plant_any.code)

lemma plant_any_False: "(plant_any False)\<^sup>*\<^sup>* s s' \<Longrightarrow> plant_run\<^sup>*\<^sup>* s s'"
  by (rule rtranclp_mono [THEN predicate2D]) (auto elim: plant_anyE)

definition plant_crashes :: "plant \<Rightarrow> bool" where
  "plant_crashes s \<longleftrightarrow> (\<exists>t e. plant_step t s = Some (Inl e))"

definition plant_stuck :: "plant \<Rightarrow> bool" where
  "plant_stuck s \<longleftrightarrow> (\<forall>t. plant_step t s = None)"

text \<open>\<open>excom_factory_destroy\<close> is called on \<open>f\<close> while every worker is at \<open>pc\<close>.\<close>

definition plant_start :: "fworker_pc \<Rightarrow> factory \<Rightarrow> plant" where
  "plant_start pc f = \<lparr>t_factory = f, t_cond = (if pc = FWait then [0..<f_num f] else []), t_pcs = replicate (f_num f) pc,
     t_job = replicate (f_num f) Null, t_ran = [], t_master = MTerm 0, t_freed = False\<rparr>"

abbreviation plant_schedule :: "nat option list \<Rightarrow> plant \<Rightarrow> plant option" where
  "plant_schedule \<equiv> schedule plant_step"

lemma plant_schedule_run: "plant_schedule ts s = Some s' \<Longrightarrow> plant_run\<^sup>*\<^sup>* s s'"
  by (erule schedule_run [rotated]) (rule plant_run.step)

section \<open>With every worker waiting\<close>

definition awake :: "master_pc \<Rightarrow> bool" where
  "awake m \<longleftrightarrow> (case m of MJoin _ \<Rightarrow> True | MFree \<Rightarrow> True | MDone \<Rightarrow> True | _ \<Rightarrow> False)"

text \<open>What holds of worker \<open>k\<close>, before the broadcast and after it.\<close>

definition worker_inv :: "plant \<Rightarrow> nat \<Rightarrow> bool" where
  "worker_inv s k \<longleftrightarrow>
     (if awake (t_master s)
      then t_pcs s ! k \<in> {FWait, FTake, FUnlock, FCheck, FExited} \<and>
        (t_pcs s ! k \<in> {FUnlock, FCheck} \<longrightarrow> t_job s ! k = Null)
      else t_pcs s ! k = FWait \<and> (t_master s \<noteq> MUnlock \<longrightarrow> k \<in> set (t_cond s)))"

definition plant_inv :: "nat \<Rightarrow> plant \<Rightarrow> bool" where
  "plant_inv n s \<longleftrightarrow>
     f_num (t_factory s) = n \<and> length (t_pcs s) = n \<and> length (t_job s) = n \<and> length (f_workers (t_factory s)) = n \<and>
     (\<forall>k<n. worker_inv s k) \<and> (t_freed s \<longleftrightarrow> t_master s = MDone) \<and>
     (\<forall>i. t_master s = MTerm i \<longrightarrow> i \<le> n \<and> (\<forall>k<i. w_status (f_workers (t_factory s) ! k) = WORKER_TERM)) \<and>
     ((\<forall>i. t_master s \<noteq> MTerm i) \<longrightarrow> (\<forall>k<n. w_status (f_workers (t_factory s) ! k) = WORKER_TERM)) \<and>
     (t_master s = MBroadcast \<or> t_master s = MUnlock \<or> awake (t_master s) \<longrightarrow> f_jobs (t_factory s) = Null) \<and>
     (t_master s = MUnlock \<or> awake (t_master s) \<longrightarrow> t_cond s = []) \<and>
     (if awake (t_master s) then f_mutex (t_factory s) \<longrightarrow> (\<exists>k<n. t_pcs s ! k \<in> {FTake, FUnlock})
      else f_mutex (t_factory s) = (t_master s \<in> {MClear, MBroadcast, MUnlock})) \<and>
     (\<forall>i. t_master s = MJoin i \<longrightarrow> i \<le> n \<and> (\<forall>k<i. t_pcs s ! k = FExited)) \<and>
     (t_master s \<in> {MFree, MDone} \<longrightarrow> (\<forall>k<n. t_pcs s ! k = FExited))"

lemma plant_inv_start:
  "length (f_workers f) = f_num f \<Longrightarrow> \<not> f_mutex f \<Longrightarrow> plant_inv (f_num f) (plant_start FWait f)"
  by (auto simp: plant_inv_def plant_start_def worker_inv_def awake_def)

definition master_left :: "nat \<Rightarrow> master_pc \<Rightarrow> nat" where
  "master_left n m = (case m of MTerm i \<Rightarrow> 2 * n + 8 - i | MLock \<Rightarrow> n + 7 | MClear \<Rightarrow> n + 6 | MBroadcast \<Rightarrow> n + 5 | MUnlock \<Rightarrow> n + 4
     | MJoin i \<Rightarrow> n + 3 - i | MFree \<Rightarrow> 1 | MDone \<Rightarrow> 0)"

definition fworker_left :: "fworker_pc \<Rightarrow> nat" where
  "fworker_left pc = (case pc of FWait \<Rightarrow> 4 | FTake \<Rightarrow> 3 | FUnlock \<Rightarrow> 2 | FCheck \<Rightarrow> 1 | _ \<Rightarrow> 0)"

definition plant_left :: "nat \<Rightarrow> plant \<Rightarrow> nat" where
  "plant_left n s = master_left n (t_master s) + sum_list (map fworker_left (t_pcs s))"

lemma left_update:
  "k < length pcs \<Longrightarrow> fworker_left pc < fworker_left (pcs ! k) \<Longrightarrow>
    sum_list (map fworker_left (pcs[k := pc])) < sum_list (map fworker_left pcs)"
  using elem_le_sum_list [of k "map fworker_left pcs"] by (simp add: map_update sum_list_update)

text \<open>A worker goes on, after the broadcast, and leaves or takes the mutex.\<close>

lemma plant_inv_go:
  assumes i: "plant_inv n s" and aw: "awake (t_master s)" and k: "k < n" "t_pcs s ! k \<noteq> FExited"
    and pc: "pc \<in> {FTake, FUnlock, FCheck, FExited}" "fworker_left pc < fworker_left (t_pcs s ! k)"
    and job: "js = (t_job s)[k := j]" "pc \<in> {FUnlock, FCheck} \<longrightarrow> j = Null"
    and m: "m \<longrightarrow> pc \<in> {FTake, FUnlock} \<or> f_mutex (t_factory s) \<and> t_pcs s ! k \<notin> {FTake, FUnlock}"
  shows "plant_inv n (s\<lparr>t_factory := (t_factory s)\<lparr>f_mutex := m\<rparr>, t_job := js, t_pcs := (t_pcs s)[k := pc]\<rparr>)"
    and "plant_left n (s\<lparr>t_factory := (t_factory s)\<lparr>f_mutex := m\<rparr>, t_job := js, t_pcs := (t_pcs s)[k := pc]\<rparr>) < plant_left n s"
proof -
  show "plant_left n (s\<lparr>t_factory := (t_factory s)\<lparr>f_mutex := m\<rparr>, t_job := js, t_pcs := (t_pcs s)[k := pc]\<rparr>) < plant_left n s"
    using left_update [of k "t_pcs s" pc] i k(1) pc(2) by (simp add: plant_left_def plant_inv_def)
  let ?s = "s\<lparr>t_factory := (t_factory s)\<lparr>f_mutex := m\<rparr>, t_job := js, t_pcs := (t_pcs s)[k := pc]\<rparr>"
  have nk: "\<not> (\<forall>k<n. t_pcs s ! k = FExited)" "\<And>i. t_master s = MJoin i \<Longrightarrow> i \<le> k"
    using i k by (auto simp: plant_inv_def not_less)
  have w: "\<forall>l<n. worker_inv ?s l"
    using i k aw pc(1) job by (auto simp: plant_inv_def worker_inv_def nth_list_update)
  have h: "m \<longrightarrow> (\<exists>l<n. (t_pcs s)[k := pc] ! l \<in> {FTake, FUnlock})"
  proof
    assume "m"
    then show "\<exists>l<n. (t_pcs s)[k := pc] ! l \<in> {FTake, FUnlock}"
    proof (cases "pc \<in> {FTake, FUnlock}")
      case True
      then show ?thesis using i k(1) by (intro exI [of _ k]) (simp add: plant_inv_def)
    next
      case False
      then obtain l where "l < n" "t_pcs s ! l \<in> {FTake, FUnlock}" "l \<noteq> k"
        using \<open>m\<close> m i aw by (auto simp: plant_inv_def)
      then show ?thesis by (intro exI [of _ l]) simp
    qed
  qed
  show "plant_inv n ?s"
    using i w h nk aw job(1) by (auto simp: plant_inv_def)
qed

lemma plant_inv_worker:
  assumes i: "plant_inv n s" and st: "fworker_step k s = Some r"
  shows "\<exists>s'. r = Inr s' \<and> plant_inv n s' \<and> plant_left n s' < plant_left n s"
proof -
  have k: "k < n" "t_pcs s ! k \<noteq> FExited" using i st by (auto simp: plant_inv_def fworker_step_def split: if_splits)
  have w: "worker_inv s k" and nf: "\<not> t_freed s" using i k by (auto simp: plant_inv_def)
  have len: "length (t_pcs s) = n" "w_status (f_workers (t_factory s) ! k) = WORKER_TERM \<or> \<not> awake (t_master s)"
    using i k by (auto simp: plant_inv_def awake_def split: master_pc.splits)
  have aw: "awake (t_master s)"
    using w st k nf i by (auto simp: worker_inv_def fworker_step_def plant_inv_def split: if_splits)
  have jobs: "f_jobs (t_factory s) = Null" "t_cond s = []" using i aw by (auto simp: plant_inv_def)
  note go = plant_inv_go [OF i aw k]
  have pc: "t_pcs s ! k \<in> {FWait, FTake, FUnlock, FCheck}" using w aw k(2) by (auto simp: worker_inv_def)
  have same: "t_job s = (t_job s)[k := t_job s ! k]" "(t_factory s)\<lparr>f_mutex := f_mutex (t_factory s)\<rparr> = t_factory s"
    "s\<lparr>t_job := t_job s\<rparr> = s" "(t_factory s)\<lparr>f_jobs := Null, f_heap := f_heap (t_factory s)\<rparr> = t_factory s"
    using jobs(1) by (cases "t_factory s"; simp)+
  from pc consider "t_pcs s ! k = FWait" | "t_pcs s ! k = FTake" | "t_pcs s ! k = FUnlock" | "t_pcs s ! k = FCheck" by blast
  then show ?thesis
  proof cases
    case 1
    then show ?thesis
      using st k nf len jobs go [of FTake "t_job s" "t_job s ! k" True] same
      by (auto simp: fworker_step_def fworker_left_def Let_def split: if_splits)
  next
    case 2
    then show ?thesis
      using st k nf len jobs go [of FUnlock _ Null "f_mutex (t_factory s)"] same
      by (auto simp: fworker_step_def fworker_left_def Let_def split: if_splits)
  next
    case 3
    then show ?thesis
      using st k nf len w aw go [of FCheck "t_job s" "t_job s ! k" False] same
      by (auto simp: fworker_step_def fworker_left_def worker_inv_def Let_def split: if_splits)
  next
    case 4
    then show ?thesis
      using st k nf len aw go [of FExited "t_job s" "t_job s ! k" "f_mutex (t_factory s)"] same
      by (auto simp: fworker_step_def fworker_left_def Let_def split: if_splits)
  qed
qed

lemma plant_inv_master:
  assumes i: "plant_inv n s" and st: "factory_destroy_step s = Some r"
  shows "\<exists>s'. r = Inr s' \<and> plant_inv n s' \<and> plant_left n s' < plant_left n s"
proof (cases "t_master s")
  case (MTerm j)
  then show ?thesis
    using i st by (auto simp: factory_destroy_step_def plant_inv_def worker_inv_def awake_def plant_left_def master_left_def Let_def
        nth_list_update less_Suc_eq split: if_splits)
next
  case (MJoin j)
  have w: "worker_inv (s\<lparr>t_master := m\<rparr>) k = worker_inv s k" if "awake m" for m k
    using that by (simp add: worker_inv_def MJoin awake_def)
  have num: "f_num (t_factory s) = n" "j \<le> n" using i MJoin by (simp_all add: plant_inv_def)
  show ?thesis
  proof (cases "j < n")
    case True
    then have e: "t_pcs s ! j = FExited" "r = Inr (s\<lparr>t_master := MJoin (Suc j)\<rparr>)"
      using st MJoin num by (simp_all add: factory_destroy_step_def Let_def split: if_splits)
    have "plant_inv n (s\<lparr>t_master := MJoin (Suc j)\<rparr>)"
      using i True e(1) w [of "MJoin (Suc j)"] MJoin by (simp add: plant_inv_def awake_def less_Suc_eq)
    then show ?thesis using e(2) True MJoin by (simp add: plant_left_def master_left_def)
  next
    case False
    then have e: "r = Inr (s\<lparr>t_master := MFree\<rparr>)" "j = n" using st MJoin num by (simp_all add: factory_destroy_step_def Let_def)
    have "plant_inv n (s\<lparr>t_master := MFree\<rparr>)"
      using i e(2) w [of MFree] MJoin by (simp add: plant_inv_def awake_def)
    then show ?thesis using e MJoin by (simp add: plant_left_def master_left_def)
  qed
qed (use i st in \<open>auto simp: factory_destroy_step_def plant_inv_def worker_inv_def awake_def plant_left_def master_left_def Let_def split: if_splits\<close>)

lemma plant_inv_progress:
  assumes i: "plant_inv n s" and "t_master s \<noteq> MDone"
  shows "\<not> plant_stuck s"
proof (cases "factory_destroy_step s")
  case (Some r)
  then have "plant_step None s = Some r" by (simp add: plant_step_def)
  then show ?thesis unfolding plant_stuck_def by (metis option.distinct(1))
next
  case None
  then obtain j where j: "t_master s = MJoin j" "j < n" "t_pcs s ! j \<noteq> FExited"
    using i assms(2) by (cases "t_master s") (auto simp: factory_destroy_step_def plant_inv_def awake_def Let_def split: if_splits)
  then have s: "length (t_pcs s) = n" "\<not> t_freed s" "f_jobs (t_factory s) = Null" "t_cond s = []"
    using i by (simp_all add: plant_inv_def awake_def)
  have inv: "worker_inv s k" if "k < n" for k using i that by (simp add: plant_inv_def)
  have hold: "f_mutex (t_factory s) \<longrightarrow> (\<exists>k<n. t_pcs s ! k \<in> {FTake, FUnlock})"
    using i j(1) by (simp add: plant_inv_def awake_def)
  obtain k where "k < n" "t_pcs s ! k \<noteq> FExited" "t_pcs s ! k = FWait \<longrightarrow> \<not> f_mutex (t_factory s)" "worker_inv s k"
  proof (cases "f_mutex (t_factory s)")
    case True
    then obtain k where k: "k < n" "t_pcs s ! k \<in> {FTake, FUnlock}" using hold by blast
    then show ?thesis using inv by (intro that [of k]) auto
  next
    case False
    then show ?thesis using j(2,3) inv by (intro that [of j]) simp_all
  qed
  then have "fworker_step k s \<noteq> None"
    using s j(1) by (auto simp: fworker_step_def worker_inv_def awake_def)
  then have "plant_step (Some k) s \<noteq> None" by (simp add: plant_step_def)
  then show ?thesis unfolding plant_stuck_def by (intro notI) (erule allE [of _ "Some k"], simp)
qed

lemma plant_inv_run: "plant_run s s' \<Longrightarrow> plant_inv n s \<Longrightarrow> plant_inv n s' \<and> plant_left n s' < plant_left n s"
proof (erule plant_runE)
  fix t assume "plant_step t s = Some (Inr s')" "plant_inv n s"
  then show ?thesis
    using plant_inv_master [of n s "Inr s'"] plant_inv_worker [of n s _ "Inr s'"] by (cases t) (auto simp: plant_step_def)
qed

interpretation plant: progressing plant_run "plant_inv n" "plant_left n" for n
  by unfold_locales (rule plant_inv_run)

lemma plant_inv_safe: "plant_inv n s \<Longrightarrow> \<not> plant_crashes s"
  using plant_inv_master [of n s] plant_inv_worker [of n s]
  by (fastforce simp: plant_crashes_def plant_step_def split: option.splits)

section \<open>With a worker on its way to wait\<close>

definition hung :: "plant \<Rightarrow> bool" where
  "hung s \<longleftrightarrow> t_master s = MJoin 0 \<and> 0 < f_num (t_factory s) \<and> 0 < length (t_pcs s) \<and> t_pcs s ! 0 = FWait \<and> 0 \<in> set (t_cond s)"

lemma hung_step: "plant_step t s = Some (Inr s') \<Longrightarrow> hung s \<Longrightarrow> hung s'"
  by (cases t; cases "the t") 
     (auto simp: hung_def plant_step_def factory_destroy_step_def fworker_step_def Let_def nth_list_update
       elim!: andthen_InrE split: fworker_pc.splits if_splits)

lemma hung_run:
  assumes "plant_run\<^sup>*\<^sup>* s s'" and "hung s"
  shows "hung s'"
  using assms by (induction rule: rtranclp_induct) (auto elim: plant_runE intro: hung_step)

text \<open>The first loop of \<open>excom_factory_destroy\<close> runs to its end.\<close>

lemma master_terms:
  assumes "t_master s = MTerm i" and "i \<le> f_num (t_factory s)"
  shows "\<exists>s'. plant_run\<^sup>*\<^sup>* s s' \<and> t_master s' = MLock \<and> t_pcs s' = t_pcs s \<and> t_freed s' = t_freed s \<and>
    f_mutex (t_factory s') = f_mutex (t_factory s) \<and> f_num (t_factory s') = f_num (t_factory s)"
  using assms
proof (induction "f_num (t_factory s) - i" arbitrary: s i)
  case 0
  then have "plant_step None s = Some (Inr (s\<lparr>t_master := MLock\<rparr>))" by (simp add: plant_step_def factory_destroy_step_def Let_def)
  then show ?case by (intro exI [of _ "s\<lparr>t_master := MLock\<rparr>"]) (auto intro: plant_run.step)
next
  case (Suc m)
  let ?f = "t_factory s"
  let ?s = "s\<lparr>t_factory := ?f\<lparr>f_workers := (f_workers ?f)[i := (f_workers ?f ! i)\<lparr>w_status := WORKER_TERM\<rparr>]\<rparr>, t_master := MTerm (Suc i)\<rparr>"
  have "plant_step None s = Some (Inr ?s)" using Suc.hyps(2) Suc.prems by (simp add: plant_step_def factory_destroy_step_def Let_def)
  then have "plant_run s ?s" by (rule plant_run.step)
  moreover have "m = f_num (t_factory ?s) - Suc i" "Suc i \<le> f_num (t_factory ?s)" using Suc.hyps(2) Suc.prems by simp_all
  from Suc.hyps(1) [OF this(1) _ this(2)] obtain s' where "plant_run\<^sup>*\<^sup>* ?s s'" "t_master s' = MLock" "t_pcs s' = t_pcs s"
    "t_freed s' = t_freed s" "f_mutex (t_factory s') = f_mutex ?f" "f_num (t_factory s') = f_num ?f"
    by auto
  ultimately show ?case by (meson converse_rtranclp_into_rtranclp)
qed

section \<open>With wakeups for no reason, and with workers that do not wait yet\<close>

text \<open>A worker that was joined waits for a broadcast that is over.\<close>

definition lost_worker :: "plant \<Rightarrow> bool" where
  "lost_worker s \<longleftrightarrow> (\<exists>k < length (t_pcs s). t_master s = MJoin k \<and> t_pcs s ! k = FWait \<and> k \<in> set (t_cond s))"

definition plant_held :: "nat \<Rightarrow> plant \<Rightarrow> bool" where
  "plant_held n s \<longleftrightarrow>
     f_num (t_factory s) = n \<and> length (t_pcs s) = n \<and> length (t_job s) = n \<and> f_jobs (t_factory s) = Null \<and>
     (\<forall>k<n. t_pcs s ! k \<noteq> FRun \<and> (t_pcs s ! k \<in> {FUnlock, FCheck} \<longrightarrow> t_job s ! k = Null)) \<and>
     (t_freed s \<longleftrightarrow> t_master s = MDone) \<and> (t_master s \<in> {MFree, MDone} \<longrightarrow> (\<forall>k<n. t_pcs s ! k = FExited)) \<and>
     (\<forall>i. t_master s = MJoin i \<longrightarrow> i \<le> n \<and> (\<forall>k<i. t_pcs s ! k = FExited)) \<and>
     (f_mutex (t_factory s) \<longrightarrow> t_master s \<in> {MClear, MBroadcast, MUnlock} \<or> (\<exists>k<n. t_pcs s ! k \<in> {FBegin, FTake, FUnlock}))"

lemma plant_held_start:
  "f_jobs f = Null \<Longrightarrow> \<not> f_mutex f \<Longrightarrow> pc = FWait \<or> pc = FLock \<Longrightarrow> plant_held (f_num f) (plant_start pc f)"
  by (auto simp: plant_held_def plant_start_def)

text \<open>A worker goes on, with or without the mutex.\<close>

lemma plant_held_go:
  assumes i: "plant_held n s" and k: "k < n" "t_pcs s ! k \<noteq> FExited"
    and pc: "pc \<noteq> FRun" "pc \<in> {FUnlock, FCheck} \<longrightarrow> j = Null"
    and m: "m \<longrightarrow> pc \<in> {FBegin, FTake, FUnlock} \<or> f_mutex (t_factory s) \<and> t_pcs s ! k \<notin> {FBegin, FTake, FUnlock}"
  shows "plant_held n (s\<lparr>t_factory := (t_factory s)\<lparr>f_mutex := m\<rparr>, t_cond := c, t_job := (t_job s)[k := j], t_pcs := (t_pcs s)[k := pc]\<rparr>)"
    (is "plant_held n ?s")
proof -
  have h: "m \<longrightarrow> t_master s \<in> {MClear, MBroadcast, MUnlock} \<or> (\<exists>l<n. (t_pcs s)[k := pc] ! l \<in> {FBegin, FTake, FUnlock})"
  proof
    assume "m"
    show "t_master s \<in> {MClear, MBroadcast, MUnlock} \<or> (\<exists>l<n. (t_pcs s)[k := pc] ! l \<in> {FBegin, FTake, FUnlock})"
    proof (cases "pc \<in> {FBegin, FTake, FUnlock}")
      case True
      then show ?thesis using i k(1) by (intro disjI2 exI [of _ k]) (simp add: plant_held_def)
    next
      case False
      then have "t_master s \<in> {MClear, MBroadcast, MUnlock} \<or> (\<exists>l<n. l \<noteq> k \<and> t_pcs s ! l \<in> {FBegin, FTake, FUnlock})"
        using \<open>m\<close> m i unfolding plant_held_def by metis
      then show ?thesis by (metis nth_list_update_neq)
    qed
  qed
  have j: "\<And>i. t_master s = MJoin i \<Longrightarrow> i \<le> k" "t_master s \<notin> {MFree, MDone}"
    using i k by (auto simp: plant_held_def not_less)
  show ?thesis
    using i h j k pc by (auto simp: plant_held_def nth_list_update)
qed

lemma plant_held_worker:
  assumes i: "plant_held n s" and st: "fworker_step k s = Some r"
  shows "\<exists>s'. r = Inr s' \<and> plant_held n s'"
proof -
  have k: "k < n" "t_pcs s ! k \<noteq> FExited" and len: "length (t_pcs s) = n" using i st by (auto simp: plant_held_def fworker_step_def split: if_splits)
  have nf: "\<not> t_freed s" "f_jobs (t_factory s) = Null" "t_pcs s ! k \<noteq> FRun" using i k by (auto simp: plant_held_def)
  have job: "t_pcs s ! k \<in> {FUnlock, FCheck} \<Longrightarrow> t_job s ! k = Null" using i k(1) by (auto simp: plant_held_def)
  note go = plant_held_go [OF i k]
  have same: "(t_job s)[k := t_job s ! k] = t_job s" "(t_factory s)\<lparr>f_mutex := f_mutex (t_factory s)\<rparr> = t_factory s"
    "s\<lparr>t_job := t_job s\<rparr> = s" "s\<lparr>t_cond := t_cond s\<rparr> = s" "(t_factory s)\<lparr>f_jobs := Null, f_heap := f_heap (t_factory s)\<rparr> = t_factory s"
    "s\<lparr>t_cond := c, t_job := t_job s\<rparr> = s\<lparr>t_cond := c\<rparr>" for c
    using nf(2) by (cases "t_factory s"; simp)+
  show ?thesis
  proof (cases "t_pcs s ! k")
    case FLock
    then show ?thesis
      using st k nf len go [of FBegin "t_job s ! k" True "t_cond s"] same by (auto simp: fworker_step_def Let_def split: if_splits)
  next
    case FBegin
    then show ?thesis
      using st k nf len go [of FWait "t_job s ! k" False "k # t_cond s"] same by (auto simp: fworker_step_def Let_def)
  next
    case FWait
    then show ?thesis
      using st k nf len go [of FTake "t_job s ! k" True "t_cond s"] same by (auto simp: fworker_step_def Let_def split: if_splits)
  next
    case FTake
    then show ?thesis
      using st k nf len go [of FUnlock Null "f_mutex (t_factory s)" "t_cond s"] same by (auto simp: fworker_step_def Let_def)
  next
    case FUnlock
    then show ?thesis
      using st k nf len job go [of FCheck "t_job s ! k" False "t_cond s"] same by (auto simp: fworker_step_def Let_def)
  next
    case FCheck
    then show ?thesis
      using st k nf len job go [of FExited "t_job s ! k" "f_mutex (t_factory s)" "t_cond s"]
        go [of FLock "t_job s ! k" "f_mutex (t_factory s)" "t_cond s"] same
      by (auto simp: fworker_step_def Let_def split: if_splits)
  qed (use k nf in auto)
qed

lemma plant_held_master:
  assumes i: "plant_held n s" and st: "factory_destroy_step s = Some r"
  shows "\<exists>s'. r = Inr s' \<and> plant_held n s'"
proof (cases "t_master s")
  case (MJoin j)
  then have "j \<le> n" "f_num (t_factory s) = n" using i by (simp_all add: plant_held_def)
  then show ?thesis
    using i st MJoin by (auto simp: factory_destroy_step_def plant_held_def Let_def less_Suc_eq split: if_splits)
qed (use i st in \<open>auto simp: factory_destroy_step_def plant_held_def Let_def split: if_splits\<close>)

lemma plant_held_any:
  assumes "(plant_any spurious)\<^sup>*\<^sup>* s s'" and "plant_held n s"
  shows "plant_held n s'"
  using assms
proof (induction rule: rtranclp_induct)
  case (step s1 s2)
  have h: "plant_held n s1" by (rule step.IH [OF step.prems])
  from step.hyps(2) show ?case
  proof cases
    case code
    then obtain t where "plant_step t s1 = Some (Inr s2)" by (rule plant_runE)
    then show ?thesis
      using plant_held_master [OF h] plant_held_worker [OF h] by (cases t) (fastforce simp: plant_step_def)+
  next
    case (wakes k)
    then show ?thesis using h by (simp add: plant_held_def)
  qed
qed simp

lemma plant_held_safe: "plant_held n s \<Longrightarrow> \<not> plant_crashes s"
  using plant_held_master [of n s] plant_held_worker [of n s]
  by (fastforce simp: plant_crashes_def plant_step_def split: option.splits)

lemma plant_held_stuck:
  assumes h: "plant_held n s" and st: "plant_stuck s"
  shows "t_master s = MDone \<and> set (t_pcs s) \<subseteq> {FExited} \<or> lost_worker s"
proof -
  have m: "factory_destroy_step s = None" and w: "\<And>k. fworker_step k s = None"
    using st unfolding plant_stuck_def plant_step_def by (metis option.simps(4), metis option.simps(5))
  have len: "length (t_pcs s) = n" "f_num (t_factory s) = n" using h by (simp_all add: plant_held_def)
  show ?thesis
  proof (cases "t_master s = MDone")
    case True
    then show ?thesis using h by (auto simp: plant_held_def in_set_conv_nth)
  next
    case False
    have fr: "\<not> t_freed s" using h False by (simp add: plant_held_def)
    have stop: "t_pcs s ! k = FExited \<or> t_pcs s ! k = FLock \<and> f_mutex (t_factory s) \<or>
        t_pcs s ! k = FWait \<and> (k \<in> set (t_cond s) \<or> f_mutex (t_factory s))" if "k < n" for k
      using w [of k] that len fr by (cases "t_pcs s ! k") (auto simp: fworker_step_def Let_def split: if_splits)
    have free: "\<not> f_mutex (t_factory s)"
    proof
      assume "f_mutex (t_factory s)"
      then have "t_master s \<in> {MClear, MBroadcast, MUnlock} \<or> (\<exists>k<n. t_pcs s ! k \<in> {FBegin, FTake, FUnlock})"
        using h by (simp add: plant_held_def)
      then show False using m stop by (fastforce simp: factory_destroy_step_def)
    qed
    then obtain j where j: "t_master s = MJoin j" "j < n" "t_pcs s ! j \<noteq> FExited"
      using m False len by (cases "t_master s") (auto simp: factory_destroy_step_def Let_def split: if_splits)
    then show ?thesis using stop [OF j(2)] free len by (auto simp: lost_worker_def)
  qed
qed

definition idle_factory :: "nat \<Rightarrow> factory" where
  "idle_factory n = \<lparr>f_num = n, f_block = Ptr 1 0, f_workers = replicate n \<lparr>w_status = WORKER_WORK, w_err = 0\<rparr>,
     f_jobs = Null, f_mutex = False, f_heap = \<lambda>_. None\<rparr>"

lemma idle_factory_simps [simp]:
  "f_num (idle_factory n) = n" "length (f_workers (idle_factory n)) = n" "\<not> f_mutex (idle_factory n)"
  by (simp_all add: idle_factory_def)

section \<open>Properties\<close>

text \<open>
  C9. Destroying a factory of any number of workers that all wait, or are all about to take the mutex, with no jobs
  pending. In every interleaving, wakeups for no reason included, no step is a fault, and there are only two
  kinds of state in which no thread can go on: the end, with the workers gone and freed, and those in
  which \<open>excom_factory_destroy\<close> joins a worker that waits for a broadcast that is over. The second takes a
  wakeup for no reason, or a worker that has not come to wait when the destruction begins; without either
  every schedule is finite, whatever jobs are pending, and so ends well.
\<close>

theorem factory_destroy_waiting:
  assumes "(plant_any spurious)\<^sup>*\<^sup>* (plant_start pc f) s" and "pc = FWait \<or> pc = FLock"
    and "f_jobs f = Null \<or> \<not> spurious \<and> pc = FWait" and "length (f_workers f) = f_num f" and "\<not> f_mutex f"
  shows "\<not> plant_crashes s \<and>
    (plant_stuck s \<longrightarrow> t_master s = MDone \<and> set (t_pcs s) \<subseteq> {FExited} \<or> (spurious \<or> pc = FLock) \<and> lost_worker s) \<and>
    (\<not> spurious \<and> pc = FWait \<longrightarrow> (\<forall>g. g 0 = s \<longrightarrow> (\<exists>i. \<not> plant_run (g i) (g (Suc i)))))"
proof (cases "\<not> spurious \<and> pc = FWait")
  case True
  then have "plant_run\<^sup>*\<^sup>* (plant_start FWait f) s" using plant_any_False assms(1) by simp
  then have i: "plant_inv (f_num f) s" using plant.reach plant_inv_start [OF assms(4,5)] by blast
  have "t_master s = MDone \<Longrightarrow> set (t_pcs s) \<subseteq> {FExited}" using i by (auto simp: plant_inv_def in_set_conv_nth)
  moreover have "\<exists>i. \<not> plant_run (g i) (g (Suc i))" if "g 0 = s" for g
    using plant.finite_run [of "f_num f" g] i that by simp
  ultimately show ?thesis
    using plant_inv_safe [OF i] plant_inv_progress [OF i] by blast
next
  case False
  then have "f_jobs f = Null" using assms(3) by blast
  then have h: "plant_held (f_num f) s"
    by (rule plant_held_any [OF assms(1) plant_held_start [OF _ assms(5,2)]])
  show ?thesis using False plant_held_safe [OF h] plant_held_stuck [OF h] assms(2) by blast
qed

theorem factory_destroy_waiting_witness:
  "\<exists>s. (plant_any False)\<^sup>*\<^sup>* (plant_start FWait (idle_factory 2)) s \<and> t_master s = MTerm 2 \<and> \<not> plant_crashes s"
proof -
  obtain s where s: "plant_schedule [None, None] (plant_start FWait (idle_factory 2)) = Some s" "t_master s = MTerm 2"
    by (simp add: plant_step_def factory_destroy_step_def plant_start_def Let_def)
  have r: "(plant_any False)\<^sup>*\<^sup>* (plant_start FWait (idle_factory 2)) s" by (rule plant_any_code [OF plant_schedule_run [OF s(1)]])
  from factory_destroy_waiting [OF r] show ?thesis using s(2) r by auto
qed

text \<open>
  A worker that is woken for no reason before the broadcast finds no job, goes back to its wait, and is not woken
  again.
\<close>

theorem factory_spurious_hangs:
  shows "\<exists>s. (plant_any True)\<^sup>*\<^sup>* (plant_start FWait (idle_factory 1)) s \<and> plant_stuck s \<and> lost_worker s"
proof -
  let ?s = "(plant_start FWait (idle_factory 1))\<lparr>t_cond := cond_wakes 0 [0]\<rparr>"
  have w: "plant_any True (plant_start FWait (idle_factory 1)) ?s"
    using plant_any.wakes [of True 0 "plant_start FWait (idle_factory 1)"] by (simp add: plant_start_def)
  let ?e = "\<lparr>t_factory = (idle_factory 1)\<lparr>f_workers := [\<lparr>w_status = WORKER_TERM, w_err = 0\<rparr>]\<rparr>, t_cond = [0], t_pcs = [FWait],
    t_job = [Null], t_ran = [], t_master = MJoin 0, t_freed = False\<rparr>"
  have r: "plant_schedule (replicate 4 (Some 0) @ replicate 6 None @ replicate 2 (Some 0)) ?s = Some ?e"
    by (simp add: numeral_eq_Suc plant_step_def factory_destroy_step_def fworker_step_def plant_start_def idle_factory_def cond_wakes_def Let_def)
  have "factory_destroy_step ?e = None" by (simp add: factory_destroy_step_def idle_factory_def)
  moreover have "fworker_step k ?e = None" for k by (cases k) (simp_all add: fworker_step_def)
  ultimately have "plant_stuck ?e" by (simp add: plant_stuck_def plant_step_def split: option.split)
  moreover have "lost_worker ?e" by (simp add: lost_worker_def)
  ultimately show ?thesis
    using plant_any_code [OF plant_schedule_run [OF r]] w by (meson converse_rtranclp_into_rtranclp)
qed

text \<open>
  C21. A worker that has not reached its wait when the factory is destroyed is never woken: it waits without
  looking at the list or at its status, so whatever happens from there on, \<open>excom_factory_destroy\<close> does
  not return.
\<close>

theorem factory_destroy_hangs:
  assumes "0 < f_num f" and "\<not> f_mutex f"
  shows "\<exists>s. plant_run\<^sup>*\<^sup>* (plant_start FLock f) s \<and> (\<forall>s'. plant_run\<^sup>*\<^sup>* s s' \<longrightarrow> t_master s' = MJoin 0 \<and> t_pcs s' ! 0 = FWait)"
proof -
  obtain s1 where s1: "plant_run\<^sup>*\<^sup>* (plant_start FLock f) s1" "t_master s1 = MLock" "t_pcs s1 = replicate (f_num f) FLock"
      "\<not> f_mutex (t_factory s1)" "f_num (t_factory s1) = f_num f" "\<not> t_freed s1"
    using master_terms [of "plant_start FLock f" 0] assms(2) by (auto simp: plant_start_def)
  obtain s2 where s2: "plant_schedule [None, None, None, None, Some 0, Some 0] s1 = Some s2" "hung s2"
    using s1(2-6) assms(1) by (simp add: plant_step_def factory_destroy_step_def fworker_step_def hung_def)
  have "plant_run\<^sup>*\<^sup>* (plant_start FLock f) s2" using s1(1) plant_schedule_run [OF s2(1)] by (rule rtranclp_trans)
  moreover have "t_master s' = MJoin 0 \<and> t_pcs s' ! 0 = FWait" if "plant_run\<^sup>*\<^sup>* s2 s'" for s'
    using hung_run [OF that s2(2)] by (simp add: hung_def)
  ultimately show ?thesis by blast
qed

theorem factory_destroy_hangs_witness:
  "\<exists>s. plant_run\<^sup>*\<^sup>* (plant_start FLock (idle_factory 3)) s \<and> t_master s = MJoin 0 \<and> t_pcs s ! 0 = FWait"
proof -
  obtain s where "plant_run\<^sup>*\<^sup>* (plant_start FLock (idle_factory 3)) s"
      "\<forall>s'. plant_run\<^sup>*\<^sup>* s s' \<longrightarrow> t_master s' = MJoin 0 \<and> t_pcs s' ! 0 = FWait"
    using factory_destroy_hangs [of "idle_factory 3"] by auto
  then show ?thesis by blast
qed



end
