(* ===== verification/Arrays.thy ===== *)
theory Arrays
  imports Loop
begin

text \<open>
  What the \<open>poll\<close> and \<open>select\<close> backends share: events as they are registered
  (\<open>inc/excom/event.h\<close>), and arrays that are malloc blocks of their own. An array is null or the
  list of its elements, each None until it is written.
\<close>

section \<open>Registered events\<close>

text \<open>
  The fields of \<open>excom_event_t\<close> the backends use. Events are structs of the callers; a pointer to
  one is its number.
\<close>

record reg =
  r_fd :: int
  r_flags :: u32
  r_data :: nat
  r_bdata :: size_t

text \<open>The event the runner gets: the descriptor, the flags that occurred, the data and the root.\<close>

record fired =
  fi_fd :: int
  fi_flags :: u32
  fi_data :: nat
  fi_root :: nat

section \<open>Arrays\<close>

type_synonym 'a array = "'a option list option"

definition arr_get :: "'a array \<Rightarrow> nat \<Rightarrow> 'a cmd" where
  "arr_get a i =
     (case a of
        None \<Rightarrow> fail NullDeref
      | Some xs \<Rightarrow> if i < length xs then (case xs ! i of None \<Rightarrow> fail BadMember | Some x \<Rightarrow> ret x) else fail OutOfBounds)"

definition arr_set :: "'a array \<Rightarrow> nat \<Rightarrow> 'a \<Rightarrow> 'a array cmd" where
  "arr_set a i x =
     (case a of
        None \<Rightarrow> fail NullDeref
      | Some xs \<Rightarrow> if i < length xs then ret (Some (xs[i := Some x])) else fail OutOfBounds)"

text \<open>\<open>memmove(a + dst, a + src, n)\<close> in elements.\<close>

definition arr_move :: "'a array \<Rightarrow> nat \<Rightarrow> nat \<Rightarrow> nat \<Rightarrow> 'a array cmd" where
  "arr_move a dst src n =
     (case a of
        None \<Rightarrow> fail NullDeref
      | Some xs \<Rightarrow> if dst + n \<le> length xs \<and> src + n \<le> length xs
                   then ret (Some (take dst xs @ take n (drop src xs) @ drop (dst + n) xs))
                   else fail OutOfBounds)"

text \<open>The size in bytes decides whether the allocation can succeed at all; otherwise the world does.\<close>

definition allocates :: "size_t \<Rightarrow> bool cmd" where
  "allocates bytes = (\<lambda>w.
     let w1 = w\<lparr>mallocs := tl (mallocs w)\<rparr>
     in if malloc_fails bytes w then Inr (False, w1\<lparr>errno := ENOMEM\<rparr>) else Inr (True, w1))"

definition arr_malloc :: "size_t \<Rightarrow> size_t \<Rightarrow> 'a array cmd" where
  "arr_malloc sz n = bind (allocates (sz * n)) (\<lambda>ok.
     ret (if ok then Some (replicate (unat n) None) else None))"

text \<open>When \<open>realloc\<close> fails the old array is lost to the caller, who overwrites its pointer.\<close>

definition arr_realloc :: "'a array \<Rightarrow> size_t \<Rightarrow> size_t \<Rightarrow> 'a array cmd" where
  "arr_realloc a sz n = bind (allocates (sz * n)) (\<lambda>ok.
     ret (if ok then (case a of None \<Rightarrow> Some (replicate (unat n) None)
                      | Some xs \<Rightarrow> Some (take (unat n) xs @ replicate (unat n - length xs) None)) else None))"

lemma arr_get_simps [simp]: "i < length xs \<Longrightarrow> xs ! i = Some x \<Longrightarrow> arr_get (Some xs) i = ret x"
  by (simp add: arr_get_def)

lemma arr_set_simps [simp]: "i < length xs \<Longrightarrow> arr_set (Some xs) i x = ret (Some (xs[i := Some x]))"
  by (simp add: arr_set_def)

lemma arr_move_up:
  assumes "i < n" and "n < length xs"
  shows "arr_move (Some xs) (Suc i) i (n - i) = ret (Some (take i xs @ [xs ! i] @ take (n - i) (drop i xs) @ drop (Suc n) xs))"
proof -
  have "take (Suc i) xs = take i xs @ [xs ! i]" using assms by (simp add: take_Suc_conv_app_nth)
  then show ?thesis using assms by (simp add: arr_move_def)
qed

lemma arr_move_full: "i < n \<Longrightarrow> n = length xs \<Longrightarrow> arr_move (Some xs) (Suc i) i (n - i) = fail OutOfBounds"
  by (simp add: arr_move_def)

lemma allocates_plenty: "plenty w \<Longrightarrow> n < 2 ^ 63 \<Longrightarrow> allocates n w = Inr (True, w)"
  by (simp add: allocates_def malloc_succeeds Let_def) (simp add: plenty_def)

lemma nth_moved:
  assumes "i < n" and "n < length xs" and "k < n"
  shows "(take i xs @ [xs ! i] @ take (n - i) (drop i xs) @ drop (Suc n) xs) ! k =
    (if k \<le> i then xs ! k else xs ! (k - 1))"
proof (cases "k \<le> i")
  case True
  then show ?thesis using assms by (cases "k = i") (simp_all add: nth_append)
next
  case False
  then obtain m where "k = Suc (i + m)" using less_iff_Suc_add [of i k] by auto
  moreover from this have "m < n - i" using assms by simp
  ultimately show ?thesis using assms by (simp add: nth_append)
qed

end
