(* ===== verification/Poll.thy ===== *)
theory Poll
  imports Arrays
begin

text \<open>
  The \<open>poll\<close> backend of the event loop, \<open>src/excom/event/poll.c\<close>. The base keeps an array of
  \<open>struct pollfd\<close> for the system call and a parallel array of pointers to the events; an event
  remembers its index in \<open>_bdata\<close>.
\<close>

section \<open>Model\<close>

record pollfd =
  pf_fd :: int
  pf_events :: "16 word"
  pf_revents :: "16 word"

record poll_base =
  pb_fds :: "pollfd array"
  pb_events :: "nat array"
  pb_nfds :: size_t
  pb_max :: size_t
  pb_loop :: bool
  pb_timeout :: int
  pb_heap :: "nat \<Rightarrow> reg"

abbreviation (input) POLL_SIZE :: size_t where "POLL_SIZE \<equiv> 8"
abbreviation (input) EVENT_SIZE :: size_t where "EVENT_SIZE \<equiv> 8"
abbreviation (input) POLL_INITIAL_SIZE :: size_t where "POLL_INITIAL_SIZE \<equiv> 16"

definition excom_event_base_poll_init :: "poll_base \<Rightarrow> (int \<times> poll_base) cmd" where
  "excom_event_base_poll_init base =
     bind (arr_malloc POLL_SIZE POLL_INITIAL_SIZE) (\<lambda>fds.
     bind (arr_malloc EVENT_SIZE POLL_INITIAL_SIZE) (\<lambda>events.
     let base = base\<lparr>pb_loop := True, pb_fds := fds, pb_events := events, pb_nfds := 0,
       pb_max := POLL_INITIAL_SIZE, pb_timeout := 500\<rparr> in
     if fds = None \<or> events = None then bind excom_return_errno (\<lambda>err. ret (err, base))
     else bind mutex_init (\<lambda>err. ret (err, base))))"

definition excom_event_base_poll_destroy :: "poll_base \<Rightarrow> (int \<times> poll_base) cmd" where
  "excom_event_base_poll_destroy base =
     ret (0, base\<lparr>pb_loop := False, pb_nfds := 0, pb_max := 0, pb_fds := None, pb_events := None\<rparr>)"

text \<open>The two fields for the flags are of type \<open>short\<close>. A registration is checked by:
  \<open>index > base->nfds || base->events[index]->fd != event->fd\<close>\<close>

definition poll_not_registered :: "poll_base \<Rightarrow> nat \<Rightarrow> bool cmd" where
  "poll_not_registered base ev =
     (let index = r_bdata (pb_heap base ev) in
      if pb_nfds base < index then ret True
      else bind (arr_get (pb_events base) (unat index)) (\<lambda>e. ret (r_fd (pb_heap base e) \<noteq> r_fd (pb_heap base ev))))"

definition excom_event_poll_update :: "poll_base \<Rightarrow> nat \<Rightarrow> (int \<times> poll_base) cmd" where
  "excom_event_poll_update base ev =
     bind (poll_not_registered base ev) (\<lambda>bad.
     if bad then ret (EINVAL, base)
     else
       let index = unat (r_bdata (pb_heap base ev)) in
       bind (arr_get (pb_fds base) index) (\<lambda>p.
       bind (arr_set (pb_fds base) index (p\<lparr>pf_events := ucast (r_flags (pb_heap base ev))\<rparr>)) (\<lambda>fds.
       ret (0, base\<lparr>pb_fds := fds\<rparr>))))"

text \<open>Both arrays get the new capacity; a failure leaves a null pointer behind.\<close>

definition poll_resize :: "poll_base \<Rightarrow> size_t \<Rightarrow> (int \<times> poll_base) cmd" where
  "poll_resize base n =
     bind (arr_realloc (pb_fds base) POLL_SIZE n) (\<lambda>fds.
     bind (arr_realloc (pb_events base) EVENT_SIZE n) (\<lambda>events.
     let base = base\<lparr>pb_max := n, pb_fds := fds, pb_events := events\<rparr> in
     if fds = None \<or> events = None then bind excom_return_errno (\<lambda>err. ret (err, base)) else ret (0, base)))"

definition excom_event_poll_add :: "poll_base \<Rightarrow> nat \<Rightarrow> (int \<times> poll_base) cmd" where
  "excom_event_poll_add base ev =
     bind (if pb_max base < pb_nfds base + 1 then bind (poll_resize base (pb_max base * 2)) (\<lambda>(err, base). ret (pb_fds base = None \<or> pb_events base = None, err, base))
           else ret (False, 0, base)) (\<lambda>(failed, err, base).
     if failed then ret (err, base)
     else
       let r = (pb_heap base ev)\<lparr>r_bdata := pb_nfds base\<rparr> in
       bind (arr_set (pb_events base) (unat (pb_nfds base)) ev) (\<lambda>events.
       bind (arr_set (pb_fds base) (unat (pb_nfds base))
               \<lparr>pf_fd = r_fd r, pf_events = ucast (r_flags r), pf_revents = 0\<rparr>) (\<lambda>fds.
       ret (0, base\<lparr>pb_fds := fds, pb_events := events, pb_nfds := pb_nfds base + 1,
         pb_heap := (pb_heap base)(ev := r)\<rparr>))))"

text \<open>The two calls of \<open>memmove\<close> have the next element as their destination.\<close>

definition excom_event_poll_remove :: "poll_base \<Rightarrow> nat \<Rightarrow> (int \<times> poll_base) cmd" where
  "excom_event_poll_remove base ev =
     bind (poll_not_registered base ev) (\<lambda>bad.
     if bad then ret (EINVAL, base)
     else
       let index = r_bdata (pb_heap base ev) in
       bind (if index + 1 < pb_nfds base then
               bind (arr_move (pb_fds base) (unat (index + 1)) (unat index) (unat (pb_nfds base - index))) (\<lambda>fds.
               bind (arr_move (pb_events base) (unat (index + 1)) (unat index) (unat (pb_nfds base - index))) (\<lambda>events.
               ret (base\<lparr>pb_fds := fds, pb_events := events\<rparr>)))
             else ret base) (\<lambda>base.
       let base = base\<lparr>pb_nfds := pb_nfds base - 1\<rparr> in
       if pb_nfds base < pb_max base div 2 then poll_resize base (pb_max base div 2) else ret (0, base)))"

text \<open>
  The loop. \<open>sys\<close> is the system call: from the base it gives its result, the error number and the
  \<open>revents\<close> of the descriptors. \<open>run\<close> is the runner.
\<close>

definition poll_dispatch_step :: "(fired \<Rightarrow> poll_base \<Rightarrow> poll_base cmd) \<Rightarrow> int \<Rightarrow>
    nat \<times> int \<times> poll_base \<Rightarrow> (bool \<times> nat \<times> int \<times> poll_base) cmd" where
  "poll_dispatch_step run n x =
     (case x of (i, e, base) \<Rightarrow>
        if \<not> (e < n \<and> i < unat (pb_nfds base)) then ret (False, x)
        else
          bind (arr_get (pb_fds base) i) (\<lambda>p.
          if pf_revents p = 0 then ret (True, Suc i, e, base)
          else
            bind (arr_get (pb_events base) i) (\<lambda>root.
            let r = pb_heap base root in
            bind (run \<lparr>fi_fd = r_fd r, fi_flags = scast (pf_revents p), fi_data = r_data r, fi_root = root\<rparr> base) (\<lambda>base.
            bind (arr_get (pb_fds base) i) (\<lambda>p.
            bind (arr_set (pb_fds base) i (p\<lparr>pf_revents := 0\<rparr>)) (\<lambda>fds.
            ret (True, Suc i, e + 1, base\<lparr>pb_fds := fds\<rparr>)))))))"

definition poll_loop_step :: "(poll_base \<Rightarrow> (int \<times> int \<times> pollfd array) cmd) \<Rightarrow>
    (fired \<Rightarrow> poll_base \<Rightarrow> poll_base cmd) \<Rightarrow> poll_base \<Rightarrow> (bool \<times> poll_base) cmd" where
  "poll_loop_step sys run base =
     (if \<not> pb_loop base then ret (False, base)
      else
        bind (sys base) (\<lambda>(n, err, fds).
        let base = base\<lparr>pb_fds := fds, pb_loop := pb_loop base \<and> \<not> (n < 0 \<and> err = EINTR)\<rparr> in
        bind (loop (poll_dispatch_step run n) (0, 0, base)) (\<lambda>(_, _, base). ret (True, base))))"

definition excom_event_poll_loop :: "(poll_base \<Rightarrow> (int \<times> int \<times> pollfd array) cmd) \<Rightarrow>
    (fired \<Rightarrow> poll_base \<Rightarrow> poll_base cmd) \<Rightarrow> poll_base \<Rightarrow> poll_base cmd" where
  "excom_event_poll_loop sys run base = loop (poll_loop_step sys run) base"

definition excom_event_poll_loop_end :: "poll_base \<Rightarrow> poll_base" where
  "excom_event_poll_loop_end base = base\<lparr>pb_loop := False\<rparr>"

end
