(* ===== verification/PollProps.thy ===== *)
theory PollProps
  imports Poll
begin

text \<open>The invariant of the \<open>poll\<close> backend, and what its operations do to the registered events.\<close>

section \<open>The registered events\<close>

text \<open>
  Both arrays have the capacity \<open>pb_max\<close>; the first \<open>pb_nfds\<close> entries are the events \<open>evs\<close>, each of
  which knows its index.
\<close>

definition polls :: "poll_base \<Rightarrow> nat list \<Rightarrow> bool" where
  "polls base evs \<longleftrightarrow>
     (\<exists>fs es. pb_fds base = Some fs \<and> pb_events base = Some es \<and> length fs = unat (pb_max base) \<and>
        length es = unat (pb_max base) \<and> length evs = unat (pb_nfds base) \<and> pb_nfds base \<le> pb_max base \<and>
        0 < pb_max base \<and> unat (pb_max base) < 2 ^ 58 \<and>
        (\<forall>i < length evs. es ! i = Some (evs ! i) \<and> r_bdata (pb_heap base (evs ! i)) = of_nat i \<and>
           (\<exists>p. fs ! i = Some p \<and> pf_fd p = r_fd (pb_heap base (evs ! i)))))"

text \<open>What the system call is asked about the event number \<open>i\<close>.\<close>

definition asked :: "poll_base \<Rightarrow> nat \<Rightarrow> int \<times> 16 word" where
  "asked base i = (case pb_fds base of None \<Rightarrow> (0, 0) | Some fs \<Rightarrow> (pf_fd (the (fs ! i)), pf_events (the (fs ! i))))"

lemma pollsE:
  assumes "polls base evs"
  obtains fs es where "pb_fds base = Some fs" "pb_events base = Some es" "length fs = unat (pb_max base)"
    "length es = unat (pb_max base)" "length evs = unat (pb_nfds base)" "unat (pb_nfds base) \<le> unat (pb_max base)"
    "0 < unat (pb_max base)" "unat (pb_max base) < 2 ^ 58"
    "\<And>i. i < length evs \<Longrightarrow> es ! i = Some (evs ! i)"
    "\<And>i. i < length evs \<Longrightarrow> r_bdata (pb_heap base (evs ! i)) = of_nat i"
    "\<And>i. i < length evs \<Longrightarrow> \<exists>p. fs ! i = Some p \<and> pf_fd p = r_fd (pb_heap base (evs ! i))"
  using assms unfolding polls_def by (auto simp: word_le_nat_alt word_less_nat_alt)

lemma polls_index:
  assumes "polls base evs" and "i < length evs"
  shows "unat (r_bdata (pb_heap base (evs ! i))) = i" and "r_bdata (pb_heap base (evs ! i)) < pb_nfds base"
proof -
  have "i < 2 ^ 64" using assms by (elim pollsE) simp
  then show u: "unat (r_bdata (pb_heap base (evs ! i))) = i"
    using assms by (elim pollsE) (simp add: unat_of_nat)
  show "r_bdata (pb_heap base (evs ! i)) < pb_nfds base"
    using u assms by (elim pollsE) (simp add: word_less_nat_alt)
qed

lemma polls_distinct: "polls base evs \<Longrightarrow> distinct evs"
  unfolding distinct_conv_nth using polls_index(1) by metis

lemma registered_check:
  assumes "polls base evs" and "i < length evs"
  shows "poll_not_registered base (evs ! i) = ret False"
proof -
  have "\<not> pb_nfds base < r_bdata (pb_heap base (evs ! i))" using polls_index(2) [OF assms] by simp
  then show ?thesis
    using assms polls_index(1) [OF assms]
    by (elim pollsE) (simp add: poll_not_registered_def)
qed

lemma poll_resize_run:
  assumes "plenty w" and "unat n < 2 ^ 59"
  shows "poll_resize base n w = Inr ((0, base\<lparr>pb_max := n,
    pb_fds := Some (case pb_fds base of None \<Rightarrow> replicate (unat n) None
      | Some xs \<Rightarrow> take (unat n) xs @ replicate (unat n - length xs) None),
    pb_events := Some (case pb_events base of None \<Rightarrow> replicate (unat n) None
      | Some xs \<Rightarrow> take (unat n) xs @ replicate (unat n - length xs) None)\<rparr>), w)"
proof -
  have "unat (8 * n) = 8 * unat n" using assms(2) by (simp add: unat_word_ariths)
  then have "8 * n < 2 ^ 63" using assms(2) by (simp add: word_less_nat_alt)
  then have "allocates (8 * n) w = Inr (True, w)" by (rule allocates_plenty [OF assms(1)])
  then show ?thesis
    by (auto simp: poll_resize_def arr_realloc_def bind_def ret_def Let_def split: option.splits)
qed

text \<open>The capacity check of \<open>excom_event_poll_add\<close>.\<close>

definition room_for_one :: "poll_base \<Rightarrow> (bool \<times> int \<times> poll_base) cmd" where
  "room_for_one base =
     (if pb_max base < pb_nfds base + 1
      then bind (poll_resize base (pb_max base * 2)) (\<lambda>(err, base). ret (pb_fds base = None \<or> pb_events base = None, err, base))
      else ret (False, 0, base))"

lemma room_for_one:
  assumes p: "polls base evs" and w: "plenty w" and m: "unat (pb_max base) < 2 ^ 57"
  shows "\<exists>base'. room_for_one base w = Inr ((False, 0, base'), w) \<and> polls base' evs \<and> pb_heap base' = pb_heap base \<and>
    pb_nfds base' = pb_nfds base \<and> unat (pb_nfds base) < unat (pb_max base') \<and>
    (\<forall>i < length evs. asked base' i = asked base i)"
proof -
  obtain fs es where a: "pb_fds base = Some fs" "pb_events base = Some es" "length fs = unat (pb_max base)"
    "length es = unat (pb_max base)" "length evs = unat (pb_nfds base)" "unat (pb_nfds base) \<le> unat (pb_max base)"
    "0 < unat (pb_max base)" "\<And>i. i < length evs \<Longrightarrow> es ! i = Some (evs ! i)"
    "\<And>i. i < length evs \<Longrightarrow> r_bdata (pb_heap base (evs ! i)) = of_nat i"
    "\<And>i. i < length evs \<Longrightarrow> \<exists>p. fs ! i = Some p \<and> pf_fd p = r_fd (pb_heap base (evs ! i))"
    by (rule pollsE [OF p]) blast
  have u: "unat (pb_nfds base + 1) = Suc (unat (pb_nfds base))"
    using a(6) m by (simp add: unat_plus_no_overflow)
  show ?thesis
  proof (cases "unat (pb_nfds base) < unat (pb_max base)")
    case True
    then have "\<not> pb_max base < pb_nfds base + 1" using u by (simp add: word_less_nat_alt)
    then show ?thesis using p True by (simp add: room_for_one_def ret_def)
  next
    case False
    then have full: "pb_max base < pb_nfds base + 1" "unat (pb_nfds base) = unat (pb_max base)"
      using u a(6) by (simp_all add: word_less_nat_alt)
    have d: "unat (pb_max base * 2) = 2 * unat (pb_max base)" using m by (simp add: unat_word_ariths)
    let ?n = "unat (pb_max base)"
    let ?b = "base\<lparr>pb_max := pb_max base * 2, pb_fds := Some (fs @ replicate ?n None), pb_events := Some (es @ replicate ?n None)\<rparr>"
    have r: "poll_resize base (pb_max base * 2) w = Inr ((0, ?b), w)"
      using poll_resize_run [OF w, of "pb_max base * 2" base] d m a(1-4) by simp
    then have run: "room_for_one base w = Inr ((False, 0, ?b), w)"
      using full(1) by (simp add: room_for_one_def bind_def ret_def)
    have "polls ?b evs"
      unfolding polls_def
      using a d m full by (intro exI [of _ "fs @ replicate ?n None"] exI [of _ "es @ replicate ?n None"])
        (auto simp: nth_append word_le_nat_alt word_less_nat_alt)
    moreover have "\<forall>i < length evs. asked ?b i = asked base i"
      using a by (auto simp: asked_def nth_append)
    ultimately show ?thesis
      using run full(2) d a(7) by (intro exI [of _ ?b]) simp
  qed
qed

lemma poll_add_run:
  assumes p: "polls base evs" and w: "plenty w" and m: "unat (pb_max base) < 2 ^ 57" and new: "ev \<notin> set evs"
  shows "\<exists>base'. excom_event_poll_add base ev w = Inr ((0, base'), w) \<and> polls base' (evs @ [ev]) \<and>
    asked base' (length evs) = (r_fd (pb_heap base ev), ucast (r_flags (pb_heap base ev))) \<and>
    (\<forall>i < length evs. asked base' i = asked base i)"
proof -
  obtain b where b: "room_for_one base w = Inr ((False, 0, b), w)" "polls b evs" "pb_heap b = pb_heap base"
    "unat (pb_nfds b) < unat (pb_max b)" "\<And>i. i < length evs \<Longrightarrow> asked b i = asked base i"
    using room_for_one [OF p w m] by auto
  obtain fs es where a: "pb_fds b = Some fs" "pb_events b = Some es" "length fs = unat (pb_max b)"
    "length es = unat (pb_max b)" "length evs = unat (pb_nfds b)" "unat (pb_max b) < 2 ^ 58" "0 < unat (pb_max b)"
    "\<And>i. i < length evs \<Longrightarrow> es ! i = Some (evs ! i)"
    "\<And>i. i < length evs \<Longrightarrow> r_bdata (pb_heap b (evs ! i)) = of_nat i"
    "\<And>i. i < length evs \<Longrightarrow> \<exists>p. fs ! i = Some p \<and> pf_fd p = r_fd (pb_heap b (evs ! i))"
    by (rule pollsE [OF b(2)]) blast
  let ?n = "unat (pb_nfds b)" and ?r = "(pb_heap b ev)\<lparr>r_bdata := pb_nfds b\<rparr>"
  let ?f = "\<lparr>pf_fd = r_fd ?r, pf_events = ucast (r_flags ?r), pf_revents = 0\<rparr>"
  let ?b = "b\<lparr>pb_fds := Some (fs[?n := Some ?f]), pb_events := Some (es[?n := Some ev]), pb_nfds := pb_nfds b + 1,
     pb_heap := (pb_heap b)(ev := ?r)\<rparr>"
  have run: "excom_event_poll_add base ev w = Inr ((0, ?b), w)"
    unfolding excom_event_poll_add_def room_for_one_def [symmetric]
    using b(1,4) a(1-4) by (simp add: bind_Inr Let_def) (simp add: ret_def)
  have u: "unat (pb_nfds b + 1) = Suc ?n" using b(4) a(6) by (simp add: unat_plus_no_overflow)
  have ne: "i < length evs \<Longrightarrow> evs ! i \<noteq> ev" for i using new by auto
  have pf: "pf_fd (the (fs ! i)) = r_fd (pb_heap b (evs ! i))" if "i < length evs" for i using a(10) [OF that] by auto
  have "polls ?b (evs @ [ev])"
    unfolding polls_def
  proof (intro exI conjI allI impI)
    show "pb_nfds ?b \<le> pb_max ?b" using b(4) u by (simp add: word_le_nat_alt)
    fix i assume i: "i < length (evs @ [ev])"
    show "(es[?n := Some ev]) ! i = Some ((evs @ [ev]) ! i)"
      using i a(4,5,8) b(4) by (auto simp: nth_append nth_list_update less_Suc_eq)
    show "r_bdata (pb_heap ?b ((evs @ [ev]) ! i)) = of_nat i"
      using i a(5,9) ne by (auto simp: nth_append less_Suc_eq)
    show "(fs[?n := Some ?f]) ! i = Some (if i < length evs then the (fs ! i) else ?f)"
      using i a(3,5,10) b(4) by (auto simp: nth_list_update less_Suc_eq) fastforce
    show "pf_fd (if i < length evs then the (fs ! i) else ?f) = r_fd (pb_heap ?b ((evs @ [ev]) ! i))"
      using i pf ne a(5) by (auto simp: nth_append less_Suc_eq)
  qed (use a u in \<open>simp_all add: word_less_nat_alt\<close>)
  moreover have "asked ?b (length evs) = (r_fd (pb_heap base ev), ucast (r_flags (pb_heap base ev)))"
    using a(3,5) b(3,4) by (simp add: asked_def)
  moreover have "\<forall>i < length evs. asked ?b i = asked base i"
    using a(1,5) b(5) by (auto simp: asked_def)
  ultimately show ?thesis using run by blast
qed

section \<open>Removing\<close>

text \<open>The capacity check at the end of \<open>excom_event_poll_remove\<close>.\<close>

definition give_back :: "poll_base \<Rightarrow> (int \<times> poll_base) cmd" where
  "give_back base =
     (if pb_nfds base < pb_max base div 2 then poll_resize base (pb_max base div 2) else ret (0, base))"

lemma give_back_run:
  assumes a: "pb_fds base = Some fs" "pb_events base = Some es" "length fs = unat (pb_max base)" "length es = unat (pb_max base)"
    and w: "plenty w" and m: "unat (pb_max base) < 2 ^ 58" and le: "pb_nfds base \<le> pb_max base"
  shows "\<exists>base' n. give_back base w = Inr ((0, base'), w) \<and> base' = base\<lparr>pb_max := pb_max base', pb_fds := Some (take n fs), pb_events := Some (take n es)\<rparr> \<and>
    n = unat (pb_max base') \<and> unat (pb_nfds base) \<le> n \<and> n \<le> unat (pb_max base) \<and> (0 < unat (pb_max base) \<longrightarrow> 0 < n)"
proof (cases "pb_nfds base < pb_max base div 2")
  case True
  have d: "unat (pb_max base div 2) = unat (pb_max base) div 2" by (simp add: unat_div)
  have r: "poll_resize base (pb_max base div 2) w =
      Inr ((0, base\<lparr>pb_max := pb_max base div 2, pb_fds := Some (take (unat (pb_max base div 2)) fs),
        pb_events := Some (take (unat (pb_max base div 2)) es)\<rparr>), w)"
    using poll_resize_run [OF w, of "pb_max base div 2" base] a m d by simp
  have n: "unat (pb_nfds base) < unat (pb_max base) div 2" using True d by (simp add: word_less_nat_alt)
  show ?thesis
    unfolding give_back_def if_P [OF True] r
    by (intro exI conjI) (rule refl, use d n in auto)
next
  case False
  have "base\<lparr>pb_max := pb_max base, pb_fds := Some fs, pb_events := Some es\<rparr> = base"
    using a(1,2) by (cases base) simp
  then show ?thesis
    unfolding give_back_def if_not_P [OF False] using a le
    by (intro exI [of _ base] exI [of _ "unat (pb_max base)"]) (simp add: ret_def word_le_nat_alt)
qed

lemma poll_remove_shape:
  assumes p: "polls base evs" and i: "i < length evs"
  shows "excom_event_poll_remove base (evs ! i) =
    bind (if Suc i < length evs then
            bind (arr_move (pb_fds base) (Suc i) i (length evs - i)) (\<lambda>fds.
            bind (arr_move (pb_events base) (Suc i) i (length evs - i)) (\<lambda>events.
            ret (base\<lparr>pb_fds := fds, pb_events := events\<rparr>)))
          else ret base) (\<lambda>base. give_back (base\<lparr>pb_nfds := pb_nfds base - 1\<rparr>))"
proof -
  have n: "length evs = unat (pb_nfds base)" "unat (pb_nfds base) < 2 ^ 58" using p by (auto elim!: pollsE)
  note x = polls_index [OF p i]
  have "unat (r_bdata (pb_heap base (evs ! i)) + 1) = Suc i"
    using x(1) i n by (simp add: unat_plus_no_overflow)
  moreover have "unat (pb_nfds base - r_bdata (pb_heap base (evs ! i))) = length evs - i"
    using x n by (simp add: unat_sub order_less_imp_le)
  ultimately show ?thesis
    by (simp add: excom_event_poll_remove_def registered_check [OF p i] Let_def word_less_nat_alt x(1) n(1) give_back_def)
qed

lemma nfds_minus:
  assumes "polls base evs" and "evs \<noteq> []"
  shows "unat (pb_nfds base - 1) = length evs - 1"
proof -
  have n: "length evs = unat (pb_nfds base)" using assms(1) by (auto elim!: pollsE)
  then have "pb_nfds base \<noteq> 0" using assms(2) by auto
  then show ?thesis using n by (simp add: unat_minus_one)
qed

lemma poll_remove_last_run:
  assumes p: "polls base (evs @ [ev])" and w: "plenty w"
  shows "\<exists>base'. excom_event_poll_remove base ev w = Inr ((0, base'), w) \<and> polls base' evs \<and>
    (\<forall>i < length evs. asked base' i = asked base i)"
proof -
  obtain fs es where a: "pb_fds base = Some fs" "pb_events base = Some es" "length fs = unat (pb_max base)"
    "length es = unat (pb_max base)" "length (evs @ [ev]) = unat (pb_nfds base)" "unat (pb_nfds base) \<le> unat (pb_max base)"
    "0 < unat (pb_max base)" "unat (pb_max base) < 2 ^ 58" "\<And>i. i < length (evs @ [ev]) \<Longrightarrow> es ! i = Some ((evs @ [ev]) ! i)"
    "\<And>i. i < length (evs @ [ev]) \<Longrightarrow> r_bdata (pb_heap base ((evs @ [ev]) ! i)) = of_nat i"
    "\<And>i. i < length (evs @ [ev]) \<Longrightarrow> \<exists>p. fs ! i = Some p \<and> pf_fd p = r_fd (pb_heap base ((evs @ [ev]) ! i))"
    by (rule pollsE [OF p]) blast
  let ?b = "base\<lparr>pb_nfds := pb_nfds base - 1\<rparr>"
  have n: "unat (pb_nfds base - 1) = length evs" using nfds_minus [OF p] by simp
  have run: "excom_event_poll_remove base ev = give_back ?b"
    using poll_remove_shape [OF p, of "length evs"] by simp
  obtain base' n' where b: "give_back ?b w = Inr ((0, base'), w)"
      "base' = ?b\<lparr>pb_max := pb_max base', pb_fds := Some (take n' fs), pb_events := Some (take n' es)\<rparr>"
      "n' = unat (pb_max base')" "length evs \<le> n'" "n' \<le> unat (pb_max base)" "0 < n'"
    using give_back_run [of ?b fs es w] a n w by (auto simp: word_le_nat_alt)
  have "polls base' evs"
    unfolding polls_def
  proof (intro exI conjI allI impI)
    show "pb_fds base' = Some (take n' fs)" "pb_events base' = Some (take n' es)"
      by (subst b(2), simp)+
    show "length (take n' fs) = unat (pb_max base')" "length (take n' es) = unat (pb_max base')"
      using a(3,4) b(3,5) by simp_all
    show "length evs = unat (pb_nfds base')" by (subst b(2)) (simp add: n)
    then show "pb_nfds base' \<le> pb_max base'" using b(3,4) by (simp add: word_le_nat_alt)
    show "0 < pb_max base'" "unat (pb_max base') < 2 ^ 58" using b(3,5,6) a(8) by (simp_all add: word_less_nat_alt)
    have heap: "pb_heap base' = pb_heap base" by (subst b(2)) simp
    fix i assume i: "i < length evs"
    show "take n' es ! i = Some (evs ! i)" using a(9) [of i] i b(4) by (simp add: nth_append)
    show "r_bdata (pb_heap base' (evs ! i)) = of_nat i" using a(10) [of i] i by (simp add: nth_append heap)
    show "take n' fs ! i = Some (the (fs ! i))" "pf_fd (the (fs ! i)) = r_fd (pb_heap base' (evs ! i))"
      using a(11) [of i] i b(4) by (auto simp: nth_append heap)
  qed
  moreover have "\<forall>i < length evs. asked base' i = asked base i"
    by (subst b(2)) (use a(1) b(4) in \<open>simp add: asked_def\<close>)
  ultimately show ?thesis using run b(1) by auto
qed


section \<open>Properties\<close>

text \<open>
  C24. The \<open>poll\<close> backend as a set of events: adding a new event keeps the bookkeeping of the base and
  asks the system call for exactly the flags of the event, cut to 16 bits, besides what it was asked
  before; removing the event that was added last takes it back.
\<close>

theorem poll_add_remove:
  assumes "polls base evs" and "plenty w" and "unat (pb_max base) < 2 ^ 57" and "ev \<notin> set evs"
  shows "\<exists>base1 base2. excom_event_poll_add base ev w = Inr ((0, base1), w) \<and> polls base1 (evs @ [ev]) \<and>
    asked base1 (length evs) = (r_fd (pb_heap base ev), ucast (r_flags (pb_heap base ev))) \<and>
    excom_event_poll_remove base1 ev w = Inr ((0, base2), w) \<and> polls base2 evs \<and>
    (\<forall>i < length evs. asked base1 i = asked base i \<and> asked base2 i = asked base i)"
proof -
  obtain base1 where one: "excom_event_poll_add base ev w = Inr ((0, base1), w)" "polls base1 (evs @ [ev])"
      "asked base1 (length evs) = (r_fd (pb_heap base ev), ucast (r_flags (pb_heap base ev)))"
      "\<forall>i < length evs. asked base1 i = asked base i"
    using poll_add_run [OF assms] by blast
  from poll_remove_last_run [OF this(2) assms(2)] one show ?thesis by fastforce
qed

definition poll_example :: "nat \<Rightarrow> nat \<Rightarrow> poll_base" where
  "poll_example n m = \<lparr>pb_fds = Some (map (\<lambda>i. Some \<lparr>pf_fd = int i, pf_events = 1, pf_revents = 0\<rparr>) [0..<n] @ replicate m None),
     pb_events = Some (map Some [0..<n] @ replicate m None), pb_nfds = of_nat n, pb_max = of_nat (n + m), pb_loop = True,
     pb_timeout = 500, pb_heap = (\<lambda>i. \<lparr>r_fd = int i, r_flags = 1, r_data = 0, r_bdata = of_nat i\<rparr>)\<rparr>"

lemma poll_example_ok:
  assumes "0 < n + m" and "n + m < 100"
  shows "polls (poll_example n m) [0..<n]"
proof -
  have "unat (of_nat (n + m) :: size_t) = n + m" using assms(2) by (simp only: unat_of_nat) simp
  then show ?thesis
    using assms by (auto simp: polls_def poll_example_def nth_append unat_of_nat word_le_nat_alt word_less_nat_alt)
qed

lemma poll_example_2: "m < 90 \<Longrightarrow> polls (poll_example 2 m) [0, 1]"
  using poll_example_ok [of 2 m] by (simp add: numeral_2_eq_2)

theorem poll_add_remove_witness:
  "\<exists>base1 base2. excom_event_poll_add (poll_example 2 1) 7 idle_world = Inr ((0, base1), idle_world) \<and> asked base1 2 = (7, 1) \<and>
     excom_event_poll_remove base1 7 idle_world = Inr ((0, base2), idle_world) \<and> polls base2 [0, 1]"
proof -
  have "\<exists>base1 base2. excom_event_poll_add (poll_example 2 1) 7 idle_world = Inr ((0, base1), idle_world) \<and>
      polls base1 ([0, 1] @ [7]) \<and> asked base1 (length [0 :: nat, 1]) = (r_fd (pb_heap (poll_example 2 1) 7), ucast (r_flags (pb_heap (poll_example 2 1) 7))) \<and>
      excom_event_poll_remove base1 7 idle_world = Inr ((0, base2), idle_world) \<and> polls base2 [0, 1] \<and>
      (\<forall>i < length [0 :: nat, 1]. asked base1 i = asked (poll_example 2 1) i \<and> asked base2 i = asked (poll_example 2 1) i)"
    by (rule poll_add_remove [OF poll_example_2]) (simp_all add: poll_example_def plenty_def idle_world_def)
  then show ?thesis by (auto simp: poll_example_def numeral_2_eq_2)
qed



text \<open>
  When the arrays are full, removing any event but the last one moves the entries beyond the end of
  the array.
\<close>

theorem poll_remove_overflows:
  assumes "polls base evs" and "Suc i < length evs" and "pb_nfds base = pb_max base"
  shows "excom_event_poll_remove base (evs ! i) w = Inl OutOfBounds"
proof -
  obtain fs where a: "pb_fds base = Some fs" "length fs = length evs"
    by (rule pollsE [OF assms(1)]) (simp add: assms(3))
  have i: "i < length evs" using assms(2) by simp
  show ?thesis
    using poll_remove_shape [OF assms(1) i] assms(2) a arr_move_full [OF i, of fs] by (simp add: bind_def fail_def)
qed

theorem poll_remove_overflows_witness:
  "excom_event_poll_remove (poll_example 2 0) 0 idle_world = Inl OutOfBounds"
proof -
  have "excom_event_poll_remove (poll_example 2 0) ([0, 1] ! 0) idle_world = Inl OutOfBounds"
    by (rule poll_remove_overflows [OF poll_example_2]) (simp_all add: poll_example_def)
  then show ?thesis by simp
qed

end
