(* ===== verification/Select.thy ===== *)
theory Select
  imports Arrays
begin

text \<open>
  The \<open>select\<close> backend of the event loop, \<open>src/excom/event/select.c\<close>. The base keeps an array of
  pointers to the events, some of which may be null; an event remembers its index in \<open>_bdata\<close>.
\<close>

section \<open>Model\<close>

record select_base =
  sb_mutex :: mutex
  sb_nfds :: size_t
  sb_max :: size_t
  sb_events :: "nat option array"
  sb_loop :: bool
  sb_heap :: "nat \<Rightarrow> reg"

abbreviation (input) SELECT_SIZE :: size_t where "SELECT_SIZE \<equiv> 8"
abbreviation (input) SELECT_INITIAL_SIZE :: size_t where "SELECT_INITIAL_SIZE \<equiv> 16"
abbreviation (input) SELECT_READ :: u32 where "SELECT_READ \<equiv> 2"
abbreviation (input) SELECT_WRITE :: u32 where "SELECT_WRITE \<equiv> 4"
abbreviation (input) SELECT_ERROR :: u32 where "SELECT_ERROR \<equiv> 8"
abbreviation (input) SELECT_CLOSE :: u32 where "SELECT_CLOSE \<equiv> 16"
abbreviation (input) FD_SETSIZE :: int where "FD_SETSIZE \<equiv> 1024"

definition excom_event_base_select_init :: "select_base \<Rightarrow> (int \<times> select_base) cmd" where
  "excom_event_base_select_init base =
     bind (arr_malloc SELECT_SIZE SELECT_INITIAL_SIZE) (\<lambda>events.
     let base = base\<lparr>sb_nfds := 0, sb_max := SELECT_INITIAL_SIZE, sb_events := events, sb_loop := True\<rparr> in
     if events = None then bind excom_return_errno (\<lambda>err. ret (err, base))
     else bind mutex_init (\<lambda>err. ret (err, base\<lparr>sb_mutex := False\<rparr>)))"

definition excom_event_base_select_destroy :: "select_base \<Rightarrow> (int \<times> select_base) cmd" where
  "excom_event_base_select_destroy base =
     ret (0, base\<lparr>sb_nfds := 0, sb_max := 0, sb_events := None, sb_loop := False\<rparr>)"

text \<open>The new capacity; a failure returns with the mutex locked and a null pointer behind.\<close>

definition select_resize ::
    "select_base \<Rightarrow> size_t \<Rightarrow> (select_base \<Rightarrow> (int \<times> select_base) cmd) \<Rightarrow> (int \<times> select_base) cmd" where
  "select_resize base n go =
     bind (arr_realloc (sb_events base) SELECT_SIZE n) (\<lambda>events.
     let base = base\<lparr>sb_max := n, sb_events := events\<rparr> in
     if events = None then bind excom_return_errno (\<lambda>err. ret (err, base)) else go base)"

definition excom_event_select_add :: "select_base \<Rightarrow> nat \<Rightarrow> (int \<times> select_base) cmd" where
  "excom_event_select_add base ev =
     bind (mutex_lock (sb_mutex base)) (\<lambda>m.
     let base = base\<lparr>sb_mutex := m\<rparr>;
         go = (\<lambda>base.
           bind (arr_set (sb_events base) (unat (sb_nfds base)) (Some ev)) (\<lambda>events.
           bind (mutex_unlock (sb_mutex base)) (\<lambda>m.
           ret (0, base\<lparr>sb_events := events, sb_heap := (sb_heap base)(ev := (sb_heap base ev)\<lparr>r_bdata := sb_nfds base\<rparr>),
             sb_nfds := sb_nfds base + 1, sb_mutex := m\<rparr>)))) in
     if sb_max base < sb_nfds base + 1 then select_resize base (sb_max base * 2) go else go base)"

definition excom_event_select_update :: "select_base \<Rightarrow> nat \<Rightarrow> (int \<times> select_base) cmd" where
  "excom_event_select_update base ev = ret (0, base)"

text \<open>A pointer to an event, read through.\<close>

definition event_of :: "select_base \<Rightarrow> nat option \<Rightarrow> reg cmd" where
  "event_of base p = (case p of None \<Rightarrow> fail NullDeref | Some e \<Rightarrow> ret (sb_heap base e))"

definition excom_event_select_remove :: "select_base \<Rightarrow> nat \<Rightarrow> (int \<times> select_base) cmd" where
  "excom_event_select_remove base ev =
     (let index = r_bdata (sb_heap base ev) in
      bind (mutex_lock (sb_mutex base)) (\<lambda>m.
      let base = base\<lparr>sb_mutex := m\<rparr> in
      bind (arr_get (sb_events base) (unat index)) (\<lambda>p.
      bind (event_of base p) (\<lambda>r.
      if r_fd r \<noteq> r_fd (sb_heap base ev) then ret (EINVAL, base)
      else
        bind (arr_set (sb_events base) (unat index) None) (\<lambda>events.
        bind (if index + 1 < sb_nfds base then arr_move events (unat (index + 1)) (unat index) (unat (sb_nfds base - index))
              else ret events) (\<lambda>events.
        let base = base\<lparr>sb_events := events, sb_nfds := sb_nfds base - 1\<rparr>;
            go = (\<lambda>base. bind (mutex_unlock (sb_mutex base)) (\<lambda>m. ret (0, base\<lparr>sb_mutex := m\<rparr>))) in
        if sb_nfds base < sb_max base div 2 then select_resize base (sb_max base div 2) go else go base))))))"

section \<open>The loop\<close>

text \<open>
  \<open>FD_SET\<close> beyond the size of a set writes out of bounds. The variables of the first \<open>for\<close> loop are the
  sets of descriptors to read, write and check for errors, and how often each was added to.
\<close>

definition FD_SET :: "int \<Rightarrow> int set \<Rightarrow> int set cmd" where
  "FD_SET fd s = (if 0 \<le> fd \<and> fd < FD_SETSIZE then ret (insert fd s) else fail OutOfBounds)"

record interest =
  i_read :: "int set"
  i_write :: "int set"
  i_error :: "int set"
  i_rnum :: nat
  i_wnum :: nat
  i_ernum :: nat

definition collect_one :: "reg \<Rightarrow> interest \<Rightarrow> interest cmd" where
  "collect_one r x =
     bind (if and (r_flags r) SELECT_READ \<noteq> 0 \<or> and (r_flags r) SELECT_CLOSE \<noteq> 0
           then bind (FD_SET (r_fd r) (i_read x)) (\<lambda>s. ret (x\<lparr>i_read := s, i_rnum := Suc (i_rnum x)\<rparr>)) else ret x) (\<lambda>x.
     bind (if and (r_flags r) SELECT_WRITE \<noteq> 0
           then bind (FD_SET (r_fd r) (i_write x)) (\<lambda>s. ret (x\<lparr>i_write := s, i_wnum := Suc (i_wnum x)\<rparr>)) else ret x) (\<lambda>x.
     if and (r_flags r) SELECT_ERROR \<noteq> 0
     then bind (FD_SET (r_fd r) (i_error x)) (\<lambda>s. ret (x\<lparr>i_error := s, i_ernum := Suc (i_ernum x)\<rparr>)) else ret x))"

primrec collect :: "select_base \<Rightarrow> nat \<Rightarrow> interest cmd" where
  "collect base 0 = ret \<lparr>i_read = {}, i_write = {}, i_error = {}, i_rnum = 0, i_wnum = 0, i_ernum = 0\<rparr>"
| "collect base (Suc n) =
     bind (collect base n) (\<lambda>x.
     bind (arr_get (sb_events base) n) (\<lambda>p.
     bind (event_of base p) (\<lambda>r. collect_one r x)))"

text \<open>The first argument of \<open>select\<close>.\<close>

definition lnum :: "interest \<Rightarrow> nat" where
  "lnum x = (if i_wnum x < i_rnum x \<and> i_ernum x < i_rnum x then i_rnum x
             else if i_ernum x < i_wnum x then i_wnum x else i_ernum x)"

text \<open>
  The second \<open>for\<close> loop: \<open>e\<close> counts what was found, \<open>seen\<close> is the variable \<open>in\<close>, which is not reset
  between events. The runner is called without the mutex.
\<close>

definition select_dispatch_step ::
    "(fired \<Rightarrow> select_base \<Rightarrow> select_base cmd) \<Rightarrow> nat \<Rightarrow> interest \<Rightarrow> nat \<times> nat \<times> bool \<times> select_base \<Rightarrow>
      (bool \<times> nat \<times> nat \<times> bool \<times> select_base) cmd" where
  "select_dispatch_step run diff ready x =
     (case x of (i, e, seen, base) \<Rightarrow>
        if \<not> (e < diff \<and> i < unat (sb_nfds base)) then ret (False, x)
        else
          bind (arr_get (sb_events base) i) (\<lambda>p.
          bind (event_of base p) (\<lambda>r.
          let rd = (r_fd r \<in> i_read ready); wr = (r_fd r \<in> i_write ready); er = (r_fd r \<in> i_error ready);
              flags = or (if rd then SELECT_READ else 0) (or (if wr then SELECT_WRITE else 0) (if er then SELECT_ERROR else 0));
              e = e + of_bool rd + of_bool wr + of_bool er;
              seen = (seen \<or> rd \<or> wr \<or> er) in
          bind (if seen then
                  bind (mutex_unlock (sb_mutex base)) (\<lambda>m.
                  bind (run \<lparr>fi_fd = r_fd r, fi_flags = flags, fi_data = r_data r, fi_root = the p\<rparr> (base\<lparr>sb_mutex := m\<rparr>)) (\<lambda>base.
                  bind (mutex_lock (sb_mutex base)) (\<lambda>m. ret (base\<lparr>sb_mutex := m\<rparr>))))
                else ret base) (\<lambda>base.
          ret (True, Suc i, e, seen, base)))))"

text \<open>
  \<open>sys\<close> is the system call: from its first argument and the sets it gives its result and the
  descriptors that are ready. A negative result ends the function.
\<close>

definition select_loop_step ::
    "(nat \<Rightarrow> interest \<Rightarrow> select_base \<Rightarrow> (int \<times> interest) cmd) \<Rightarrow> (fired \<Rightarrow> select_base \<Rightarrow> select_base cmd) \<Rightarrow>
      select_base \<Rightarrow> (bool \<times> select_base) cmd" where
  "select_loop_step sys run base =
     (if \<not> sb_loop base then ret (False, base)
      else
        bind (mutex_lock (sb_mutex base)) (\<lambda>m.
        bind (collect (base\<lparr>sb_mutex := m\<rparr>) (unat (sb_nfds base))) (\<lambda>x.
        bind (mutex_unlock m) (\<lambda>m.
        bind (sys (lnum x) x (base\<lparr>sb_mutex := m\<rparr>)) (\<lambda>(diff, ready).
        if diff < 0 then ret (False, base\<lparr>sb_mutex := m\<rparr>)
        else
          bind (mutex_lock m) (\<lambda>m.
          bind (loop (select_dispatch_step run (nat diff) ready) (0, 0, False, base\<lparr>sb_mutex := m\<rparr>)) (\<lambda>(_, _, _, base).
          bind (mutex_unlock (sb_mutex base)) (\<lambda>m.
          ret (True, base\<lparr>sb_mutex := m\<rparr>)))))))))"

definition excom_event_select_loop ::
    "(nat \<Rightarrow> interest \<Rightarrow> select_base \<Rightarrow> (int \<times> interest) cmd) \<Rightarrow> (fired \<Rightarrow> select_base \<Rightarrow> select_base cmd) \<Rightarrow>
      select_base \<Rightarrow> select_base cmd" where
  "excom_event_select_loop sys run base = loop (select_loop_step sys run) base"

definition excom_event_select_loop_end :: "select_base \<Rightarrow> select_base" where
  "excom_event_select_loop_end base = base\<lparr>sb_loop := False\<rparr>"

section \<open>The registered events\<close>

definition selects :: "select_base \<Rightarrow> nat list \<Rightarrow> bool" where
  "selects base evs \<longleftrightarrow>
     (\<exists>es. sb_events base = Some es \<and> length es = unat (sb_max base) \<and> length evs = unat (sb_nfds base) \<and>
        sb_nfds base \<le> sb_max base \<and> unat (sb_max base) < 2 ^ 58 \<and> \<not> sb_mutex base \<and>
        (\<forall>i < length evs. es ! i = Some (Some (evs ! i)) \<and> r_bdata (sb_heap base (evs ! i)) = of_nat i \<and>
           0 \<le> r_fd (sb_heap base (evs ! i)) \<and> r_fd (sb_heap base (evs ! i)) < FD_SETSIZE))"

lemma FD_SET_run: "0 \<le> fd \<Longrightarrow> fd < FD_SETSIZE \<Longrightarrow> FD_SET fd s = ret (insert fd s)"
  by (simp add: FD_SET_def)

text \<open>
  Each set collects the descriptors of the events with the flag; the counts are the numbers of events
  with the flag.
\<close>

definition wanting :: "select_base \<Rightarrow> nat list \<Rightarrow> u32 \<Rightarrow> int set" where
  "wanting base evs fl = {fd. \<exists>ev \<in> set evs. fd = r_fd (sb_heap base ev) \<and> and (r_flags (sb_heap base ev)) fl \<noteq> 0}"

definition wants :: "select_base \<Rightarrow> u32 list \<Rightarrow> nat \<Rightarrow> bool" where
  "wants base fls ev \<longleftrightarrow> list_ex (\<lambda>fl. and (r_flags (sb_heap base ev)) fl \<noteq> 0) fls"

definition wanters :: "select_base \<Rightarrow> nat list \<Rightarrow> u32 list \<Rightarrow> nat" where
  "wanters base evs fls = length (filter (wants base fls) evs)"

lemma wanting_snoc:
  "wanting base (evs @ [ev]) fl =
    (if and (r_flags (sb_heap base ev)) fl \<noteq> 0 then insert (r_fd (sb_heap base ev)) (wanting base evs fl) else wanting base evs fl)"
  by (auto simp: wanting_def)

lemma wanters_snoc: "wanters base (evs @ [ev]) fls = wanters base evs fls + of_bool (wants base fls ev)"
  by (simp add: wanters_def)

lemma wanters_le: "wanters base evs fls \<le> length evs"
  by (simp add: wanters_def)

definition collected :: "select_base \<Rightarrow> nat list \<Rightarrow> interest \<Rightarrow> bool" where
  "collected base evs x \<longleftrightarrow> i_read x = wanting base evs SELECT_READ \<union> wanting base evs SELECT_CLOSE \<and>
     i_write x = wanting base evs SELECT_WRITE \<and> i_error x = wanting base evs SELECT_ERROR \<and>
     i_rnum x = wanters base evs [SELECT_READ, SELECT_CLOSE] \<and> i_wnum x = wanters base evs [SELECT_WRITE] \<and>
     i_ernum x = wanters base evs [SELECT_ERROR]"

lemma collect_one_run:
  assumes "0 \<le> r_fd (sb_heap base ev)" and "r_fd (sb_heap base ev) < FD_SETSIZE" and "collected base evs x"
  shows "\<exists>x'. collect_one (sb_heap base ev) x = ret x' \<and> collected base (evs @ [ev]) x'"
  using assms by (auto simp: collect_one_def FD_SET_run collected_def wanting_snoc wanters_snoc wants_def)

lemma collect_run:
  assumes "sb_events base = Some es" and "n \<le> length es" and "n \<le> length evs"
    and "\<And>i. i < n \<Longrightarrow> es ! i = Some (Some (evs ! i)) \<and> 0 \<le> r_fd (sb_heap base (evs ! i)) \<and> r_fd (sb_heap base (evs ! i)) < FD_SETSIZE"
  shows "\<exists>x. collect base n = ret x \<and> collected base (take n evs) x"
  using assms(2-)
proof (induction n)
  case 0
  show ?case by (intro exI conjI) (rule collect.simps, simp add: collected_def wanting_def wanters_def)
next
  case (Suc n)
  then obtain x where x: "collect base n = ret x" "collected base (take n evs) x" by auto
  have e: "n < length es" "es ! n = Some (Some (evs ! n))" "0 \<le> r_fd (sb_heap base (evs ! n))"
    "r_fd (sb_heap base (evs ! n)) < FD_SETSIZE" "take (Suc n) evs = take n evs @ [evs ! n]"
    using Suc.prems by (auto simp: take_Suc_conv_app_nth)
  obtain x' where "collect_one (sb_heap base (evs ! n)) x = ret x'" "collected base (take (Suc n) evs) x'"
    using collect_one_run [OF e(3,4) x(2)] e(5) by auto
  then show ?case using x e assms(1) by (auto simp: event_of_def)
qed

lemma collect_null:
  assumes "sb_events base = Some es" and "n < length es" and "n \<le> length evs" and "es ! n = Some None" and "n < m"
    and "\<And>i. i < n \<Longrightarrow> es ! i = Some (Some (evs ! i)) \<and> 0 \<le> r_fd (sb_heap base (evs ! i)) \<and> r_fd (sb_heap base (evs ! i)) < FD_SETSIZE"
  shows "collect base m w = Inl NullDeref"
proof -
  obtain x where "collect base n = ret x" using collect_run [OF assms(1) _ assms(3,6)] assms(2) by auto
  then have one: "collect base (Suc n) w = Inl NullDeref"
    using assms(1,2,4) by (simp add: event_of_def) (simp add: bind_def fail_def)
  have "collect base (Suc n + k) w = Inl NullDeref" for k
    using one by (induction k) (simp_all add: bind_Inl)
  from this [of "m - Suc n"] assms(5) show ?thesis by simp
qed

text \<open>The first argument of \<open>select\<close> is the largest of the three counts.\<close>

lemma lnum_max: "lnum x = max (i_rnum x) (max (i_wnum x) (i_ernum x))"
  by (auto simp: lnum_def max_def)

lemma selectsE:
  assumes "selects base evs"
  obtains es where "sb_events base = Some es" "length es = unat (sb_max base)" "length evs = unat (sb_nfds base)"
    "unat (sb_nfds base) \<le> unat (sb_max base)" "unat (sb_max base) < 2 ^ 58" "\<not> sb_mutex base"
    "\<And>i. i < length evs \<Longrightarrow> es ! i = Some (Some (evs ! i)) \<and> 0 \<le> r_fd (sb_heap base (evs ! i)) \<and> r_fd (sb_heap base (evs ! i)) < FD_SETSIZE"
    "\<And>i. i < length evs \<Longrightarrow> unat (r_bdata (sb_heap base (evs ! i))) = i"
proof -
  have "unat (of_nat i :: size_t) = i" if "i < length evs" "length evs = unat (sb_nfds base)" for i
    using that unat_size_bound [of "sb_nfds base"] by (simp add: unat_of_nat)
  then show ?thesis using assms that unfolding selects_def by (fastforce simp: word_le_nat_alt)
qed

lemma select_resize_run:
  assumes "plenty w" and "unat n < 2 ^ 59" and "sb_events base = Some es" and "unat n \<le> length es"
  shows "select_resize base n go w = go (base\<lparr>sb_max := n, sb_events := Some (take (unat n) es)\<rparr>) w"
proof -
  have "unat (8 * n) = 8 * unat n" using assms(2) by (simp add: unat_word_ariths)
  then have "8 * n < 2 ^ 63" using assms(2) by (simp add: word_less_nat_alt)
  then have "allocates (8 * n) w = Inr (True, w)" by (rule allocates_plenty [OF assms(1)])
  then show ?thesis using assms(3,4) by (simp add: select_resize_def arr_realloc_def bind_def ret_def Let_def)
qed

lemma select_round_null:
  assumes "sb_loop base" and "\<not> sb_mutex base" and "sb_events base = Some es" and "n < length es" and "n \<le> length evs"
    and "es ! n = Some None" and "n < unat (sb_nfds base)"
    and "\<And>i. i < n \<Longrightarrow> es ! i = Some (Some (evs ! i)) \<and> 0 \<le> r_fd (sb_heap base (evs ! i)) \<and> r_fd (sb_heap base (evs ! i)) < FD_SETSIZE"
  shows "select_loop_step sys run base w = Inl NullDeref"
proof -
  have "collect (base\<lparr>sb_mutex := True\<rparr>) (unat (sb_nfds base)) w = Inl NullDeref"
    by (rule collect_null [of _ es n evs]) (use assms in simp_all)
  then show ?thesis using assms(1,2) by (simp add: select_loop_step_def bind_Inl)
qed

text \<open>Where \<open>excom_event_select_remove\<close> is before it gives capacity back.\<close>

lemma select_remove_shape:
  assumes s: "selects base evs" and i: "Suc i < length evs" and room: "sb_nfds base < sb_max base"
    and es: "sb_events base = Some es"
  defines "moved \<equiv> take i es @ [Some None] @ take (length evs - i) (drop i (es[i := Some None])) @ drop (Suc (length evs)) es"
    and "go \<equiv> (\<lambda>base :: select_base. bind (mutex_unlock (sb_mutex base)) (\<lambda>m. ret (0, base\<lparr>sb_mutex := m\<rparr>)))"
  shows "excom_event_select_remove base (evs ! i) =
    (let base = base\<lparr>sb_mutex := True, sb_events := Some moved, sb_nfds := sb_nfds base - 1\<rparr> in
     if sb_nfds base < sb_max base div 2 then select_resize base (sb_max base div 2) go else go base)"
proof -
  obtain e where e: "sb_events base = Some e" "length e = unat (sb_max base)" "length evs = unat (sb_nfds base)"
    "unat (sb_max base) < 2 ^ 58" "\<not> sb_mutex base" "e ! i = Some (Some (evs ! i))"
    "unat (r_bdata (sb_heap base (evs ! i))) = i"
    by (rule selectsE [OF s]) (use i in simp)
  have [simp]: "e = es" using e(1) es by simp
  have l: "i < length es" "length evs < length es" "i < length evs" using e(2,3) i room by (simp_all add: word_less_nat_alt)
  have u: "unat (r_bdata (sb_heap base (evs ! i)) + 1) = Suc i"
    using e l(1) by (simp add: unat_plus_no_overflow)
  have v: "unat (sb_nfds base - r_bdata (sb_heap base (evs ! i))) = length evs - i"
    using e l(3) by (simp add: unat_sub word_le_nat_alt)
  have m: "arr_move (Some (es[i := Some None])) (Suc i) i (length evs - i) = ret (Some moved)"
    using arr_move_up [of i "length evs" "es[i := Some None]"] l by (simp add: moved_def drop_update_cancel)
  show ?thesis
    using e l u v m i
    by (simp add: excom_event_select_remove_def event_of_def word_less_nat_alt Let_def go_def)
qed

section \<open>Properties\<close>

text \<open>
  C39. A round of the loop puts the descriptors of the registered events into the right sets, but the
  first argument of \<open>select\<close>, below which descriptors are looked at, is the largest of three
  numbers of events, those that are to be read or closed, written, and checked for errors. It should be
  the largest descriptor plus one: a registered descriptor that is not smaller than this number of
  events is not watched, and no descriptor is that is not smaller than the number of all events.
\<close>

theorem select_watches_by_count:
  assumes "selects base evs"
  shows "\<exists>x. collect base (unat (sb_nfds base)) = ret x \<and>
    i_read x = wanting base evs SELECT_READ \<union> wanting base evs SELECT_CLOSE \<and> i_write x = wanting base evs SELECT_WRITE \<and>
    i_error x = wanting base evs SELECT_ERROR \<and>
    lnum x = max (wanters base evs [SELECT_READ, SELECT_CLOSE]) (max (wanters base evs [SELECT_WRITE]) (wanters base evs [SELECT_ERROR])) \<and>
    {fd \<in> i_read x \<union> i_write x \<union> i_error x. fd < int (lnum x)} \<subseteq> {0..<int (length evs)}"
proof -
  obtain es where e: "sb_events base = Some es" "length es = unat (sb_max base)" "length evs = unat (sb_nfds base)"
    "unat (sb_nfds base) \<le> unat (sb_max base)"
    "\<And>i. i < length evs \<Longrightarrow> es ! i = Some (Some (evs ! i)) \<and> 0 \<le> r_fd (sb_heap base (evs ! i)) \<and> r_fd (sb_heap base (evs ! i)) < FD_SETSIZE"
    by (rule selectsE [OF assms]) blast
  obtain x where x: "collect base (unat (sb_nfds base)) = ret x" "collected base evs x"
    using collect_run [OF e(1), of "unat (sb_nfds base)" evs] e by auto
  have fds: "0 \<le> r_fd (sb_heap base ev)" if "ev \<in> set evs" for ev
    using e(5) that by (auto simp: in_set_conv_nth)
  have "lnum x \<le> length evs" using x(2) by (simp add: collected_def lnum_max wanters_le)
  then show ?thesis
    using x fds by (intro exI [of _ x]) (auto simp: collected_def lnum_max wanting_def)
qed

definition select_example :: select_base where
  "select_example = \<lparr>sb_mutex = False, sb_nfds = 2, sb_max = 3, sb_events = Some [Some (Some 0), Some (Some 1), None],
     sb_loop = True, sb_heap = (\<lambda>i. \<lparr>r_fd = int i + 4, r_flags = 2, r_data = 0, r_bdata = of_nat i\<rparr>)\<rparr>"

lemma select_example_ok: "selects select_example [0, 1]"
  by (auto simp: selects_def select_example_def less_Suc_eq word_le_nat_alt)

text \<open>Of the two descriptors 4 and 5, both to be read, none is below 2.\<close>

theorem select_watches_by_count_witness:
  "\<exists>x. collect select_example 2 = ret x \<and> i_read x = {4, 5} \<and> lnum x = 2"
proof -
  have sets: "wanting select_example [0, 1] 2 = {4, 5}" "wanting select_example [0, 1] 16 = {}"
    and nums: "wanters select_example [0, 1] [2, 16] = 2" "wanters select_example [0, 1] [4] = 0"
      "wanters select_example [0, 1] [8] = 0" and n: "unat (sb_nfds select_example) = 2"
    by (auto simp: wanting_def wanters_def wants_def select_example_def)
  show ?thesis
    using select_watches_by_count [OF select_example_ok] unfolding sets nums n by auto
qed

text \<open>
  Removing any event but the last one leaves a null pointer among the events: the next round of the
  loop reads through it.
\<close>

theorem select_remove_leaves_null:
  assumes "selects base evs" and "plenty w" and "Suc i < length evs" and "sb_nfds base < sb_max base" and "sb_loop base"
  shows "\<exists>base'. excom_event_select_remove base (evs ! i) w = Inr ((0, base'), w) \<and> sb_nfds base' = sb_nfds base - 1 \<and>
    select_loop_step sys run base' w = Inl NullDeref"
proof -
  obtain es where e: "sb_events base = Some es" "length es = unat (sb_max base)" "length evs = unat (sb_nfds base)"
    "unat (sb_nfds base) \<le> unat (sb_max base)" "unat (sb_max base) < 2 ^ 58"
    "\<And>i. i < length evs \<Longrightarrow> es ! i = Some (Some (evs ! i)) \<and> 0 \<le> r_fd (sb_heap base (evs ! i)) \<and> r_fd (sb_heap base (evs ! i)) < FD_SETSIZE"
    by (rule selectsE [OF assms(1)]) blast
  obtain m where m: "m = take i es @ [Some None] @ take (length evs - i) (drop i (es[i := Some None])) @ drop (Suc (length evs)) es"
    by blast
  let ?b = "base\<lparr>sb_mutex := True, sb_events := Some m, sb_nfds := sb_nfds base - 1\<rparr>"
  have n: "unat (sb_nfds base - 1) = length evs - 1"
    using e(3) assms(3) by (subst unat_minus_one) auto
  have lm: "length m = unat (sb_max base)" "m ! i = Some None" "\<And>k. k < i \<Longrightarrow> m ! k = es ! k"
    using e(2,3) assms(3,4) by (auto simp: m word_less_nat_alt nth_append)
  have d: "unat (sb_max base div 2) = unat (sb_max base) div 2" by (simp add: unat_div)
  have null: "select_loop_step sys run (b\<lparr>sb_mutex := False\<rparr>) w = Inl NullDeref"
    if "length evs - 1 \<le> c" "c \<le> length m" "b = ?b\<lparr>sb_max := x, sb_events := Some (take c m)\<rparr>" for b c x
    by (rule select_round_null [of _ "take c m" i evs]) (use that e assms(3,5) n lm in auto)
  note shape = select_remove_shape [OF assms(1,3,4) e(1), folded m]
  show ?thesis
  proof (cases "sb_nfds base - 1 < sb_max base div 2")
    case True
    then have c: "length evs - 1 \<le> unat (sb_max base div 2)" "unat (sb_max base div 2) \<le> length m" "unat (sb_max base div 2) < 2 ^ 59"
      using n d lm(1) e(5) by (simp_all add: word_less_nat_alt)
    have rz: "select_resize ?b (sb_max base div 2) go w =
        go (?b\<lparr>sb_max := sb_max base div 2, sb_events := Some (take (unat (sb_max base div 2)) m)\<rparr>) w" for go
      by (rule select_resize_run [OF assms(2) c(3) _ c(2)]) simp
    show ?thesis
      unfolding shape Let_def using True null [OF c(1,2) refl] by (simp add: rz) (simp add: ret_def)
  next
    case False
    have "take (length m) m = m" "?b\<lparr>sb_max := sb_max base, sb_events := Some m\<rparr> = ?b" by (cases base, simp)+
    then show ?thesis
      unfolding shape Let_def using False null [of "length m" ?b "sb_max base"] lm(1) e(3,4) by simp (simp add: ret_def)
  qed
qed

theorem select_remove_leaves_null_witness:
  "\<exists>base'. excom_event_select_remove select_example 0 idle_world = Inr ((0, base'), idle_world) \<and>
     select_loop_step (\<lambda>n x base. ret (0, x)) (\<lambda>ev. ret) base' idle_world = Inl NullDeref"
proof -
  have "\<exists>base'. excom_event_select_remove select_example ([0, 1] ! 0) idle_world = Inr ((0, base'), idle_world) \<and>
      sb_nfds base' = sb_nfds select_example - 1 \<and>
      select_loop_step (\<lambda>n x base. ret (0, x)) (\<lambda>ev. ret) base' idle_world = Inl NullDeref"
    by (rule select_remove_leaves_null [OF select_example_ok])
       (simp_all add: plenty_def idle_world_def select_example_def word_less_nat_alt)
  then show ?thesis by auto
qed

text \<open>
  Removing an event that is not registered fails with the mutex of the base still locked: the next
  event that is added waits for it for ever.
\<close>

theorem select_remove_keeps_lock:
  assumes "selects base evs" and "i < length evs" and "r_bdata (sb_heap base ev) = of_nat i"
    and "r_fd (sb_heap base ev) \<noteq> r_fd (sb_heap base (evs ! i))"
  shows "\<exists>base'. excom_event_select_remove base ev w = Inr ((EINVAL, base'), w) \<and>
    excom_event_select_add base' ev' w' = Inl DeadLock"
proof -
  obtain es where e: "sb_events base = Some es" "length es = unat (sb_max base)" "length evs = unat (sb_nfds base)"
    "unat (sb_nfds base) \<le> unat (sb_max base)" "\<not> sb_mutex base" "es ! i = Some (Some (evs ! i))"
    "unat (r_bdata (sb_heap base (evs ! i))) = i"
    by (rule selectsE [OF assms(1)]) (use assms(2) in simp)
  have "r_bdata (sb_heap base (evs ! i)) = of_nat i" using assms(1,2) by (auto simp: selects_def)
  then have u: "unat (of_nat i :: size_t) = i" using e(7) by simp
  have "excom_event_select_remove base ev w = Inr ((EINVAL, base\<lparr>sb_mutex := True\<rparr>), w)"
    using e assms(2-4) u by (simp add: excom_event_select_remove_def event_of_def Let_def) (simp add: ret_def)
  moreover have "excom_event_select_add (base\<lparr>sb_mutex := True\<rparr>) ev' w' = Inl DeadLock"
    by (simp add: excom_event_select_add_def bind_def fail_def)
  ultimately show ?thesis by blast
qed

theorem select_remove_keeps_lock_witness:
  "\<exists>base'. excom_event_select_remove (select_example\<lparr>sb_heap := (sb_heap select_example)(9 := \<lparr>r_fd = 9, r_flags = 2, r_data = 0, r_bdata = 1\<rparr>)\<rparr>)
     9 idle_world = Inr ((EINVAL, base'), idle_world) \<and> excom_event_select_add base' 9 idle_world = Inl DeadLock"
proof -
  have "selects (select_example\<lparr>sb_heap := (sb_heap select_example)(9 := \<lparr>r_fd = 9, r_flags = 2, r_data = 0, r_bdata = 1\<rparr>)\<rparr>) [0, 1]"
    by (auto simp: selects_def select_example_def less_Suc_eq word_le_nat_alt)
  from select_remove_keeps_lock [OF this, of 1 9 idle_world 9 idle_world] show ?thesis
    by (simp add: select_example_def)
qed

end
