(* ===== verification/Kqueue.thy ===== *)
theory Kqueue
  imports Loop
begin

text \<open>
  The \<open>kqueue\<close> backend of the event loop, \<open>src/excom/event/kqueue.c\<close>. As for epoll, the kernel is an
  argument. The filters are the small negative numbers of \<open>sys/event.h\<close>, which the code uses as sets
  of bits.
\<close>

section \<open>Model\<close>

type_synonym short = "16 word"

abbreviation (input) KQ_READ :: u32 where "KQ_READ \<equiv> 2"
abbreviation (input) KQ_WRITE :: u32 where "KQ_WRITE \<equiv> 4"
abbreviation (input) KQ_ERROR :: u32 where "KQ_ERROR \<equiv> 8"
abbreviation (input) KQ_CLOSE :: u32 where "KQ_CLOSE \<equiv> 16"
abbreviation (input) EVFILT_READ :: short where "EVFILT_READ \<equiv> - 1"
abbreviation (input) EVFILT_WRITE :: short where "EVFILT_WRITE \<equiv> - 2"
abbreviation (input) EV_ADD_ENABLE :: short where "EV_ADD_ENABLE \<equiv> 0x0005"
abbreviation (input) EV_DELETE :: short where "EV_DELETE \<equiv> 0x0002"
abbreviation (input) EV_ERROR :: short where "EV_ERROR \<equiv> 0x4000"
abbreviation (input) EV_EOF :: short where "EV_EOF \<equiv> 0x8000"

text \<open>A kernel event: descriptor, filter, flags and the pointer to the event, if any.\<close>

record 'e kev =
  ke_ident :: int
  ke_filter :: short
  ke_flags :: short
  ke_udata :: "'e option"

record ('k, 'e) kqueue_kernel =
  kk_kqueue :: "'k \<Rightarrow> (int + int) \<times> 'k"
  kk_change :: "int \<Rightarrow> 'e kev \<Rightarrow> 'k \<Rightarrow> (int + unit) \<times> 'k"
  kk_wait :: "int \<Rightarrow> int \<Rightarrow> u32 \<Rightarrow> 'k \<Rightarrow> (int + 'e kev list) \<times> 'k"

record 'k kqueue_base =
  kq_loop :: bool
  kq_kqueuefd :: int
  kq_timeout :: u32
  kq_maxevents :: int
  kq_kernel :: 'k

definition kqueue_call ::
    "('k \<Rightarrow> (int + 'r) \<times> 'k) \<Rightarrow> ('k, 'a) kqueue_base_scheme \<Rightarrow> ((int + 'r) \<times> ('k, 'a) kqueue_base_scheme) cmd" where
  "kqueue_call f base =
     (case f (kq_kernel base) of
        (Inl e, k) \<Rightarrow> bind (set_errno e) (\<lambda>_. ret (Inl e, base\<lparr>kq_kernel := k\<rparr>))
      | (Inr x, k) \<Rightarrow> ret (Inr x, base\<lparr>kq_kernel := k\<rparr>))"

definition excom_event_base_kqueue_init ::
    "('k, 'e) kqueue_kernel \<Rightarrow> ('k, 'a) kqueue_base_scheme \<Rightarrow> (int \<times> ('k, 'a) kqueue_base_scheme) cmd" where
  "excom_event_base_kqueue_init K base =
     bind (kqueue_call (kk_kqueue K) (base\<lparr>kq_loop := True\<rparr>)) (\<lambda>(r, base).
     let fd = (case r of Inl _ \<Rightarrow> - 1 | Inr fd \<Rightarrow> fd);
         base = base\<lparr>kq_kqueuefd := fd, kq_maxevents := 32, kq_timeout := 500\<rparr> in
     if fd = - 1 then bind excom_return_errno (\<lambda>err. ret (err, base)) else ret (0, base))"

text \<open>The filter of \<open>excom_event_kqueue_add\<close>.\<close>

definition kqueue_filter :: "u32 \<Rightarrow> short" where
  "kqueue_filter flags =
     or (if and flags (or KQ_READ (or KQ_ERROR KQ_CLOSE)) \<noteq> 0 then EVFILT_READ else 0)
        (if and flags KQ_WRITE \<noteq> 0 then EVFILT_WRITE else 0)"

definition kqueue_change ::
    "('k, 'e) kqueue_kernel \<Rightarrow> ('k, 'a) kqueue_base_scheme \<Rightarrow> 'e kev \<Rightarrow> (int \<times> ('k, 'a) kqueue_base_scheme) cmd" where
  "kqueue_change K base kev =
     bind (kqueue_call (kk_change K (kq_kqueuefd base) kev) base) (\<lambda>(r, base).
     case r of
       Inl _ \<Rightarrow> bind excom_return_errno (\<lambda>err. ret (err, base))
     | Inr _ \<Rightarrow> ret (0, base))"

definition excom_event_kqueue_add ::
    "('k, 'e) kqueue_kernel \<Rightarrow> ('k, 'a) kqueue_base_scheme \<Rightarrow> 'e \<Rightarrow> int \<Rightarrow> u32 \<Rightarrow> (int \<times> ('k, 'a) kqueue_base_scheme) cmd" where
  "excom_event_kqueue_add K base e fd flags =
     kqueue_change K base \<lparr>ke_ident = fd, ke_filter = kqueue_filter flags, ke_flags = EV_ADD_ENABLE, ke_udata = Some e\<rparr>"

definition excom_event_kqueue_update ::
    "('k, 'e) kqueue_kernel \<Rightarrow> ('k, 'a) kqueue_base_scheme \<Rightarrow> 'e \<Rightarrow> int \<Rightarrow> u32 \<Rightarrow> (int \<times> ('k, 'a) kqueue_base_scheme) cmd" where
  "excom_event_kqueue_update K base e fd flags = excom_event_kqueue_add K base e fd flags"

definition excom_event_kqueue_remove ::
    "('k, 'e) kqueue_kernel \<Rightarrow> ('k, 'a) kqueue_base_scheme \<Rightarrow> int \<Rightarrow> (int \<times> ('k, 'a) kqueue_base_scheme) cmd" where
  "excom_event_kqueue_remove K base fd =
     kqueue_change K base \<lparr>ke_ident = fd, ke_filter = 0, ke_flags = EV_DELETE, ke_udata = None\<rparr>"

text \<open>The flags of the event that goes to the runner.\<close>

definition kqueue_flags :: "'e kev \<Rightarrow> u32" where
  "kqueue_flags kev =
     or (if and (ke_flags kev) EV_EOF \<noteq> 0 then KQ_CLOSE else 0)
     (or (if and (ke_flags kev) EV_ERROR \<noteq> 0 then KQ_ERROR else 0)
     (or (if and (ke_filter kev) EVFILT_READ \<noteq> 0 then KQ_READ else 0)
         (if and (ke_filter kev) EVFILT_WRITE \<noteq> 0 then KQ_WRITE else 0)))"

text \<open>
  The runner gets the root, the descriptor, the data and the flags. \<open>data\<close> is the variable
  \<open>event.data\<close>, which keeps its value when there is no root; a failed wait calls the runner, too.
\<close>

primrec kqueue_dispatch ::
    "('s \<Rightarrow> 'e \<Rightarrow> fault + 'd) \<Rightarrow> ('e option \<Rightarrow> int \<Rightarrow> 'd option \<Rightarrow> u32 \<Rightarrow> 's \<Rightarrow> 's cmd) \<Rightarrow> 'e kev list \<Rightarrow> 'd option \<times> 's \<Rightarrow>
      ('d option \<times> 's) cmd" where
  "kqueue_dispatch at run [] x = ret x"
| "kqueue_dispatch at run (kev # kevs) x =
     (case x of (data, s) \<Rightarrow>
        bind (case ke_udata kev of None \<Rightarrow> ret data | Some e \<Rightarrow> bind (lift_fault (at s e)) (\<lambda>d. ret (Some d))) (\<lambda>data.
        bind (run (ke_udata kev) (ke_ident kev) data (kqueue_flags kev) s) (\<lambda>s.
        kqueue_dispatch at run kevs (data, s))))"

definition kqueue_loop_step ::
    "('k, 'e) kqueue_kernel \<Rightarrow> (('k, 'a) kqueue_base_scheme \<Rightarrow> 'e \<Rightarrow> fault + 'd) \<Rightarrow>
      ('e option \<Rightarrow> int \<Rightarrow> 'd option \<Rightarrow> u32 \<Rightarrow> ('k, 'a) kqueue_base_scheme \<Rightarrow> ('k, 'a) kqueue_base_scheme cmd) \<Rightarrow>
      'd option \<times> ('k, 'a) kqueue_base_scheme \<Rightarrow> (bool \<times> 'd option \<times> ('k, 'a) kqueue_base_scheme) cmd" where
  "kqueue_loop_step K at run x =
     (case x of (data, base) \<Rightarrow>
        if \<not> kq_loop base then ret (False, x)
        else
          bind (kqueue_call (kk_wait K (kq_kqueuefd base) (kq_maxevents base) (kq_timeout base)) base) (\<lambda>(r, base).
          case r of
            Inl _ \<Rightarrow> bind (run None (kq_kqueuefd base) None KQ_ERROR base) (\<lambda>base. ret (True, None, base))
          | Inr events \<Rightarrow> bind (kqueue_dispatch at run events (data, base)) (\<lambda>x. ret (True, x))))"

definition excom_event_kqueue_loop ::
    "('k, 'e) kqueue_kernel \<Rightarrow> (('k, 'a) kqueue_base_scheme \<Rightarrow> 'e \<Rightarrow> fault + 'd) \<Rightarrow>
      ('e option \<Rightarrow> int \<Rightarrow> 'd option \<Rightarrow> u32 \<Rightarrow> ('k, 'a) kqueue_base_scheme \<Rightarrow> ('k, 'a) kqueue_base_scheme cmd) \<Rightarrow>
      ('k, 'a) kqueue_base_scheme \<Rightarrow> ('k, 'a) kqueue_base_scheme cmd" where
  "excom_event_kqueue_loop K at run base = bind (loop (kqueue_loop_step K at run) (None, base)) (\<lambda>(_, base). ret base)"

definition excom_event_kqueue_loop_end :: "('k, 'a) kqueue_base_scheme \<Rightarrow> ('k, 'a) kqueue_base_scheme" where
  "excom_event_kqueue_loop_end base = base\<lparr>kq_loop := False\<rparr>"

section \<open>Properties\<close>

text \<open>
  The \<open>kqueue\<close> backend confuses reading and writing: an event that asks for both is registered for
  reading only, and whatever descriptor is ready, for reading or for writing, the runner is told that
  it is ready for both.
\<close>

theorem kqueue_confuses_filters:
  "kqueue_filter flags = (if and flags (or KQ_READ (or KQ_ERROR KQ_CLOSE)) \<noteq> 0 then EVFILT_READ
      else if and flags KQ_WRITE \<noteq> 0 then EVFILT_WRITE else 0) \<and>
   and (kqueue_flags (kev\<lparr>ke_filter := EVFILT_READ\<rparr>)) (or KQ_READ KQ_WRITE) = or KQ_READ KQ_WRITE \<and>
   and (kqueue_flags (kev\<lparr>ke_filter := EVFILT_WRITE\<rparr>)) (or KQ_READ KQ_WRITE) = or KQ_READ KQ_WRITE"
proof -
  have "and (kqueue_flags (kev\<lparr>ke_filter := f\<rparr>)) (or KQ_READ KQ_WRITE) = or KQ_READ KQ_WRITE" if "f \<in> {-1, -2}" for f
    using that by (auto simp: kqueue_flags_def)
  then show ?thesis by (auto simp: kqueue_filter_def)
qed

end
