(* ===== verification/Console.thy ===== *)
theory Console
  imports BufferIO
begin

text \<open>
  What the library prints: the dump of a buffer (\<open>excom_buffer_inspect\<close>, \<open>src/excom/buffer.c\<close>), the macro
  \<open>excom_check_error\<close> of \<open>inc/excom.h\<close> and the callbacks that are compiled when no program brings its own
  (\<open>src/excom/server/client.c\<close>). Text is a list of bytes, the result of the definition; \<open>strerror\<close> is an
  argument.
\<close>

section \<open>Conversions of printf\<close>

definition ascii :: "string \<Rightarrow> byte list" where
  "ascii s = map of_char s"

definition hex_digit :: "nat \<Rightarrow> byte" where
  "hex_digit n = of_nat (if n < 10 then 48 + n else 87 + n)"

text \<open>\<open>%02x\<close> of a byte and \<open>%zu\<close>.\<close>

definition hex2 :: "byte \<Rightarrow> byte list" where
  "hex2 b = [hex_digit (unat b div 16), hex_digit (unat b mod 16)]"

fun decimal :: "nat \<Rightarrow> byte list" where
  "decimal n = (if n < 10 then [of_nat (48 + n)] else decimal (n div 10) @ [of_nat (48 + n mod 10)])"

declare decimal.simps [simp del]

section \<open>The dump of a buffer\<close>

text \<open>\<open>"\e[0;1;34m|\e[0m"\<close>\<close>

definition mark :: "byte list" where
  "mark = 27 # ascii ''[0;1;34m|'' @ 27 # ascii ''[0m''"

text \<open>One byte, at the read position or not, with the character it is if that can be shown.\<close>

definition cell :: "bool \<Rightarrow> byte \<Rightarrow> byte list" where
  "cell here b = (if here then mark @ [32] else []) @ hex2 b @
     (if 0x20 < b \<and> b < 0x7e then [40, b, 41] else ascii ''( )'') @ [32]"

text \<open>
  The loop, from byte \<open>i\<close> on with \<open>n\<close> bytes to go. \<open>d\<close> and \<open>i\<close> are always equal in the code, so the loop ends
  after 1000 bytes.
\<close>

primrec cells :: "buffer \<Rightarrow> nat \<Rightarrow> nat \<Rightarrow> byte list cmd" where
  "cells b i 0 = ret []"
| "cells b i (Suc n) =
     bind (load (ptr_add (b_buf b) i) 1) (\<lambda>bs.
     bind (cells b (Suc i) n) (\<lambda>rest.
     ret (cell (i = unat (b_pos b)) (hd bs) @ rest)))"

text \<open>With \<open>NDEBUG\<close> it says so on the standard error, and prints nothing.\<close>

definition excom_buffer_inspect :: "bool \<Rightarrow> buffer \<Rightarrow> byte list cmd" where
  "excom_buffer_inspect ndebug b =
     (if ndebug then ret (ascii ''[excom] ERROR - excom_buffer_inspect called, ignoring.'' @ [10])
      else
        bind (cells b 0 (min (unat (b_used b)) 1000)) (\<lambda>body.
        ret ([10] @ ascii ''buffer('' @ decimal (unat (b_used b)) @ ascii ''/'' @ decimal (unat (b_max b)) @ ascii ''): '' @
             body @ (if b_used b = b_pos b then mark else []) @ [10])))"

section \<open>Messages\<close>

text \<open>\<open>excom_check_error(err, failcode, desc)\<close>: what goes to the standard error, and the code the program exits with, if it does.\<close>

definition excom_check_error :: "(int \<Rightarrow> byte list) \<Rightarrow> int \<Rightarrow> int \<Rightarrow> byte list \<Rightarrow> byte list \<times> int option" where
  "excom_check_error strerror err failcode desc =
     (if err \<noteq> 0
      then (ascii ''[excom] error: '' @ desc @ ascii '': '' @ strerror err @ [10], if failcode \<noteq> 0 then Some failcode else None)
      else ([], None))"

text \<open>The callbacks of \<open>src/excom/server/client.c\<close> leave the client as it is.\<close>

definition stub_connect :: "'c \<Rightarrow> byte list \<times> 'c" where
  "stub_connect client = (ascii ''[excom] server: Client connected'' @ [10], client)"

definition stub_read :: "'c \<Rightarrow> byte list \<times> 'c" where
  "stub_read client = (ascii ''[excom] server: Data available'' @ [10], client)"

definition stub_write :: "'c \<Rightarrow> byte list \<times> 'c" where
  "stub_write client = ([], client)"

definition stub_error :: "'c \<Rightarrow> byte list \<times> 'c" where
  "stub_error client = ([], client)"

definition stub_close :: "'c \<Rightarrow> byte list \<times> 'c" where
  "stub_close client = (ascii ''[excom] server: Client disconnected'' @ [10], client)"

section \<open>The dump is faithful\<close>

lemma hex_digit_inj:
  assumes "m < 16" and "n < 16" and "hex_digit m = hex_digit n"
  shows "m = n"
proof -
  have u: "unat (hex_digit k) = (if k < 10 then 48 + k else 87 + k)" if "k < 16" for k
    using that by (simp add: hex_digit_def unat_of_nat)
  show ?thesis using arg_cong [OF assms(3), of unat] u [OF assms(1)] u [OF assms(2)] assms(1,2) by (simp split: if_splits)
qed

lemma hex2_inj: "hex2 b = hex2 c \<Longrightarrow> b = c"
proof -
  assume h: "hex2 b = hex2 c"
  have lt: "unat x div 16 < 16" for x :: byte
    using unsigned_less [of x, where 'a = nat] by (simp add: less_mult_imp_div_less)
  have "unat b div 16 = unat c div 16" "unat b mod 16 = unat c mod 16"
    using h lt [of b] lt [of c] by (auto simp: hex2_def intro: hex_digit_inj)
  then have "unat b = unat c" by (metis div_mult_mod_eq)
  then show ?thesis by (simp only: unsigned_word_eqI)
qed

text \<open>The text of the bytes \<open>bs\<close> from position \<open>i\<close> on, with the mark at \<open>pos\<close>.\<close>

primrec dump :: "nat \<Rightarrow> nat \<Rightarrow> byte list \<Rightarrow> byte list" where
  "dump pos i [] = []"
| "dump pos i (x # xs) = cell (i = pos) x @ dump pos (Suc i) xs"

lemma length_cell: "length (cell here x) = (if here then length mark + 1 else 0) + 6"
  by (simp add: cell_def hex2_def ascii_def)

lemma cell_inj: "cell here x @ xs = cell here y @ ys \<Longrightarrow> x = y \<and> xs = ys"
proof -
  assume h: "cell here x @ xs = cell here y @ ys"
  then have c: "cell here x = cell here y \<and> xs = ys" by (simp add: length_cell append_eq_append_conv)
  then have "hex2 x = hex2 y" by (cases here) (simp_all add: cell_def hex2_def)
  with c hex2_inj show ?thesis by blast
qed

lemma dump_inj: "length xs = length ys \<Longrightarrow> dump pos i xs = dump pos i ys \<Longrightarrow> xs = ys"
proof (induction xs arbitrary: ys i)
  case (Cons x xs)
  then show ?case by (cases ys) (auto dest!: cell_inj)
qed simp

lemma contents_load:
  assumes "buf_ok w b" and "i < length (contents w b)"
  shows "load (ptr_add (b_buf b) i) 1 w = Inr ([contents w b ! i], w)"
  using assms(1)
proof (cases rule: buf_ok_cases)
  case empty
  then show ?thesis using assms(2) by (simp add: contents_def)
next
  case (block j bs)
  then show ?thesis using assms(2) by (simp add: contents_def load_def take_Suc_conv_app_nth hd_drop_conv_nth take_Suc)
qed

lemma cells_run:
  assumes "buf_ok w b" and "i + n \<le> length (contents w b)"
  shows "cells b i n w = Inr (dump (unat (b_pos b)) i (take n (drop i (contents w b))), w)"
  using assms(2)
proof (induction n arbitrary: i)
  case (Suc n)
  have "drop i (contents w b) = contents w b ! i # drop (Suc i) (contents w b)"
    using Suc.prems by (simp add: Cons_nth_drop_Suc)
  then show ?case
    using Suc contents_load [OF assms(1), of i] by (simp add: bind_def ret_def)
qed (simp add: ret_def)

text \<open>
  The dump reads nothing but the contents of the buffer and changes nothing; it shows the first 1000 bytes in
  their order. Texts of two buffers of the same length and read position are the same only if these bytes are
  (\<open>dump_inj\<close>).
\<close>

lemma buffer_inspect_shows:
  assumes "buf_ok w b"
  shows "excom_buffer_inspect False b w =
    Inr ([10] @ ascii ''buffer('' @ decimal (unat (b_used b)) @ ascii ''/'' @ decimal (unat (b_max b)) @ ascii ''): '' @
      dump (unat (b_pos b)) 0 (take 1000 (contents w b)) @ (if b_used b = b_pos b then mark else []) @ [10], w)"
proof -
  have l: "length (contents w b) = unat (b_used b)" using length_contents [OF assms] .
  then have "take (min (unat (b_used b)) 1000) (contents w b) = take 1000 (contents w b)" by (simp add: min_def)
  then show ?thesis
    using cells_run [OF assms, of 0 "min (unat (b_used b)) 1000"] l by (simp add: excom_buffer_inspect_def bind_def ret_def)
qed

end
