(* ===== verification/Tests.thy ===== *)
theory Tests
  imports ProtocolProps
begin

text \<open>
  The repository's own tests, \<open>test/buffer.test\<close>, \<open>test/string.test\<close> and \<open>test/protocol.test\<close>, with the
  assertions of \<open>test/utest.h\<close>, as programs over the model. They run in the kernel: the model agrees with what
  the authors expect of the code, whatever is in uninitialised memory.

  The tests of the writer of packets compare with \<open>strncmp\<close>, which stops at the null byte every small packet
  begins with.
\<close>

section \<open>Model\<close>

text \<open>The result of a test: its assertions in order.\<close>

type_synonym test = "bool list cmd"

definition passes :: "test \<Rightarrow> world \<Rightarrow> bool" where
  "passes t w = (case t w of Inl _ \<Rightarrow> False | Inr (oks, _) \<Rightarrow> list_all id oks)"

text \<open>A string literal or an array initialised with one, as the pointer to its bytes and the null at the end.\<close>

definition chars :: "string \<Rightarrow> byte list" where
  "chars s = map of_char s"

definition literal :: "byte list \<Rightarrow> ptr" where
  "literal bs = Lit (bs @ [0])"

text \<open>
  \<open>uassert_empty(strncmp(p, q, n))\<close>, which is \<open>uassert_same\<close>: the comparison stops at a null character.
\<close>

fun same_chars :: "nat \<Rightarrow> byte list \<Rightarrow> byte list \<Rightarrow> fault + bool" where
  "same_chars 0 _ _ = Inr True"
| "same_chars (Suc n) (x # xs) (y # ys) =
     (if x \<noteq> y then Inr False else if x = 0 then Inr True else same_chars n xs ys)"
| "same_chars (Suc n) _ _ = Inl OutOfBounds"

definition uassert_same :: "ptr \<Rightarrow> ptr \<Rightarrow> nat \<Rightarrow> bool cmd" where
  "uassert_same p q n = bind (peek p) (\<lambda>xs. bind (peek q) (\<lambda>ys. lift_fault (same_chars n xs ys)))"

subsection \<open>Buffers\<close>

text \<open>Before and after each test of the group.\<close>

definition buffer_test :: "(buffer \<Rightarrow> (bool list \<times> buffer) cmd) \<Rightarrow> test" where
  "buffer_test body =
     bind (excom_buffer_init raw_buffer 32) (\<lambda>(_, buffer).
     bind (body buffer) (\<lambda>(oks, buffer).
     bind (excom_buffer_destroy buffer) (\<lambda>_. ret oks)))"

definition test_initialization :: test where
  "test_initialization = buffer_test (\<lambda>buffer.
     ret ([b_max buffer = 32, b_used buffer = 0, b_buf buffer \<noteq> Null, b_pos buffer = 0], buffer))"

definition test_cappend :: test where
  "test_cappend = buffer_test (\<lambda>buffer.
     bind (store (b_buf buffer) (replicate 31 0xdd)) (\<lambda>_.
     bind (excom_buffer_cappend buffer (literal (chars ''only this gets appended'')) 4) (\<lambda>(r, buffer).
     bind (uassert_same (b_buf buffer) (literal (chars ''only'' @ [0xdd])) 5) (\<lambda>same.
     ret ([r = 0, b_used buffer = 4, same], buffer)))))"

definition test_sappend :: test where
  "test_sappend = buffer_test (\<lambda>buffer.
     let str = excom_string_fill excom_string_init 6 (literal (chars ''hello'')) in
     bind (excom_buffer_sappend buffer str) (\<lambda>(r, buffer).
     bind (uassert_same (b_buf buffer) (literal (chars ''hello'')) 5) (\<lambda>same.
     ret ([r = 0, b_used buffer = 6, same], buffer\<lparr>b_used := 0\<rparr>))))"

definition test_bappend :: test where
  "test_bappend = buffer_test (\<lambda>buffer.
     bind (excom_buffer_init raw_buffer 16) (\<lambda>(r1, buf).
     bind (excom_buffer_cappend buf (literal (chars ''hello world'')) 11) (\<lambda>(r2, buf).
     bind (excom_buffer_bappend buffer buf) (\<lambda>(r3, buffer).
     bind (uassert_same (b_buf buffer) (literal (chars ''hello world'')) 11) (\<lambda>same.
     let used = b_used buffer in
     bind (excom_buffer_destroy buf) (\<lambda>buf.
     ret ([r1 = 0, r2 = 0, r3 = 0, used = 11, same, b_max buf = 0, b_used buf = 0], buffer\<lparr>b_used := 0\<rparr>)))))))"

definition test_format :: test where
  "test_format = buffer_test (\<lambda>buffer.
     bind (excom_buffer_format buffer (chars ''hello %s'') [ArgStr (literal (chars ''world''))]) (\<lambda>(r, buffer).
     bind (uassert_same (b_buf buffer) (literal (chars ''hello world'')) 11) (\<lambda>same.
     ret ([r = 0, b_used buffer = 11, same], buffer\<lparr>b_used := 0\<rparr>))))"

definition test_resize :: test where
  "test_resize = buffer_test (\<lambda>buffer.
     let str = chars ''FohtnIBgPs5leGO20d24VvP8HvPStP1NWFopdUQuZyJHnosyh6SPUEHb9KFp4hxk9VpWITOb7BhxIkV6'';
         n = length str - 1 in
     bind (excom_buffer_cappend buffer (literal str) (of_nat n)) (\<lambda>(r, buffer).
     bind (uassert_same (b_buf buffer) (literal str) n) (\<lambda>same.
     ret ([r = 0, b_max buffer = 128, b_used buffer = of_nat n, same], buffer\<lparr>b_used := 0\<rparr>))))"

text \<open>\<open>pipe\<close> gives the descriptors; what is read from the one is what was written to the other.\<close>

definition test_write :: "int \<Rightarrow> test" where
  "test_write fd = buffer_test (\<lambda>buffer.
     bind (excom_buffer_reset buffer) (\<lambda>(r, buffer).
     bind (excom_buffer_cappend buffer (literal (chars ''hello world'')) 11) (\<lambda>(_, buffer).
     bind (excom_buffer_write buffer fd) (\<lambda>(_, buffer).
     bind (asks (\<lambda>w. take 11 (wire w fd))) (\<lambda>buff.
     bind (uassert_same (Lit buff) (literal (chars ''hello world'')) 11) (\<lambda>same.
     ret ([r = 0, length buff = 11, same], buffer)))))))"

subsection \<open>Strings\<close>

definition hello_text :: ptr where
  "hello_text = literal (chars ''hello world'')"

definition test_string_init :: test where
  "test_string_init = (let string = excom_string_init in
     ret [s_size string = 0, s_body string = Null, \<not> s_freeable string])"

definition test_filling :: test where
  "test_filling = (let string = excom_string_fill excom_string_init 11 hello_text in
     ret [s_body string = hello_text, s_size string = 11, \<not> s_freeable string])"

definition test_free_mark :: test where
  "test_free_mark =
     (let string = excom_string_init; string1 = excom_string_freeable string; string2 = excom_string_unfreeable string1 in
      ret [\<not> s_freeable string, s_freeable string1, excom_string_isfreeable string1, \<not> s_freeable string2])"

definition test_duplication :: test where
  "test_duplication = (let string = excom_string_fill excom_string_init 11 hello_text in
     bind (excom_string_dup string) (\<lambda>(_, out).
     bind (uassert_same (s_body string) (s_body out) (unat (s_size out))) (\<lambda>same.
     bind (load (ptr_add (s_body out) (unat (s_size out))) 1) (\<lambda>last.
     bind (excom_free (s_body out)) (\<lambda>_.
     ret [s_size string = s_size out, same, s_freeable out, last = [0]])))))"

subsection \<open>Packets\<close>

text \<open>
  The macros \<open>write-test-packet\<close> and \<open>read-test-packet\<close>. \<open>i\<close> is the counter of the group, before the test.
\<close>

definition write_test_packet :: "sodium \<Rightarrow> u16 \<Rightarrow> fval list \<Rightarrow> byte list \<Rightarrow> u16 \<Rightarrow> test" where
  "write_test_packet S ty body fill i =
     (let packet = \<lparr>pk_size = 0, pk_id = i + 1, pk_type = ty, pk_data = body\<rparr> in
      bind (excom_buffer_init raw_buffer 64) (\<lambda>(r, buffer).
      bind (excom_protocol_write_packet S packet buffer None) (\<lambda>(_, packet, buffer, _).
      bind (uassert_same (b_buf buffer) (literal fill) (length fill)) (\<lambda>same.
      bind (excom_buffer_destroy buffer) (\<lambda>_.
      ret [r = 0, b_used buffer = of_nat (length fill), same])))))"

definition read_test_packet :: "sodium \<Rightarrow> u16 \<Rightarrow> byte list \<Rightarrow> (fval list \<Rightarrow> bool list) \<Rightarrow> u16 \<Rightarrow> test" where
  "read_test_packet S ty str body i =
     (let packet = \<lparr>pk_size = 0xdddddddd, pk_id = 0xdddd, pk_type = 0xdddd, pk_data = []\<rparr> in
      bind (excom_buffer_init raw_buffer 16) (\<lambda>(_, buf).
      bind (excom_buffer_cappend buf (literal str) (of_nat (length str + 1))) (\<lambda>(_, buf).
      bind (excom_protocol_read_packet S packet buf None) (\<lambda>(r, packet, buf, _).
      bind (excom_buffer_destroy buf) (\<lambda>_.
      ret ([r = 0, pk_type packet = ty, pk_size packet = of_nat (length str - 8), pk_id packet = i + 1] @ body (pk_data packet)))))))"

definition test_ok_packet :: "sodium \<Rightarrow> test" where
  "test_ok_packet S = write_test_packet S packet_ok [] [0, 0, 0, 0, 0, 1, 0, 1] 0"

definition test_reject_packet :: "sodium \<Rightarrow> test" where
  "test_reject_packet S = write_test_packet S packet_reject [NVal 0x40] [0, 0, 0, 1, 0, 2, 0, 2, 0x40] 1"

definition test_error_packet :: "sodium \<Rightarrow> test" where
  "test_error_packet S = write_test_packet S packet_error [NVal 56] [0, 0, 0, 1, 0, 3, 0, 3, 0x38] 2"

definition test_version_packet :: "sodium \<Rightarrow> test" where
  "test_version_packet S =
     (let version = excom_string_fill excom_string_init 5 (literal (chars ''1.0.0'')) in
      write_test_packet S packet_protocol_version [SVal version, NVal 1, NVal 0, NVal 0]
        ([0, 0, 0, 12, 0, 4, 0, 4, 0, 0, 0, 5] @ chars ''1.0.0'' @ [1, 0, 0]) 3)"

definition test_command_packet :: "sodium \<Rightarrow> test" where
  "test_command_packet S =
     (let command = excom_string_fill excom_string_init 4 (literal (chars ''test'')) in
      write_test_packet S packet_command [SVal command] ([0, 0, 0, 8, 0, 5, 0, 5, 0, 0, 0, 4] @ chars ''test'') 4)"

definition test_read_ok :: "sodium \<Rightarrow> test" where
  "test_read_ok S = read_test_packet S packet_ok [0, 0, 0, 0, 0, 6, 0, 1] (\<lambda>_. []) 5"

definition test_read_reject :: "sodium \<Rightarrow> test" where
  "test_read_reject S = read_test_packet S packet_reject [0, 0, 0, 1, 0, 7, 0, 2, 0x40] (\<lambda>data. [data = [NVal 0x40]]) 6"

definition test_prefill :: test where
  "test_prefill =
     (let str = excom_string_fill excom_string_init 6 (literal (chars ''1.0.0''));
          packet = \<lparr>pk_size = 0, pk_id = 0, pk_type = packet_protocol_version, pk_data = []\<rparr> in
      bind (lift_fault (excom_protocol_prefill packet [PfString str, PfNumber 1, PfNumber 0, PfNumber 0])) (\<lambda>packet.
      case pk_data packet of
        [SVal version, NVal major, NVal minor, NVal patch] \<Rightarrow>
          bind (uassert_same (s_body version) (literal (chars ''1.0.0'')) 5) (\<lambda>same.
          ret [same, major = 1, minor = 0, patch = 0])
      | _ \<Rightarrow> fail BadMember))"

subsection \<open>The suite\<close>

definition suite :: "sodium \<Rightarrow> test list" where
  "suite S =
     [test_initialization, test_cappend, test_sappend, test_bappend, test_format, test_resize, test_write 4,
      test_string_init, test_filling, test_free_mark, test_duplication,
      test_ok_packet S, test_reject_packet S, test_error_packet S, test_version_packet S, test_command_packet S,
      test_read_ok S, test_read_reject S, test_prefill]"

text \<open>
  A program that starts: no blocks yet, a kernel that takes what is written, \<open>j\<close> in memory that is not
  initialised and \<open>n\<close> bytes of slack behind the scratch array.
\<close>

definition test_world :: "(nat \<Rightarrow> nat \<Rightarrow> byte) \<Rightarrow> nat \<Rightarrow> world" where
  "test_world j n = \<lparr>blocks = \<lambda>_. None, fresh = 0, junk = j, mallocs = [], minits = [], errno = 0,
     outs = [Inr 4096], ins = [], wire = \<lambda>_. [], entropy = [], little = True, slack = n\<rparr>"

section \<open>The runs\<close>

declare grow.simps [code]

lemma initialization_passes: "passes test_initialization (test_world j 1)"
  by code_simp

lemma cappend_passes: "passes test_cappend (test_world j 1)"
  by code_simp

lemma sappend_passes: "passes test_sappend (test_world j 1)"
  by code_simp

lemma bappend_passes: "passes test_bappend (test_world j 1)"
  by code_simp

lemma format_passes: "passes test_format (test_world j 1)"
  by code_simp

lemma resize_passes: "passes test_resize (test_world j 1)"
  by code_simp

lemma write_passes: "passes (test_write 4) (test_world j 1)"
  by code_simp

lemma string_init_passes: "passes test_string_init (test_world j 1)"
  by code_simp

lemma filling_passes: "passes test_filling (test_world j 1)"
  by code_simp

lemma free_mark_passes: "passes test_free_mark (test_world j 1)"
  by code_simp

lemma duplication_passes: "passes test_duplication (test_world j 1)"
  by code_simp

lemma ok_packet_passes: "passes (test_ok_packet S) (test_world j 1)"
  by code_simp

lemma reject_packet_passes: "passes (test_reject_packet S) (test_world j 1)"
  by code_simp

lemma error_packet_passes: "passes (test_error_packet S) (test_world j 1)"
  by code_simp

lemma version_packet_passes: "passes (test_version_packet S) (test_world j 1)"
  by code_simp

lemma command_packet_passes: "passes (test_command_packet S) (test_world j 1)"
  by code_simp

lemma read_ok_passes: "passes (test_read_ok S) (test_world j 1)"
  by code_simp

lemma read_reject_passes: "passes (test_read_reject S) (test_world j 1)"
  by code_simp

lemma prefill_passes: "passes test_prefill (test_world j 1)"
  by code_simp

lemmas tests_pass =
  initialization_passes cappend_passes sappend_passes bappend_passes format_passes resize_passes
  write_passes string_init_passes filling_passes free_mark_passes duplication_passes
  ok_packet_passes reject_packet_passes error_packet_passes version_packet_passes
  command_packet_passes read_ok_passes read_reject_passes prefill_passes

lemma version_faults: "case test_version_packet S (test_world j 0) of Inl f \<Rightarrow> f = OutOfBounds | Inr _ \<Rightarrow> False"
  by code_simp

section \<open>What the tests of the writer compare\<close>

lemma passes_wp: "passes t w = wp t (\<lambda>oks _. list_all id oks) w"
  by (simp add: passes_def wp_def)

lemma same_chars_null [simp]: "0 < n \<Longrightarrow> same_chars n (0 # xs) (0 # ys) = Inr True"
  by (cases n) simp_all

lemma small_frame:
  assumes "length (enc_fields vs) < 2 ^ 24"
  obtains bs where "enc_frame (i, ty, vs) = 0 # bs"
proof -
  let ?n = "of_nat (length (enc_fields vs)) :: u32"
  have "unat ?n < 2 ^ 24" using assms by (simp add: unat_of_nat_u32)
  then have "drop_bit 24 ?n = 0" by (simp add: drop_bit_eq_div word_arith_nat_div div_less)
  then have "byte_of 3 ?n = 0" by (simp add: byte_of_def)
  then show ?thesis by (intro that) (simp add: enc_frame_def enc_header_eq be32_def)
qed

lemma writer_test_passes:
  assumes "hwf w" and "plenty w" and "sane w" and "packet_fields ty = Some fs" and "data_val w data vs" and "fields_ok fs vs"
    and "\<forall>i \<in> data_ids data. i < fresh w" and "length (enc_fields vs) < 2 ^ 24"
    and "length fill = 8 + length (enc_fields vs)" and "hd fill = 0"
  shows "passes (write_test_packet S ty data fill i) w"
proof -
  let ?pk = "\<lparr>pk_size = 0, pk_id = i + 1, pk_type = ty, pk_data = data\<rparr>"
  obtain fs' where fill: "fill = 0 # fs'" using assms(9,10) by (cases fill) auto
  obtain bs where frame: "enc_frame (i + 1, ty, vs) = 0 # bs" by (rule small_frame [OF assms(8)])
  have len: "length (enc_frame (i + 1, ty, vs)) = length fill" using assms(9) by (simp add: enc_frame_def)
  show ?thesis
    unfolding passes_wp write_test_packet_def Let_def wp_bind
  proof (rule wp_mono [OF buffer_init_wp [OF assms(1,2)]], simp, clarsimp, goal_cases)
    case (1 w1)
    let ?b = "\<lparr>b_init = 64, b_max = 64, b_used = 0, b_pos = 0, b_buf = Ptr (fresh w) 0, b_unmutable = False, b_freeable = True, b_mutex = False\<rparr>"
    have "sane w1" using assms(3) mframe_envD [OF 1(2)] by (simp add: sane_def)
    moreover have "data_val w1 (pk_data ?pk) vs" using data_val_frame [OF assms(5) 1(2) assms(1)] by simp
    moreover have "\<forall>i \<in> data_ids (pk_data ?pk). i < fresh w1" using assms(7) 1(4) by auto
    ultimately have "wp (excom_protocol_write_packet S ?pk ?b None) (\<lambda>(r, pk', b', enc') w'.
        bstep w1 ?b w' b' \<and> ready w' b' \<and> contents w' b' = enc_frame (i + 1, ty, vs)) w1"
      using 1(1) assms(4,6,8)
      by (intro wp_mono [OF write_packet_ready [where enc = None and body = "enc_fields vs" and vs = vs and fs = fs]])
         (auto simp: crypto_ready_def encrypting_def payload_def enc_after_def payload_draws_def appended_def enc_frame_def contents_def)
    then show ?case
    proof (rule wp_mono, goal_cases)
      case (1 x w')
      then obtain r pk' b' enc' where x: "x = (r, pk', b', enc')" by (cases x)
      note 1 = 1 [unfolded x prod.case]
      have ok: "buf_ok w' b'" using 1 by (simp add: ready_def)
      have fr: "b_freeable b'" using bstepD(6) [OF conjunct1 [OF 1]] by simp
      have c: "contents w' b' = 0 # bs" using 1 frame by simp
      have used: "unat (b_used b') = length fill" using length_contents [OF ok] 1 len by simp
      have used_of: "b_used b' = of_nat (length fill)" unfolding used [symmetric] by simp
      from ok show ?case
      proof (cases rule: buf_ok_cases)
        case empty
        then show ?thesis using c by (simp add: contents_def)
      next
        case (block k xs)
        have "take (unat (b_used b')) xs = 0 # bs" using c block by (simp add: contents_def)
        then obtain ys where "xs = 0 # ys" by (cases xs; cases "unat (b_used b')") auto
        then have same: "wp (uassert_same (b_buf b') (literal fill) (length fill)) R w' = R True w'" for R
          using block fill by (simp add: uassert_same_def peek_def literal_def run_simps wp_def)
        show ?thesis
          using used by (auto simp: x same used_of intro!: buffer_destroy_wp [OF ok fr])
      qed
    qed
  qed
qed

section \<open>Properties\<close>

text \<open>
  All 19 tests of the repository pass on the model, for any crypto library and whatever is in memory that
  is not initialised. They need a byte of slack behind the scratch array of the writer: without it the
  test of \<open>protocol_version\<close> writes out of bounds.
\<close>

theorem suite_passes:
  "list_all (\<lambda>t. passes t (test_world j 1)) (suite S) \<and> faults (test_version_packet S) (test_world j 0)"
  using version_faults [of S j] by (auto simp: suite_def tests_pass faults_def simp del: One_nat_def split: sum.splits)

text \<open>
  But the five tests of the writer do not look at what it writes: whatever bytes are expected, the test passes
  if there are as many as the frame has and the first is the null byte. That is how the test of \<open>command\<close> passes, which
  expects type 5 where the table has 16.
\<close>

theorem writer_tests_compare_nothing:
  assumes "packet_fields ty = Some fs" and "data_val (test_world j n) data vs" and "fields_ok fs vs" and "data_ids data = {}"
    and "0 < n" and "length (enc_fields vs) < 2 ^ 24" and "length fill = 8 + length (enc_fields vs)" and "hd fill = 0"
  shows "passes (write_test_packet S ty data fill i) (test_world j n)"
  by (rule writer_test_passes [OF _ _ _ assms(1-3) _ assms(6-8)])
     (use assms(4,5) in \<open>simp_all add: test_world_def hwf_def plenty_def sane_def\<close>)

theorem writer_tests_compare_nothing_witness:
  "passes (write_test_packet xor_sodium packet_error [NVal 56] [0, 7, 7, 7, 7, 7, 7, 7, 7] 2) (test_world (\<lambda>_ _. 0) 1)"
  by (rule writer_tests_compare_nothing [where vs = "[WNum 56]" and fs = "[FNumber8 ''reason'']"]) (simp_all add: data_val_def data_ids_def fv_val_def fv_ids_def enc_fields_def fields_ok_def)

end
