(* ===== verification/Spec2Isabelle.thy ===== *)
theory Spec2Isabelle
  imports BufferProps EncryptionProps ServerEvents Session Threads Closing FirstCommand Cli FactoryThreads PollProps Select
    Kqueue Console Tests
begin

text \<open>
  A verification library for excom, a chat library in C with an example server and client.

  \<^bold>\<open>The program.\<close> Two parties exchange \<^emph>\<open>packets\<close>: a header of 8 bytes (size, id, type) and a body of
  strings and numbers that the table \<open>packets.def\<close> gives for each type. A peer keeps growable byte
  buffers for its input and output; it turns bytes into packets, hands the packets to handlers, and
  the handlers append their replies to the output. A connection starts with a handshake (version, public
  key, ping) and from the key exchange on its bodies are sealed with NaCl boxes. An event loop (epoll,
  poll, select or kqueue) runs the callbacks of a server or client when its descriptors are ready; in
  the server a worker thread for each client handles the packets the callbacks have queued. Threads,
  mutexes and a job factory are the library's own layer over POSIX.

  \<^bold>\<open>How C is modelled\<close> (theory \<open>Prelude\<close>). An operation is a command: a function from the world to a fault
  or a result with the new world. The world holds the malloc heap (blocks of bytes, with the number
  of the next one), \<open>errno\<close>, what was written to each descriptor, the outcomes the environment has
  chosen for the next writes, the allocations that fail, the random bytes, and the byte order of the
  host. A pointer is null, an offset into a block, or storage that is not in the heap. What C leaves
  undefined is a fault: \<open>NullDeref\<close>, reads and writes out of bounds, use after free, a bad \<open>free\<close>, a
  wrong union member, unlocking a mutex that is not locked. A fault also stands for a loop that never ends (\<open>Diverges\<close>)
  and for \<open>exit\<close> (\<open>Exits\<close>). Machine integers are words of their C width. \<open>wp m Q w\<close> says that \<open>m\<close> ends from
  \<open>w\<close> without a fault in a result with \<open>Q\<close>; it is total correctness, and most rules of the library are
  statements of this form. Structs linked by pointers (packets, jobs, clients) live in maps from the
  number of their block to a record (theory \<open>Structs\<close>).

  \<^bold>\<open>Theories, and the code each one models.\<close>

  \<^item> \<open>XString\<close>: \<open>string.c\<close>, \<open>string.h\<close>. Strings with a size and a flag that says who frees them.
  \<^item> \<open>Buffer\<close>, \<open>BufferIO\<close>, \<open>Format\<close>, \<open>BufferProps\<close>: \<open>buffer.c\<close>, \<open>buffer.h\<close>. The growth loop, the appends, the
    partial write, formatted output. A buffer refines a queue of bytes.
  \<^item> \<open>Codec\<close>, \<open>Sink\<close>: two interfaces. \<open>codec\<close>, \<open>exact_codec\<close> and \<open>codec_pair\<close> are self-delimiting binary
    formats; \<open>byte_sink\<close> is what the writer of packets needs of a buffer.
  \<^item> \<open>Console\<close>: what is printed: \<open>excom_buffer_inspect\<close>, \<open>excom_check_error\<close>, and the callbacks of
    \<open>src/excom/server/client.c\<close> that only print.
  \<^item> \<open>Pack\<close>: \<open>protocol/pack.c\<close>, in both byte orders. On a little-endian host it provides the codecs of the integers.
  \<^item> \<open>Wire\<close>: \<open>packets.def\<close>, \<open>packets.h\<close>. The table of packets and the wire format as nested codecs.
  \<^item> \<open>Encryption\<close>, \<open>EncryptionProps\<close>: \<open>encryption.c\<close>, \<open>encryption.h\<close>, over the functions of sodium.
  \<^item> \<open>Protocol\<close>, \<open>ProtocolProps\<close>: \<open>protocol.c\<close>, \<open>protocol.h\<close>. Reading, writing and filling packets; both sides refine the
    wire format.
  \<^item> \<open>Handlers\<close>: \<open>handle_packets.ci\<close> of \<open>excom-server\<close> and \<open>excom-client\<close>, and the switches that call the handlers.
  \<^item> \<open>Queue\<close>: the linked list of received packets, with its interface \<open>packet_fifo\<close>.
  \<^item> \<open>ServerClient\<close>, \<open>Receive\<close>, \<open>ServerProps\<close>: \<open>excom-server/client.c\<close>. The callbacks for a connection, the
    reassembly of packets and the worker, and their refinement of the handshake. \<open>Session\<close>: the states a connection
    reaches through its callbacks and its worker, in any order.
  \<^item> \<open>Threads\<close>: the same file as two threads: linking in \<open>check_packet\<close> and unlinking in \<open>worker\<close> as a step
    relation on the shared list, one assignment a step. \<open>Closing\<close>: \<open>excom_server_client_close\<close> against the
    worker, with the condition variable and its wakeups for no reason. \<open>Runs\<close>: schedules, and the interface \<open>progressing\<close> of step relations
    that end; \<open>Threads\<close>, \<open>Closing\<close> and \<open>FactoryThreads\<close> share it.
  \<^item> \<open>Client\<close>, \<open>ClientProps\<close>: \<open>excom-client/client.c\<close>, the same for the client.
  \<^item> \<open>Epoll\<close>, \<open>EpollProps\<close>, \<open>Poll\<close>, \<open>PollProps\<close>, \<open>Select\<close>, \<open>Kqueue\<close>, \<open>Arrays\<close>: the files of \<open>event/\<close>. Registration, removal and the loop of
    each backend.
  \<^item> \<open>Server\<close>, \<open>ServerEvents\<close>: \<open>server.c\<close>, \<open>server.h\<close> on the epoll backend. Binding, accepting, the list of clients,
    the dispatch of events, shutting down.
  \<^item> \<open>Connect\<close>, \<open>ConnectProps\<close>: \<open>client.c\<close>, \<open>client.h\<close>. Resolving, connecting, the version packet.
  \<^item> \<open>Reading\<close>: the interface \<open>reader\<close> of a loop that reads a socket until it is empty, which both programs
    provide. \<open>Handshake\<close>: the two programs together, each with a world of its own, where the bytes that
    one has written are what the other reads next. \<open>FirstCommand\<close>: what becomes of the command after the handshake, and of what follows it.
  \<^item> \<open>Factory\<close>: \<open>factory.c\<close>. \<open>FactoryThreads\<close>: the same file as threads, the workers against
    \<open>excom_factory_destroy\<close>.
  \<^item> \<open>Thread\<close>: \<open>thread.c\<close> in its POSIX branch, condition variables included. \<open>Cli\<close>: \<open>excom-cli/main.c\<close>.
  \<^item> \<open>Loop\<close>: loops that need not end.
  \<^item> \<open>Tests\<close>: the repository's tests, \<open>test/buffer.test\<close>, \<open>string.test\<close> and \<open>protocol.test\<close>, run on the model.

  \<^bold>\<open>What the theorems show.\<close>

  \<^item> Refinement. The handlers implement the handshake as a function on states and messages; the writer
    and the reader implement the wire format, which is uniquely decodable. They compose: the frames in
    an input become packets at the end of the queue in order, a round of the worker answers all of them
    in order, and a version, a key and a ping bring a connection to its body state.
  \<^item> Client and server. From the connection of the client on, what each writes is what the other reads:
    after three exchanges both are in the body state, with nothing left unread. But each
    computes its session key from zeros and its own secret key, whatever the other has sent. Where the two keys
    are the same the first command arrives, and the last 32 bytes of its ciphertext stay in front of what follows.
  \<^item> The model against the tests. All 19 tests of the repository pass on the model, evaluated in the kernel. The tests of the
    writer pass whatever bytes they expect, because the comparison stops at the first null byte.
  \<^item> Invariants. A buffer loses, repeats and reorders nothing under any schedule of appends
    and writes; a connection goes through four states, never back, and seals its packets exactly from the key
    exchange on, whatever its callbacks and its worker do and in whatever order.
  \<^item> Interleaving. The worker does not hold the mutex while it unlinks. In every interleaving it still handles
    packets in their order and none twice, as long as fresh packets have a null \<open>_next\<close>; but two schedules show
    a packet lost and a crash, and a third a packet with another \<open>_next\<close> being followed. If the worker held the mutex, the
    two threads would be a queue.
    Closing a connection whose worker waits with no packets never ends in a fault, and so does destroying a factory
    whose workers all wait without jobs. Both end in every interleaving if nobody wakes for no reason; a wakeup for no
    reason, or a worker that has not come to wait yet, can make them wait for ever, and that is the only way
    they get stuck. A worker that is handling a packet uses it after \<open>close\<close> has freed it.
  \<^item> Round trips of integers, packets and encryption, and the growth loop of a buffer ending exactly
    when a doubling fits.
  \<^item> Where the code does not do what it means to, the theorem says exactly what it does: the fifth byte
    of \<open>pack_uint32_t\<close>, the 32 bytes an encrypted packet leaves behind, the key that is never
    taken over, the mutex unlocked twice, the cycle of clients, the removal from \<open>poll\<close> that keeps the event, and others. Each is listed as a finding of the manifest.

  \<^bold>\<open>Parameters.\<close> The library sodium is the record \<open>sodium\<close>, with \<open>sodium_ok\<close> as what is relied on: the lengths
  its functions return, decryption inverting encryption under the shared key, and the key being shared.
  The witnesses use \<open>xor_sodium\<close>, which satisfies it. The kernel is a record of functions on a state of its own, for
  epoll and kqueue with sockets; for \<open>poll\<close> and \<open>select\<close> it is the function that the loop asks. Whether
  an allocation fails, how much a write accepts and what a read delivers are choices of the world.
  In the functions that run as a whole, what other threads do while a worker waits on its condition variable is the
  argument \<open>wait\<close>; in \<open>Closing\<close> and \<open>FactoryThreads\<close> it is the condition variable of \<open>Thread\<close>, with wakeups for no
  reason (\<open>cond_wakes\<close>) as steps of their own that a schedule may have or not. Unlocking a mutex that is not
  locked is a fault, but the second unlock at the end of \<open>check_packet\<close> is also modelled for mutexes that do not
  check, the default ones of Linux (\<open>mutex_kind\<close> in \<open>ServerClient\<close>). \<open>Handshake\<close>, \<open>ConnectProps\<close> and
  \<open>FirstCommand\<close> run on those, with the others every exchange would end in that fault; \<open>Session\<close> allows both.

  \<^bold>\<open>Bounds.\<close> No loop has fuel. Loops that may run for ever go through \<open>partial_function (option)\<close>, and their rules
  ask for a measure. Rules for appending bound the bytes in the buffer by 2 to the 32, because
  \<open>excom_buffer_resize\<close> keeps the position in 32 bits. The rules of the writer assume a few bytes of slack behind
  \<open>char buf[4]\<close>, where \<open>pack_uint32_t\<close> puts its fifth byte; without it the writer has a fault, as a theorem shows.

  \<^bold>\<open>Not modelled.\<close> Tracing output in the middle of other functions; the Windows branches of \<open>thread.c\<close>; \<open>event.c\<close>, which
  has no code; the vendored TOML parser. A handler runs as a whole: its interleavings with the callbacks
  of the event loop are those of \<open>Threads\<close> and \<open>Closing\<close> only.
\<close>

end
